(* ===== verification/Prelude.thy ===== *)
theory Prelude
  imports Main "HOL-Library.AList" "HOL-Library.Sublist" "HOL-Library.Word" "HOL-Library.Multiset"
begin

text \<open>
  What every component of the model shares: Rust's \<open>Result\<close>, \<open>HashMap\<close> as an association
  list behind the interface \<open>keyed_store\<close>, and the operations on \<open>str\<close> the gateway uses.

  A Rust string is the list of its UTF-8 bytes (a \<^typ>\<open>string\<close> is a list of 8-bit
  characters), so \<open>length\<close> is \<open>str::len\<close>; the operations below that Rust defines on
  Unicode scalar values (\<open>trim\<close>, \<open>chars().take(n)\<close>) are written out on the UTF-8 encoding.
\<close>

section \<open>Results\<close>

datatype ('a, 'e) result = Ok 'a | Err 'e

definition is_ok :: "('a, 'e) result \<Rightarrow> bool" where
  "is_ok r = (case r of Ok _ \<Rightarrow> True | Err _ \<Rightarrow> False)"

definition ok_or :: "'e \<Rightarrow> 'a option \<Rightarrow> ('a, 'e) result" where
  "ok_or e x = (case x of Some a \<Rightarrow> Ok a | None \<Rightarrow> Err e)"

definition bind_result :: "('a, 'e) result \<Rightarrow> ('a \<Rightarrow> ('b, 'e) result) \<Rightarrow> ('b, 'e) result" where
  "bind_result r f = (case r of Ok a \<Rightarrow> f a | Err e \<Rightarrow> Err e)"

definition map_err :: "('e \<Rightarrow> 'f) \<Rightarrow> ('a, 'e) result \<Rightarrow> ('a, 'f) result" where
  "map_err f r = (case r of Ok a \<Rightarrow> Ok a | Err e \<Rightarrow> Err (f e))"

text \<open>A loop \<open>for x in xs \<open>{ out.push(f(x)?) }\<close>\<close>: it stops at the first error.\<close>

fun traverse :: "('a \<Rightarrow> ('b, 'e) result) \<Rightarrow> 'a list \<Rightarrow> ('b list, 'e) result" where
  "traverse f [] = Ok []"
| "traverse f (x # xs) =
     (case f x of
        Err e \<Rightarrow> Err e
      | Ok y \<Rightarrow> (case traverse f xs of Err e \<Rightarrow> Err e | Ok ys \<Rightarrow> Ok (y # ys)))"

lemma is_ok_simps [simp]: "is_ok (Ok a)" "\<not> is_ok (Err e)"
  by (simp_all add: is_ok_def)

lemma is_ok_iff: "is_ok r \<longleftrightarrow> (\<exists>a. r = Ok a)"
  by (cases r) auto

lemma ok_or_simps [simp]:
  "ok_or e (Some a) = Ok a" "ok_or e None = Err e"
  "ok_or e x = Ok a \<longleftrightarrow> x = Some a" "ok_or e x = Err e' \<longleftrightarrow> x = None \<and> e = e'"
  by (auto simp: ok_or_def split: option.splits)

lemma bind_result_simps [simp]:
  "bind_result (Ok a) f = f a" "bind_result (Err e) f = Err e"
  by (simp_all add: bind_result_def)

lemma bind_result_Ok: "bind_result r f = Ok b \<longleftrightarrow> (\<exists>a. r = Ok a \<and> f a = Ok b)"
  by (cases r) auto

lemma bind_result_Err: "bind_result r f = Err e \<longleftrightarrow> r = Err e \<or> (\<exists>a. r = Ok a \<and> f a = Err e)"
  by (cases r) auto

lemma map_err_simps [simp]:
  "map_err f (Ok a) = Ok a" "map_err f (Err e) = Err (f e)"
  "map_err f r = Ok a \<longleftrightarrow> r = Ok a"
  by (auto simp: map_err_def split: result.splits)

lemma map_err_Err: "map_err f r = Err e' \<longleftrightarrow> (\<exists>e. r = Err e \<and> e' = f e)"
  by (cases r) auto

lemma traverse_Ok: "traverse f xs = Ok ys \<longleftrightarrow> list_all2 (\<lambda>x y. f x = Ok y) xs ys"
proof (induction xs arbitrary: ys)
  case (Cons x xs)
  then show ?case
    by (cases "f x"; cases "traverse f xs") (auto simp: list_all2_Cons1)
qed auto

lemma traverse_Err: "traverse f xs = Err e \<Longrightarrow> \<exists>x \<in> set xs. f x = Err e"
  by (induction xs) (auto split: result.splits)

lemma traverse_map_id:
  "(\<And>x. x \<in> set xs \<Longrightarrow> f (g x) = Ok x) \<Longrightarrow> traverse f (map g xs) = Ok xs"
  by (induction xs) auto

section \<open>Keyed stores\<close>

text \<open>
  The contract every table of the program relies on: what \<open>get\<close> returns after \<open>insert\<close> and
  \<open>remove\<close>. The lemmas about folding a whole list of insertions or removals are the loops of
  the program over its tables.
\<close>

locale keyed_store =
  fixes empty :: "'m"
    and get :: "'m \<Rightarrow> 'k \<Rightarrow> 'v option"
    and put :: "'k \<Rightarrow> 'v \<Rightarrow> 'm \<Rightarrow> 'm"
    and del :: "'k \<Rightarrow> 'm \<Rightarrow> 'm"
  assumes get_empty: "get empty k = None"
    and get_put: "get (put k v m) k' = (if k' = k then Some v else get m k')"
    and get_del: "get (del k m) k' = (if k' = k then None else get m k')"
begin

lemma get_put_other: "k' \<noteq> k \<Longrightarrow> get (put k v m) k' = get m k'"
  by (simp add: get_put)

lemma get_dels: "get (fold del ks m) k = (if k \<in> set ks then None else get m k)"
  by (induction ks arbitrary: m) (auto simp: get_del)

lemma get_puts_other:
  "k \<notin> fst ` set kvs \<Longrightarrow> get (fold (\<lambda>(k, v). put k v) kvs m) k = get m k"
  by (induction kvs arbitrary: m) (auto simp: get_put)

lemma get_puts:
  "get (fold (\<lambda>(k, v). put k v) kvs m) k =
     (case map_of (rev kvs) k of None \<Rightarrow> get m k | Some v \<Rightarrow> Some v)"
  by (induction kvs arbitrary: m) (auto simp: get_put map_add_def split: option.splits)

end

text \<open>
  A \<open>HashMap<String, V>\<close> is an association list with at most one entry per key. The list order
  is bookkeeping only: where the program iterates over a map, the model applies an unknown
  permutation \<open>\<pi>\<close> to the keys first, since Rust leaves the iteration order open.
\<close>

type_synonym 'v hmap = "(string \<times> 'v) list"

definition hm_get :: "'v hmap \<Rightarrow> string \<Rightarrow> 'v option" where
  "hm_get m k = map_of m k"

definition hm_insert :: "string \<Rightarrow> 'v \<Rightarrow> 'v hmap \<Rightarrow> 'v hmap" where
  "hm_insert k v m = AList.update k v m"

definition hm_remove :: "string \<Rightarrow> 'v hmap \<Rightarrow> 'v hmap" where
  "hm_remove k m = AList.delete k m"

definition hm_contains :: "'v hmap \<Rightarrow> string \<Rightarrow> bool" where
  "hm_contains m k = (hm_get m k \<noteq> None)"

definition hm_keys :: "'v hmap \<Rightarrow> string list" where
  "hm_keys m = map fst m"

definition hm_ok :: "'v hmap \<Rightarrow> bool" where
  "hm_ok m = distinct (map fst m)"

text \<open>\<open>map.values()\<close> in the order the hasher gives.\<close>

type_synonym hash_order = "string list \<Rightarrow> string list"

definition hash_order_ok :: "hash_order \<Rightarrow> bool" where
  "hash_order_ok \<pi> = (\<forall>xs. mset (\<pi> xs) = mset xs)"

definition hm_values :: "hash_order \<Rightarrow> 'v hmap \<Rightarrow> 'v list" where
  "hm_values \<pi> m = List.map_filter (hm_get m) (\<pi> (hm_keys m))"

interpretation hm: keyed_store "[]" hm_get hm_insert hm_remove
  by unfold_locales
    (auto simp: hm_get_def hm_insert_def hm_remove_def update_conv' delete_conv')

lemmas hm_simps [simp] = hm.get_empty hm.get_put hm.get_del

lemma hm_contains_iff: "hm_contains m k \<longleftrightarrow> k \<in> set (hm_keys m)"
  by (auto simp: hm_contains_def hm_get_def hm_keys_def map_of_eq_None_iff)

lemma hm_get_Some_keys: "hm_get m k = Some v \<Longrightarrow> k \<in> set (hm_keys m)"
  by (metis hm_contains_def hm_contains_iff option.distinct(1))

lemma hm_ok_empty [simp]: "hm_ok []"
  by (simp add: hm_ok_def)

lemma hm_ok_insert [simp]: "hm_ok m \<Longrightarrow> hm_ok (hm_insert k v m)"
  by (simp add: hm_ok_def hm_insert_def distinct_update)

lemma hm_ok_remove [simp]: "hm_ok m \<Longrightarrow> hm_ok (hm_remove k m)"
  by (simp add: hm_ok_def hm_remove_def distinct_delete)

lemma hm_ok_removes: "hm_ok m \<Longrightarrow> hm_ok (fold hm_remove ks m)"
  by (induction ks arbitrary: m) auto

lemma hm_keys_insert: "set (hm_keys (hm_insert k v m)) = insert k (set (hm_keys m))"
  by (simp add: hm_keys_def hm_insert_def dom_update image_Un)

lemma hm_order_set: "hash_order_ok \<pi> \<Longrightarrow> set (\<pi> xs) = set xs"
  unfolding hash_order_ok_def by (metis set_mset_mset)

lemma hm_values_set:
  assumes "hash_order_ok \<pi>"
  shows "set (hm_values \<pi> m) = ran (hm_get m)"
  using assms
  by (auto simp: hm_values_def map_filter_def ran_def hm_order_set intro: rev_image_eqI
        dest: hm_get_Some_keys)

lemma hm_get_in_values:
  "hash_order_ok \<pi> \<Longrightarrow> hm_get m k = Some v \<Longrightarrow> v \<in> set (hm_values \<pi> m)"
  by (auto simp: hm_values_set ran_def)

section \<open>Machines\<close>

text \<open>
  A component with state is a machine: an initial state and a step for every operation it offers.
  The contract is an invariant that holds at the start and that every operation keeps; what
  follows for a whole run is proved here once and for all components.
\<close>

definition run :: "('o \<Rightarrow> 's \<Rightarrow> 's) \<Rightarrow> 'o list \<Rightarrow> 's \<Rightarrow> 's" where
  "run step ops s = fold step ops s"

lemma run_simps [simp]:
  "run step [] s = s" "run step (x # xs) s = run step xs (step x s)"
  "run step (xs @ ys) s = run step ys (run step xs s)"
  by (simp_all add: run_def)

locale guarded_machine =
  fixes init :: "'s"
    and step :: "'o \<Rightarrow> 's \<Rightarrow> 's"
    and inv :: "'s \<Rightarrow> bool"
    and ok :: "'o \<Rightarrow> bool"
  assumes inv_init: "inv init"
    and inv_ok_step: "inv s \<Longrightarrow> ok x \<Longrightarrow> inv (step x s)"
begin

lemma inv_ok_run_from: "inv s \<Longrightarrow> list_all ok ops \<Longrightarrow> inv (run step ops s)"
  by (induction ops arbitrary: s) (auto simp: inv_ok_step)

lemma inv_ok_run: "list_all ok ops \<Longrightarrow> inv (run step ops init)"
  by (rule inv_ok_run_from) (rule inv_init)

end

text \<open>A machine whose operations are all allowed.\<close>

locale machine =
  fixes init :: "'s"
    and step :: "'o \<Rightarrow> 's \<Rightarrow> 's"
    and inv :: "'s \<Rightarrow> bool"
  assumes inv_start: "inv init"
    and inv_step: "inv s \<Longrightarrow> inv (step x s)"

sublocale machine \<subseteq> guarded_machine init step inv "\<lambda>_. True"
  by unfold_locales (simp_all add: inv_start inv_step)

context machine
begin

lemma inv_run_from: "inv s \<Longrightarrow> inv (run step ops s)"
  by (rule inv_ok_run_from) (simp_all add: list_all_iff)

lemma inv_run: "inv (run step ops init)"
  by (rule inv_run_from) (rule inv_start)

text \<open>A fact that the operations of a run cannot undo survives the run.\<close>

lemma stable_run:
  assumes "inv s" "P s" "\<And>x s. x \<in> set ops \<Longrightarrow> inv s \<Longrightarrow> P s \<Longrightarrow> P (step x s)"
  shows "P (run step ops s)"
  using assms by (induction ops arbitrary: s) (auto simp: inv_step)

text \<open>A measure that no operation lowers is monotone along a run.\<close>

lemma mono_run:
  fixes f :: "'s \<Rightarrow> 'b::order"
  assumes "inv s" "\<And>x s. inv s \<Longrightarrow> f s \<le> f (step x s)"
  shows "f s \<le> f (run step ops s)"
  using assms(1)
proof (induction ops arbitrary: s)
  case (Cons x ops)
  then show ?case
    using assms(2) [of s x] by (auto simp: inv_step intro: order_trans)
qed simp

end

end
