(* ===== verification/Threads.thy ===== *)
theory Threads
  imports Prelude "HOL-Library.Multiset"
begin

text \<open>
  Tasks of an asynchronous runtime that share a state. A thread is a value or one atomic access to the
  state, after which it goes on as another thread; an access that gives \<open>None\<close> has to wait. A pool runs
  its threads in any order, one access at a time, and new threads may arrive at any moment. The locale
  \<open>ledger\<close> shows what holds of every pool whose threads keep books of what they still owe.
\<close>

section \<open>Threads\<close>

datatype ('s, 'a) thread = Done 'a | Atom "'s \<Rightarrow> (('s, 'a) thread \<times> 's) option"

primrec bind_thread :: "('s, 'a) thread \<Rightarrow> ('a \<Rightarrow> ('s, 'b) thread) \<Rightarrow> ('s, 'b) thread" where
  "bind_thread (Done a) k = k a"
| "bind_thread (Atom f) k = Atom (\<lambda>s. map_option (map_prod (\<lambda>t. bind_thread t k) id) (f s))"

text \<open>A thread that nothing interrupts.\<close>

primrec run_alone :: "('s, 'a) thread \<Rightarrow> 's \<Rightarrow> ('a \<times> 's) option" where
  "run_alone (Done a) = (\<lambda>s. Some (a, s))"
| "run_alone (Atom f) =
     (\<lambda>s. case map_option (map_prod run_alone id) (f s) of None \<Rightarrow> None | Some (go, s') \<Rightarrow> go s')"

definition finished :: "('s, 'a) thread \<Rightarrow> bool" where
  "finished t \<longleftrightarrow> (\<exists>a. t = Done a)"

lemma finished_simps [simp]: "finished (Done a)" "\<not> finished (Atom f)"
  by (simp_all add: finished_def)

lemma thread_induct [case_names Done Atom]:
  assumes "\<And>a. P (Done a)" "\<And>f. (\<And>s t s'. f s = Some (t, s') \<Longrightarrow> P t) \<Longrightarrow> P (Atom f)"
  shows "P t"
proof (induction t)
  case (Atom f)
  have "P t" if "f s = Some (t, s')" for s t s'
    by (rule Atom [of "Some (t, s')" "(t, s')"]) (use that in \<open>auto intro: range_eqI [of _ _ s]\<close>)
  then show ?case by (rule assms(2))
qed (rule assms(1))

lemma run_alone_Atom:
  "run_alone (Atom f) s = (case f s of None \<Rightarrow> None | Some (t, s') \<Rightarrow> run_alone t s')"
  by (simp split: option.split prod.split)

lemma run_alone_bind:
  "run_alone (bind_thread t k) s = (case run_alone t s of None \<Rightarrow> None | Some (a, s') \<Rightarrow> run_alone (k a) s')"
proof (induction t arbitrary: s rule: thread_induct)
  case (Atom f)
  show ?case using Atom [of s] by (cases "f s") auto
qed simp

section \<open>Pools\<close>

type_synonym ('s, 'a) pool = "'s \<times> ('s, 'a) thread list"

inductive advance :: "('s, 'a) pool \<Rightarrow> ('s, 'a) pool \<Rightarrow> bool" where
  advance: "f s = Some (t, s') \<Longrightarrow> advance (s, ts @ Atom f # us) (s', ts @ t # us)"

inductive pool_step :: "('s, 'a) thread set \<Rightarrow> ('s, 'a) pool \<Rightarrow> ('s, 'a) pool \<Rightarrow> bool" for A where
  arrives: "t \<in> A \<Longrightarrow> pool_step A (s, ts) (s, ts @ [t])"
| advances: "advance p q \<Longrightarrow> pool_step A p q"

inductive_cases advanceE: "advance p q"

text \<open>A thread that runs without interruption is one way for a pool to go on.\<close>

lemma advance_alone:
  "run_alone t s = Some (a, s') \<Longrightarrow> advance\<^sup>*\<^sup>* (s, ts @ t # us) (s', ts @ Done a # us)"
proof (induction t arbitrary: s rule: thread_induct)
  case (Atom f)
  then obtain t s1 where f: "f s = Some (t, s1)" and r: "run_alone t s1 = Some (a, s')"
    by (auto simp: run_alone_Atom simp del: run_alone.simps(2) split: option.splits)
  have "advance (s, ts @ Atom f # us) (s1, ts @ t # us)"
    using f by (rule advance)
  moreover have "advance\<^sup>*\<^sup>* (s1, ts @ t # us) (s', ts @ Done a # us)"
    by (rule Atom.IH [OF f r])
  ultimately show ?case by (rule converse_rtranclp_into_rtranclp)
qed simp

lemma pool_advances: "advance\<^sup>*\<^sup>* p q \<Longrightarrow> (pool_step A)\<^sup>*\<^sup>* p q"
  by (rule rtranclp_mono [THEN predicate2D]) (auto intro: advances)

lemma pool_alone:
  assumes "t \<in> A" "run_alone t s = Some (a, s')"
  shows "(pool_step A)\<^sup>*\<^sup>* (s, ts) (s', ts @ [Done a])"
proof (rule converse_rtranclp_into_rtranclp)
  show "pool_step A (s, ts) (s, ts @ [t])" using assms(1) by (rule arrives)
  show "(pool_step A)\<^sup>*\<^sup>* (s, ts @ [t]) (s', ts @ [Done a])"
    using advance_alone [OF assms(2), of ts "[]"] by (rule pool_advances)
qed

lemma advances_length: "(advance ^^ k) p q \<Longrightarrow> length (snd q) = length (snd p)"
  by (induction k arbitrary: q) (fastforce elim!: advanceE)+

lemma pool_all:
  assumes "(pool_step A)\<^sup>*\<^sup>* (s0, []) p" "\<And>t. t \<in> A \<Longrightarrow> P t"
    and "\<And>f s t s'. P (Atom f) \<Longrightarrow> f s = Some (t, s') \<Longrightarrow> P t"
  shows "list_all P (snd p)"
  using assms(1)
proof (induction rule: rtranclp_induct)
  case (step p q)
  from step(2,3) show ?case by (auto elim!: pool_step.cases advanceE intro: assms(2,3))
qed simp

section \<open>What every access keeps\<close>

inductive keeps :: "('s \<Rightarrow> bool) \<Rightarrow> ('s, 'a) thread \<Rightarrow> bool" for I where
  keeps_Done: "keeps I (Done a)"
| keeps_Atom: "(\<And>s t s'. I s \<Longrightarrow> f s = Some (t, s') \<Longrightarrow> I s' \<and> keeps I t) \<Longrightarrow> keeps I (Atom f)"

inductive_cases keeps_AtomE: "keeps I (Atom f)"

lemma pool_keeps:
  assumes "(pool_step A)\<^sup>*\<^sup>* (s0, []) p" "I s0" "\<And>t. t \<in> A \<Longrightarrow> keeps I t"
  shows "I (fst p) \<and> list_all (keeps I) (snd p)"
  using assms(1)
proof (induction rule: rtranclp_induct)
  case (step p q)
  from step(2,3) show ?case by (auto elim!: pool_step.cases advanceE keeps_AtomE intro: assms(3))
qed (simp add: assms(2))

section \<open>How long a thread runs\<close>

inductive at_most :: "nat \<Rightarrow> ('s, 'a) thread \<Rightarrow> bool" where
  at_most_Done: "at_most n (Done a)"
| at_most_Atom: "(\<And>s t s'. f s = Some (t, s') \<Longrightarrow> at_most n t) \<Longrightarrow> at_most (Suc n) (Atom f)"

inductive_cases at_most_AtomE: "at_most n (Atom f)"

lemma at_most_Suc: "at_most n t \<Longrightarrow> at_most (Suc n) t"
  by (induction rule: at_most.induct) (auto intro: at_most.intros)

lemma at_most_step: "at_most n (Atom f) \<Longrightarrow> f s = Some (t, s') \<Longrightarrow> at_most n t"
  by (auto elim!: at_most_AtomE intro: at_most_Suc)

lemma at_most_bind: "at_most n t \<Longrightarrow> (\<And>a. at_most m (k a)) \<Longrightarrow> at_most (n + m) (bind_thread t k)"
proof (induction rule: at_most.induct)
  case (at_most_Done n a)
  then have "at_most m (k a)" by simp
  then have "at_most (n + m) (k a)" by (induction n) (auto intro: at_most_Suc)
  then show ?case by simp
next
  case (at_most_Atom f n)
  then show ?case by (auto intro!: at_most.at_most_Atom)
qed

lemma advances_bounded:
  "(advance ^^ k) (s, ts) (s', ts') \<Longrightarrow> list_all2 at_most ns ts \<Longrightarrow>
     \<exists>ns'. list_all2 at_most ns' ts' \<and> k + sum_list ns' \<le> sum_list ns"
proof (induction k arbitrary: s' ts')
  case (Suc k)
  then obtain s1 ts1 where k: "(advance ^^ k) (s, ts) (s1, ts1)" and a: "advance (s1, ts1) (s', ts')"
    by auto
  obtain ns1 where ns1: "list_all2 at_most ns1 ts1" "k + sum_list ns1 \<le> sum_list ns"
    using Suc.IH [OF k Suc.prems(2)] by blast
  from a obtain f t vs us where f: "ts1 = vs @ Atom f # us" "ts' = vs @ t # us" "f s1 = Some (t, s')"
    by (auto elim!: advanceE)
  then obtain as n bs where n: "ns1 = as @ n # bs" "list_all2 at_most as vs" "at_most n (Atom f)" "list_all2 at_most bs us"
    using ns1(1) by (auto simp: list_all2_append2 list_all2_Cons2)
  from n(3) obtain m where m: "n = Suc m" "at_most m t"
    using f(3) by (auto elim!: at_most_AtomE)
  have "list_all2 at_most (as @ m # bs) ts'" using n m f by (simp add: list_all2_appendI)
  then show ?case using ns1(2) n(1) m(1) by (intro exI [of _ "as @ m # bs"]) simp
qed auto

lemma pool_bounded:
  assumes "(pool_step A)\<^sup>*\<^sup>* (s0, []) (s, ts)" "\<And>t. t \<in> A \<Longrightarrow> at_most n t" "(advance ^^ k) (s, ts) q"
  shows "k \<le> n * length ts"
proof -
  have "list_all (at_most n) ts"
    using pool_all [OF assms(1), of "at_most n"] assms(2) at_most_step [of n] by (metis snd_conv)
  then have "list_all2 at_most (replicate (length ts) n) ts"
    by (simp add: list_all2_conv_all_nth list_all_length)
  from advances_bounded [OF _ this, of k s "fst q" "snd q"] assms(3) show ?thesis
    by (auto simp: sum_list_replicate mult.commute)
qed

section \<open>Books\<close>

text \<open>
  A thread owes a multiset of tokens. Every access keeps the invariant \<open>I\<close> and moves tokens out of or
  into the state (\<open>moved\<close>); a thread that is done owes nothing but \<open>spare\<close> tokens; it waits only when
  \<open>waits\<close> says so.
\<close>

inductive owes ::
  "('s \<Rightarrow> bool) \<Rightarrow> ('s \<Rightarrow> 'k multiset \<Rightarrow> 's \<Rightarrow> 'k multiset \<Rightarrow> bool) \<Rightarrow> 'k set \<Rightarrow>
     ('s \<Rightarrow> 'k multiset \<Rightarrow> bool) \<Rightarrow> 'k multiset \<Rightarrow> ('s, 'a) thread \<Rightarrow> bool"
  for I moved spare waits where
  owes_Done: "set_mset D \<subseteq> spare \<Longrightarrow> owes I moved spare waits D (Done a)"
| owes_Atom: "(\<And>s. I s \<Longrightarrow> f s = None \<Longrightarrow> waits s D) \<Longrightarrow>
     (\<And>s t s'. I s \<Longrightarrow> f s = Some (t, s') \<Longrightarrow>
        I s' \<and> (\<exists>D'. moved s D s' D' \<and> owes I moved spare waits D' t)) \<Longrightarrow>
     owes I moved spare waits D (Atom f)"

inductive_cases owes_DoneE: "owes I moved spare waits D (Done a)"
inductive_cases owes_AtomE: "owes I moved spare waits D (Atom f)"

text \<open>The books of a pool to which \<open>n\<close> threads have arrived: the state and all the open debts.\<close>

locale ledger =
  fixes I :: "'s \<Rightarrow> bool"
    and moved :: "'s \<Rightarrow> 'k multiset \<Rightarrow> 's \<Rightarrow> 'k multiset \<Rightarrow> bool"
    and spare :: "'k set"
    and waits :: "'s \<Rightarrow> 'k multiset \<Rightarrow> bool"
    and balanced :: "nat \<Rightarrow> 's \<Rightarrow> 'k multiset \<Rightarrow> bool"
    and new_debt :: "'k multiset"
  assumes balanced_moved: "moved s D s' D' \<Longrightarrow> balanced n s (D + E) \<Longrightarrow> balanced n s' (D' + E)"
    and balanced_arrives: "balanced n s E \<Longrightarrow> balanced (Suc n) s (new_debt + E)"
begin

definition kept :: "('s, 'a) pool \<Rightarrow> bool" where
  "kept p \<longleftrightarrow> I (fst p) \<and>
     (\<exists>Ds. list_all2 (owes I moved spare waits) Ds (snd p) \<and>
        balanced (length (snd p)) (fst p) (sum_list Ds))"

lemma kept_advance:
  assumes "advance p q" "kept p"
  shows "kept q"
  using assms(1)
proof cases
  case (advance f s t s' ts us)
  obtain as D bs where Ds: "list_all2 (owes I moved spare waits) as ts" "owes I moved spare waits D (Atom f)"
      "list_all2 (owes I moved spare waits) bs us"
    and b: "balanced (length (snd p)) s (sum_list (as @ D # bs))" and i: "I s"
    using assms(2) advance(1) by (auto simp: kept_def list_all2_append2 list_all2_Cons2)
  obtain D' where D': "I s'" "moved s D s' D'" "owes I moved spare waits D' t"
    using Ds(2) i advance(3) by (elim owes_AtomE) blast
  have "balanced (length (snd p)) s (D + sum_list (as @ bs))"
    using b by (simp add: ac_simps)
  then have "balanced (length (snd p)) s' (sum_list (as @ D' # bs))"
    using balanced_moved [OF D'(2), of _ "sum_list (as @ bs)"] by (simp add: ac_simps)
  then show ?thesis
    using Ds D' advance(1,2) unfolding kept_def
    by (intro conjI exI [of _ "as @ D' # bs"]) (auto intro: list_all2_appendI)
qed

lemma kept_pool:
  assumes "(pool_step A)\<^sup>*\<^sup>* (s0, []) p" "I s0" "balanced 0 s0 {#}"
    and "\<And>t. t \<in> A \<Longrightarrow> owes I moved spare waits new_debt t"
  shows "kept p"
  using assms(1)
proof (induction rule: rtranclp_induct)
  case base
  show ?case using assms(2,3) by (simp add: kept_def)
next
  case (step p q)
  from step(2) show ?case
  proof cases
    case (arrives t s ts)
    obtain Ds where Ds: "list_all2 (owes I moved spare waits) Ds ts" "balanced (length ts) s (sum_list Ds)" "I s"
      using step(3) arrives(1) by (auto simp: kept_def)
    have "balanced (length (ts @ [t])) s (sum_list (Ds @ [new_debt]))"
      using balanced_arrives [OF Ds(2)] by (simp add: ac_simps)
    then show ?thesis
      using Ds arrives assms(4) unfolding kept_def
      by (intro conjI exI [of _ "Ds @ [new_debt]"]) (auto intro: list_all2_appendI)
  next
    case advances
    then show ?thesis using step(3) by (rule kept_advance)
  qed
qed

text \<open>When every thread is done, only spare tokens are open.\<close>

lemma kept_finished:
  assumes "kept (s, ts)" "list_all finished ts"
  shows "\<exists>E. set_mset E \<subseteq> spare \<and> balanced (length ts) s E"
proof -
  obtain Ds where Ds: "list_all2 (owes I moved spare waits) Ds ts" "balanced (length ts) s (sum_list Ds)"
    using assms(1) by (auto simp: kept_def)
  from Ds(1) assms(2) have "set_mset (sum_list Ds) \<subseteq> spare"
    by (induction rule: list_all2_induct) (auto simp: finished_def elim!: owes_DoneE)
  then show ?thesis using Ds(2) by blast
qed

end

text \<open>Threads that only wait for a token another thread holds are never stuck together.\<close>

locale live_ledger = ledger +
  fixes key :: 'b
  assumes key_needed: "key \<notin> spare"
    and waits_for_key: "waits s D \<Longrightarrow> key \<notin># D"
    and key_held: "waits s D \<Longrightarrow> balanced n s E \<Longrightarrow> key \<in># E"
begin

lemma not_stuck:
  assumes "kept (s, ts)" "\<not> list_all finished ts"
  shows "\<exists>q. advance (s, ts) q"
proof (rule ccontr)
  assume stuck: "\<nexists>q. advance (s, ts) q"
  obtain Ds where Ds: "list_all2 (owes I moved spare waits) Ds ts" "balanced (length ts) s (sum_list Ds)" "I s"
    using assms(1) by (auto simp: kept_def)
  have w: "waits s D" if "ts = vs @ Atom f # us" "owes I moved spare waits D (Atom f)" for vs f us D
  proof -
    have "f s = None"
      using stuck advance [of f s _ _ vs us] that(1) by (metis not_None_eq prod.collapse)
    then show ?thesis using that(2) Ds(3) by (auto elim!: owes_AtomE)
  qed
  obtain t where t: "t \<in> set ts" "\<not> finished t"
    using assms(2) by (auto simp: list_all_iff)
  obtain f where "t = Atom f" using t(2) by (cases t) simp_all
  with t(1) obtain vs us where f: "ts = vs @ Atom f # us" by (metis split_list)
  then obtain D where "owes I moved spare waits D (Atom f)"
    using Ds(1) by (auto simp: list_all2_append2 list_all2_Cons2)
  then have "waits s D" by (rule w [OF f])
  then have "key \<in># sum_list Ds" using Ds(2) by (rule key_held)
  then obtain D' where "D' \<in> set Ds" "key \<in># D'"
    by (induction Ds) auto
  then obtain as bs where "Ds = as @ D' # bs" by (metis split_list)
  then obtain vs t us where t: "ts = vs @ t # us" "owes I moved spare waits D' t"
    using Ds(1) by (auto simp: list_all2_append1 list_all2_Cons1)
  show False
  proof (cases t)
    case (Done a)
    then show ?thesis using t(2) \<open>key \<in># D'\<close> key_needed by (auto elim!: owes_DoneE)
  next
    case (Atom g)
    then show ?thesis using w t waits_for_key \<open>key \<in># D'\<close> by blast
  qed
qed

end

section \<open>Who did what\<close>

text \<open>
  The runs of a pool, with all they pass through: the states from the first to the last, and the jobs
  that arrived, each with the number of the state it arrived in. The \<open>n\<close>-th job runs as the \<open>n\<close>-th
  thread.
\<close>

inductive pool_run ::
  "'s \<Rightarrow> ('m \<Rightarrow> ('s, 'a) thread) \<Rightarrow> 's list \<Rightarrow> ('m \<times> nat) list \<Rightarrow> ('s, 'a) thread list \<Rightarrow> bool"
  for s0 T where
  run_starts: "pool_run s0 T [s0] [] []"
| run_arrives: "pool_run s0 T ss ms ts \<Longrightarrow> pool_run s0 T ss (ms @ [(m, length ss - 1)]) (ts @ [T m])"
| run_advances: "pool_run s0 T ss ms ts \<Longrightarrow> advance (last ss, ts) (s', ts') \<Longrightarrow> pool_run s0 T (ss @ [s']) ms ts'"

lemma pool_run_nonempty: "pool_run s0 T ss ms ts \<Longrightarrow> ss \<noteq> []"
  by (induction rule: pool_run.induct) simp_all

text \<open>They are the runs of \<open>pool_step\<close>.\<close>

lemma pool_step_run:
  assumes "(pool_step A)\<^sup>*\<^sup>* (s0, []) p" "A \<subseteq> range T"
  shows "\<exists>ss ms. pool_run s0 T ss ms (snd p) \<and> last ss = fst p"
  using assms(1)
proof (induction rule: rtranclp_induct)
  case base
  show ?case using run_starts by fastforce
next
  case (step p q)
  then obtain ss ms where r: "pool_run s0 T ss ms (snd p)" "last ss = fst p" by blast
  from step(2) show ?case
  proof cases
    case (arrives t s ts)
    then obtain m where "t = T m" using assms(2) by blast
    then show ?thesis using run_arrives [of s0 T ss ms ts m] r arrives by auto
  next
    case advances
    then show ?thesis
      using run_advances [of s0 T ss ms "snd p" "fst q" "snd q"] r by (metis last_snoc prod.collapse)
  qed
qed

lemma pool_run_step: "pool_run s0 T ss ms ts \<Longrightarrow> (pool_step (range T))\<^sup>*\<^sup>* (s0, []) (last ss, ts)"
proof (induction rule: pool_run.induct)
  case (run_arrives ss ms ts m)
  then show ?case by (meson arrives rangeI rtranclp.rtrancl_into_rtrancl)
next
  case (run_advances ss ms ts s' ts')
  then show ?case by (metis advances last_snoc rtranclp.rtrancl_into_rtrancl)
qed simp

lemma advances_run:
  "advance\<^sup>*\<^sup>* p q \<Longrightarrow> pool_run s0 T ss ms (snd p) \<Longrightarrow> last ss = fst p \<Longrightarrow>
     \<exists>ss'. pool_run s0 T ss' ms (snd q) \<and> last ss' = fst q"
proof (induction rule: rtranclp_induct)
  case (step q r)
  then show ?case using run_advances by (metis last_snoc prod.collapse)
qed blast

lemma run_arrives_alone:
  assumes "run_alone (T m) s0 = Some (a, s')"
  shows "\<exists>ss. pool_run s0 T ss [(m, 0)] [Done a] \<and> last ss = s'"
  using advances_run [OF advance_alone [OF assms, of "[]" "[]"], where ss = "[s0]" and T = T and ms = "[(m, 0)]"]
    run_arrives [OF run_starts [of s0 T], of m]
  by fastforce

text \<open>
  Threads that append to a record of calls. A thread is lawful when it makes at most one call, and only
  one that the states it has accessed so far (\<open>K\<close>) entitle it to; \<open>due\<close> says that the call is still open.
\<close>

inductive lawful ::
  "('s \<Rightarrow> bool) \<Rightarrow> ('s \<Rightarrow> 'c list) \<Rightarrow> ('s set \<Rightarrow> 'c \<Rightarrow> bool) \<Rightarrow> bool \<Rightarrow> 's set \<Rightarrow> ('s, 'a) thread \<Rightarrow> bool"
  for I calls P where
  lawful_Done: "lawful I calls P due K (Done a)"
| lawful_Atom: "(\<And>s t s'. I s \<Longrightarrow> f s = Some (t, s') \<Longrightarrow>
       I s' \<and> (calls s' = calls s \<and> lawful I calls P due (insert s K) t \<or>
               due \<and> (\<exists>c. calls s' = calls s @ [c] \<and> P (insert s K) c) \<and> lawful I calls P False (insert s K) t)) \<Longrightarrow>
     lawful I calls P due K (Atom f)"

inductive_cases lawful_AtomE: "lawful I calls P due K (Atom f)"

lemma lawful_bind:
  assumes "lawful I calls P due K t" "\<And>due K a. lawful I calls P due K (k a)"
  shows "lawful I calls P due K (bind_thread t k)"
  using assms(1)
proof (induction rule: lawful.induct)
  case (lawful_Atom f due K)
  show ?case
    unfolding bind_thread.simps
  proof (rule lawful.lawful_Atom)
    fix s u s'
    assume "I s" "map_option (map_prod (\<lambda>t. bind_thread t k) id) (f s) = Some (u, s')"
    then obtain t where "f s = Some (t, s')" "u = bind_thread t k" by auto
    then show "I s' \<and> (calls s' = calls s \<and> lawful I calls P due (insert s K) u \<or>
        due \<and> (\<exists>c. calls s' = calls s @ [c] \<and> P (insert s K) c) \<and> lawful I calls P False (insert s K) u)"
      using lawful_Atom \<open>I s\<close> by blast
  qed
qed (simp add: assms(2))

text \<open>In every run of lawful threads each call on record belongs to one job of its own, which the
  states it passed between its arrival and the call entitle to it.\<close>

locale lawful_jobs =
  fixes I :: "'s \<Rightarrow> bool"
    and calls :: "'s \<Rightarrow> 'c list"
    and P :: "'m \<Rightarrow> 's set \<Rightarrow> 'c \<Rightarrow> bool"
    and T :: "'m \<Rightarrow> ('s, 'a) thread"
  assumes P_mono: "P m K c \<Longrightarrow> K \<subseteq> K' \<Longrightarrow> P m K' c"
    and T_lawful: "lawful I calls (P m) True {} (T m)"
begin

text \<open>The states after the \<open>k\<close>-th with at most \<open>j\<close> calls.\<close>

definition passed :: "'s list \<Rightarrow> nat \<Rightarrow> nat \<Rightarrow> 's set" where
  "passed ss k j = {s \<in> set (drop k ss). length (calls s) \<le> j}"

definition owned :: "'s list \<Rightarrow> ('m \<times> nat) list \<Rightarrow> nat list \<Rightarrow> bool" where
  "owned ss ms owner \<longleftrightarrow> distinct owner \<and> length owner = length (calls (last ss)) \<and>
     (\<forall>j < length owner. owner ! j < length ms \<and>
        P (fst (ms ! (owner ! j))) (passed ss (snd (ms ! (owner ! j))) j) (calls (last ss) ! j))"

definition under_way :: "'s list \<Rightarrow> ('m \<times> nat) list \<Rightarrow> ('s, 'a) thread list \<Rightarrow> nat list \<Rightarrow> bool" where
  "under_way ss ms ts owner \<longleftrightarrow> length ts = length ms \<and>
     (\<forall>n < length ms. snd (ms ! n) < length ss \<and>
        (\<exists>K. K \<subseteq> set (drop (snd (ms ! n)) ss) \<and> lawful I calls (P (fst (ms ! n))) (n \<notin> set owner) K (ts ! n)))"

definition in_order :: "'s list \<Rightarrow> bool" where
  "in_order ss \<longleftrightarrow> ss \<noteq> [] \<and> I (last ss) \<and> (\<forall>s \<in> set ss. length (calls s) \<le> length (calls (last ss)))"

lemma passed_snoc: "passed ss k j \<subseteq> passed (ss @ [s']) k j"
  by (auto simp: passed_def)

lemma owned_quiet:
  assumes "owned ss ms owner" "calls s' = calls (last ss)"
  shows "owned (ss @ [s']) ms owner"
  using assms P_mono [OF _ passed_snoc] by (simp add: owned_def)

lemma ownedD:
  assumes "owned ss ms owner"
  shows "distinct owner" "length owner = length (calls (last ss))"
    and "j < length owner \<Longrightarrow> owner ! j < length ms"
    and "j < length owner \<Longrightarrow>
      P (fst (ms ! (owner ! j))) (passed (ss @ [s']) (snd (ms ! (owner ! j))) j) (calls (last ss) ! j)"
  using assms P_mono [OF _ passed_snoc] unfolding owned_def by blast+

lemma passed_all:
  assumes "in_order ss" "K \<subseteq> set (drop k ss)"
  shows "K \<subseteq> passed (ss @ [s']) k (length (calls (last ss)))"
proof
  fix s assume s: "s \<in> K"
  then have "s \<in> set ss" using assms(2) by (meson in_set_dropD subsetD)
  then have "length (calls s) \<le> length (calls (last ss))" using assms(1) unfolding in_order_def by blast
  then show "s \<in> passed (ss @ [s']) k (length (calls (last ss)))"
    using s assms(2) by (auto simp: passed_def)
qed

lemma owned_call:
  assumes "owned ss ms owner" "in_order ss" "n < length ms" "n \<notin> set owner" "calls s' = calls (last ss) @ [c]"
    and "P (fst (ms ! n)) K c" "K \<subseteq> set (drop (snd (ms ! n)) ss)"
  shows "owned (ss @ [s']) ms (owner @ [n])"
  unfolding owned_def
proof (intro conjI allI impI)
  note o = ownedD [OF assms(1)]
  show "distinct (owner @ [n])" using o(1) assms(4) by simp
  show "length (owner @ [n]) = length (calls (last (ss @ [s'])))" using o(2) assms(5) by simp
  fix j assume "j < length (owner @ [n])"
  then consider "j < length owner" | "j = length owner" by fastforce
  note cases = this
  show "(owner @ [n]) ! j < length ms" using cases by cases (simp_all add: nth_append o(3) assms(3))
  show "P (fst (ms ! ((owner @ [n]) ! j))) (passed (ss @ [s']) (snd (ms ! ((owner @ [n]) ! j))) j)
      (calls (last (ss @ [s'])) ! j)"
    using cases
  proof cases
    case 1
    then have "(owner @ [n]) ! j = owner ! j" "calls (last (ss @ [s'])) ! j = calls (last ss) ! j"
      using o(2) by (simp_all add: nth_append assms(5))
    then show ?thesis using o(4) [OF 1] by (simp only:)
  next
    case 2
    then have "(owner @ [n]) ! j = n" "calls (last (ss @ [s'])) ! j = c" "j = length (calls (last ss))"
      using o(2) by (simp_all add: assms(5) nth_append)
    then show ?thesis using P_mono [OF assms(6) passed_all [OF assms(2,7)]] by (simp only:)
  qed
qed

lemma under_way_advances:
  assumes "under_way ss ms (ts @ Atom f # us) owner"
    and "K' \<subseteq> set (drop (snd (ms ! length ts)) ss)"
    and "lawful I calls (P (fst (ms ! length ts))) (length ts \<notin> set owner') K' t"
    and "\<forall>n. n \<noteq> length ts \<longrightarrow> (n \<in> set owner' \<longleftrightarrow> n \<in> set owner)"
  shows "under_way (ss @ [s']) ms (ts @ t # us) owner'"
proof -
  have "\<exists>K. K \<subseteq> set (drop (snd (ms ! n)) (ss @ [s'])) \<and>
      lawful I calls (P (fst (ms ! n))) (n \<notin> set owner') K ((ts @ t # us) ! n)" if n: "n < length ms" for n
  proof -
    obtain K where K: "K \<subseteq> set (drop (snd (ms ! n)) ss)"
        "lawful I calls (P (fst (ms ! n))) (n \<notin> set owner) K ((ts @ Atom f # us) ! n)"
      using assms(1) n by (auto simp: under_way_def)
    have "\<exists>K'. K' \<subseteq> set (drop (snd (ms ! n)) ss) \<and>
        lawful I calls (P (fst (ms ! n))) (n \<notin> set owner') K' ((ts @ t # us) ! n)"
    proof (cases "n = length ts")
      case True
      then show ?thesis using assms(2,3) by auto
    next
      case False
      then have "(ts @ t # us) ! n = (ts @ Atom f # us) ! n" by (simp add: nth_append nth_Cons')
      then show ?thesis using K assms(4) False by (intro exI [of _ K]) simp
    qed
    then show ?thesis by (metis drop_append le_supI1 set_append)
  qed
  moreover have "length (ts @ t # us) = length ms" "\<forall>n < length ms. snd (ms ! n) < length ss"
    using assms(1) by (simp_all add: under_way_def)
  ultimately show ?thesis unfolding under_way_def by (simp add: less_SucI)
qed

lemma run_lawful:
  assumes "pool_run s0 T ss ms ts" "I s0" "calls s0 = []"
  shows "in_order ss \<and> (\<exists>owner. owned ss ms owner \<and> under_way ss ms ts owner)"
  using assms(1)
proof (induction rule: pool_run.induct)
  case run_starts
  show ?case using assms(2,3) by (auto simp: in_order_def owned_def under_way_def)
next
  case (run_arrives ss ms ts m)
  then obtain owner where o: "in_order ss" "owned ss ms owner" "under_way ss ms ts owner" by blast
  then have "length ms \<notin> set owner" "length ss - 1 < length ss"
    by (auto simp: owned_def in_order_def in_set_conv_nth)
  then have "under_way ss (ms @ [(m, length ss - 1)]) (ts @ [T m]) owner"
    using o(3) T_lawful [of m] by (auto simp: under_way_def nth_append less_Suc_eq)
  moreover have "owned ss (ms @ [(m, length ss - 1)]) owner"
    using o(2) by (auto simp: owned_def nth_append)
  ultimately show ?case using o(1) by blast
next
  case (run_advances ss ms ts s' ts')
  then obtain owner where o: "in_order ss" "owned ss ms owner" "under_way ss ms ts owner" by blast
  from run_advances(2) obtain f t vs us where f: "ts = vs @ Atom f # us" "ts' = vs @ t # us" "f (last ss) = Some (t, s')"
    by (auto elim!: advanceE)
  let ?n = "length vs"
  have n: "?n < length ms" using o(3) f(1) by (simp add: under_way_def)
  then have "snd (ms ! ?n) < length ss" using o(3) by (simp add: under_way_def)
  then have l: "last ss \<in> set (drop (snd (ms ! ?n)) ss)"
    by (metis drop_eq_Nil2 last_drop last_in_set not_le)
  obtain K where K: "K \<subseteq> set (drop (snd (ms ! ?n)) ss)" "lawful I calls (P (fst (ms ! ?n))) (?n \<notin> set owner) K (Atom f)"
    using o(3) n f(1) unfolding under_way_def by (metis nth_append_length)
  have K': "insert (last ss) K \<subseteq> set (drop (snd (ms ! ?n)) ss)" using K(1) l by simp
  have I: "I (last ss)" using o(1) by (simp add: in_order_def)
  from lawful_AtomE [OF K(2)] f(3) I consider
      (quiet) "I s'" "calls s' = calls (last ss)" "lawful I calls (P (fst (ms ! ?n))) (?n \<notin> set owner) (insert (last ss) K) t"
    | (call) c where "I s'" "?n \<notin> set owner" "calls s' = calls (last ss) @ [c]" "P (fst (ms ! ?n)) (insert (last ss) K) c"
        "lawful I calls (P (fst (ms ! ?n))) False (insert (last ss) K) t"
    by metis
  then show ?case
  proof cases
    case quiet
    have "under_way (ss @ [s']) ms ts' owner"
      unfolding f(2) by (rule under_way_advances [OF o(3) [unfolded f(1)] K' quiet(3)]) simp
    moreover have "in_order (ss @ [s'])" using o(1) quiet(1,2) by (simp add: in_order_def)
    ultimately show ?thesis using owned_quiet [OF o(2) quiet(2)] by blast
  next
    case call
    have "under_way (ss @ [s']) ms ts' (owner @ [?n])"
      unfolding f(2) by (rule under_way_advances [OF o(3) [unfolded f(1)] K']) (use call(5) in simp_all)
    moreover have "in_order (ss @ [s'])" using o(1) call(1,3) by (auto simp: in_order_def le_SucI)
    ultimately show ?thesis using owned_call [OF o(2,1) n call(2-4) K'] by blast
  qed
qed

lemma every_call_owned:
  assumes "pool_run s0 T ss ms ts" "I s0" "calls s0 = []"
  shows "\<exists>owner. distinct owner \<and> length owner = length (calls (last ss)) \<and>
     (\<forall>j < length owner. owner ! j < length ms \<and>
        P (fst (ms ! (owner ! j))) {s \<in> set (drop (snd (ms ! (owner ! j))) ss). length (calls s) \<le> j}
          (calls (last ss) ! j))"
  using run_lawful [OF assms] by (auto simp: owned_def passed_def)

end

end
