(* ===== verification/Rust_Str.thy ===== *)
theory Rust_Str
  imports Prelude
begin

text \<open>
  The methods of \<open>str\<close> the gateway calls, on UTF-8 byte strings: searching and splitting at an
  ASCII character, \<open>trim\<close> (which removes every Unicode \<open>White_Space\<close> character, so multi-byte
  sequences too), \<open>trim_matches\<close>, \<open>join\<close>, \<open>chars().take(n)\<close>, and decimal numbers.
\<close>

section \<open>Searching and splitting\<close>

abbreviation starts_with :: "string \<Rightarrow> string \<Rightarrow> bool" where
  "starts_with s p \<equiv> prefix p s"

abbreviation ends_with :: "string \<Rightarrow> string \<Rightarrow> bool" where
  "ends_with s p \<equiv> suffix p s"

fun str_contains :: "string \<Rightarrow> string \<Rightarrow> bool" where
  "str_contains [] p = (p = [])"
| "str_contains (c # s) p = (prefix p (c # s) \<or> str_contains s p)"

lemma str_contains_iff: "str_contains s p \<longleftrightarrow> sublist p s"
  by (induction s) (auto simp: sublist_Cons_right)

lemma str_contains_append:
  "str_contains s p \<Longrightarrow> str_contains (s @ t) p" "str_contains t p \<Longrightarrow> str_contains (s @ t) p"
  by (auto simp: str_contains_iff sublist_appendI intro: sublist_order.order_trans)

text \<open>\<open>contains(c)\<close> of one ASCII character.\<close>

definition has_char :: "string \<Rightarrow> char \<Rightarrow> bool" where
  "has_char s c = (c \<in> set s)"

text \<open>\<open>s.splitn(2, c)\<close>: one part where \<open>c\<close> does not occur, otherwise the text before and after
  its first occurrence.\<close>

definition splitn2 :: "char \<Rightarrow> string \<Rightarrow> string list" where
  "splitn2 c s =
     (case dropWhile (\<lambda>x. x \<noteq> c) s of
        [] \<Rightarrow> [s]
      | _ # rest \<Rightarrow> [takeWhile (\<lambda>x. x \<noteq> c) s, rest])"

lemma splitn2_absent: "c \<notin> set s \<Longrightarrow> splitn2 c s = [s]"
proof -
  assume "c \<notin> set s"
  then have "dropWhile (\<lambda>x. x \<noteq> c) s = []" by (auto simp only: dropWhile_eq_Nil_conv)
  then show ?thesis by (simp only: splitn2_def list.case)
qed

lemma splitn2_Cons: "c \<notin> set a \<Longrightarrow> splitn2 c (a @ c # b) = [a, b]"
  by (auto simp: splitn2_def dropWhile_append takeWhile_append takeWhile_eq_all_conv
        dropWhile_eq_Nil_conv split: list.splits)

lemma splitn2_cases:
  obtains "c \<notin> set s" "splitn2 c s = [s]"
  | a b where "s = a @ c # b" "c \<notin> set a" "splitn2 c s = [a, b]"
proof (cases "c \<in> set s")
  case True
  then obtain a b where "s = a @ c # b" "c \<notin> set a"
    by (meson split_list_first)
  then show thesis using that(2) splitn2_Cons by metis
qed (use that(1) splitn2_absent in blast)

lemma splitn2_pair:
  "splitn2 c s = [a, b] \<longleftrightarrow> s = a @ c # b \<and> c \<notin> set a"
proof
  assume "splitn2 c s = [a, b]"
  then show "s = a @ c # b \<and> c \<notin> set a"
    by (cases rule: splitn2_cases [of c s]) auto
qed (simp add: splitn2_Cons)

text \<open>\<open>s.split(c)\<close> and \<open>parts.join(sep)\<close>.\<close>

fun split_on :: "char \<Rightarrow> string \<Rightarrow> string list" where
  "split_on c [] = [[]]"
| "split_on c (x # xs) =
     (if x = c then [] # split_on c xs
      else (case split_on c xs of [] \<Rightarrow> [[x]] | p # ps \<Rightarrow> (x # p) # ps))"

fun join :: "string \<Rightarrow> string list \<Rightarrow> string" where
  "join sep [] = []"
| "join sep [s] = s"
| "join sep (s # t # ts) = s @ sep @ join sep (t # ts)"

lemma join_Cons: "join sep (s # ts) = (if ts = [] then s else s @ sep @ join sep ts)"
  by (cases ts) simp_all

lemma join_append:
  "join sep (xs @ ys) =
     (if xs = [] then join sep ys else if ys = [] then join sep xs
      else join sep xs @ sep @ join sep ys)"
  by (induction xs) (simp_all add: join_Cons)

lemma split_on_ne [simp]: "split_on c s \<noteq> []"
  by (induction s) (auto split: list.splits)

lemma join_split_on: "join [c] (split_on c s) = s"
proof (induction s)
  case (Cons x xs)
  obtain p ps where ps: "split_on c xs = p # ps"
    by (cases "split_on c xs") auto
  with Cons show ?case by (cases ps) auto
qed simp

text \<open>\<open>format!\<close>: the literal pieces and the arguments, in order. Kept folded in proofs.\<close>

definition fmt :: "string list \<Rightarrow> string" where
  "fmt ps = concat ps"

lemma fmt_contains: "p \<in> set ps \<Longrightarrow> str_contains p q \<Longrightarrow> str_contains (fmt ps) q"
  by (induction ps) (auto simp: fmt_def str_contains_append)

lemma set_fmt: "set (fmt ps) = (\<Union>p \<in> set ps. set p)"
  by (simp add: fmt_def)

section \<open>White space\<close>

text \<open>The characters with the Unicode property \<open>White_Space\<close>, in UTF-8.\<close>

definition ws_chars :: "string list" where
  "ws_chars =
     [[CHR 0x09], [CHR 0x0A], [CHR 0x0B], [CHR 0x0C], [CHR 0x0D], [CHR 0x20],
      [CHR 0xC2, CHR 0x85], [CHR 0xC2, CHR 0xA0], [CHR 0xE1, CHR 0x9A, CHR 0x80],
      [CHR 0xE2, CHR 0x80, CHR 0x80], [CHR 0xE2, CHR 0x80, CHR 0x81],
      [CHR 0xE2, CHR 0x80, CHR 0x82], [CHR 0xE2, CHR 0x80, CHR 0x83],
      [CHR 0xE2, CHR 0x80, CHR 0x84], [CHR 0xE2, CHR 0x80, CHR 0x85],
      [CHR 0xE2, CHR 0x80, CHR 0x86], [CHR 0xE2, CHR 0x80, CHR 0x87],
      [CHR 0xE2, CHR 0x80, CHR 0x88], [CHR 0xE2, CHR 0x80, CHR 0x89],
      [CHR 0xE2, CHR 0x80, CHR 0x8A], [CHR 0xE2, CHR 0x80, CHR 0xA8],
      [CHR 0xE2, CHR 0x80, CHR 0xA9], [CHR 0xE2, CHR 0x80, CHR 0xAF],
      [CHR 0xE2, CHR 0x81, CHR 0x9F], [CHR 0xE3, CHR 0x80, CHR 0x80]]"

lemma ws_chars_ne: "w \<in> set ws_chars \<Longrightarrow> w \<noteq> []"
  by (auto simp: ws_chars_def)

function trim_start :: "string \<Rightarrow> string" where
  "trim_start s =
     (case find (\<lambda>w. prefix w s) ws_chars of
        None \<Rightarrow> s
      | Some w \<Rightarrow> trim_start (drop (length w) s))"
  by pat_completeness auto
termination
proof (relation "measure length")
  fix s w
  assume "find (\<lambda>w. prefix w s) ws_chars = Some w"
  then have "prefix w s" "w \<noteq> []"
    using ws_chars_ne by (auto simp: find_Some_iff)
  then show "(drop (length w) s, s) \<in> measure length"
    by (cases s) (auto simp: prefix_def)
qed simp

function trim_end :: "string \<Rightarrow> string" where
  "trim_end s =
     (case find (\<lambda>w. suffix w s) ws_chars of
        None \<Rightarrow> s
      | Some w \<Rightarrow> trim_end (take (length s - length w) s))"
  by pat_completeness auto
termination
proof (relation "measure length")
  fix s w
  assume "find (\<lambda>w. suffix w s) ws_chars = Some w"
  then have "suffix w s" "w \<noteq> []"
    using ws_chars_ne by (auto simp: find_Some_iff)
  then show "(take (length s - length w) s, s) \<in> measure length"
    by (auto simp: suffix_def)
qed simp

declare trim_start.simps [simp del] trim_end.simps [simp del]

definition trim :: "string \<Rightarrow> string" where
  "trim s = trim_end (trim_start s)"

lemma trim_start_suffix: "suffix (trim_start s) s"
proof (induction s rule: trim_start.induct)
  case (1 s)
  then show ?case
    by (subst trim_start.simps)
      (auto split: option.splits intro: suffix_drop suffix_order.order_trans)
qed

lemma trim_end_prefix: "prefix (trim_end s) s"
proof (induction s rule: trim_end.induct)
  case (1 s)
  then show ?case
    by (subst trim_end.simps)
      (auto split: option.splits intro: take_is_prefix prefix_order.order_trans)
qed

lemma trim_start_no_ws: "w \<in> set ws_chars \<Longrightarrow> \<not> prefix w (trim_start s)"
proof (induction s rule: trim_start.induct)
  case (1 s)
  then show ?case
    by (subst trim_start.simps) (auto split: option.splits simp: find_None_iff)
qed

lemma trim_end_no_ws: "w \<in> set ws_chars \<Longrightarrow> \<not> suffix w (trim_end s)"
proof (induction s rule: trim_end.induct)
  case (1 s)
  then show ?case
    by (subst trim_end.simps) (auto split: option.splits simp: find_None_iff)
qed

definition trimmed :: "string \<Rightarrow> bool" where
  "trimmed s = (\<forall>w \<in> set ws_chars. \<not> prefix w s \<and> \<not> suffix w s)"

lemma trim_trimmed_id: "trimmed s \<Longrightarrow> trim s = s"
  unfolding trim_def trimmed_def
  by (subst trim_start.simps, subst trim_end.simps)
    (auto simp: find_None_iff [THEN iffD2] split: option.splits)

lemma trimmed_trim: "trimmed (trim s)"
  unfolding trimmed_def trim_def
  using trim_start_no_ws trim_end_no_ws trim_end_prefix prefix_order.order_trans by blast

lemma trim_trim [simp]: "trim (trim s) = trim s"
  by (simp add: trim_trimmed_id trimmed_trim)

lemma set_trim: "set (trim s) \<subseteq> set s"
  unfolding trim_def
  by (meson order_trans set_mono_prefix set_mono_suffix trim_end_prefix trim_start_suffix)

lemma length_trim: "length (trim s) \<le> length s"
  unfolding trim_def
  by (meson order_trans prefix_length_le suffix_length_le trim_end_prefix trim_start_suffix)

lemma trim_Nil [simp]: "trim [] = []"
  using length_trim [of "[]"] by simp

text \<open>\<open>trim_matches\<close> with the closure that accepts the two quote characters.\<close>

definition is_quote :: "char \<Rightarrow> bool" where
  "is_quote c = (c = CHR 0x27 \<or> c = CHR 0x22)"

definition trim_quotes :: "string \<Rightarrow> string" where
  "trim_quotes s = rev (dropWhile is_quote (rev (dropWhile is_quote s)))"

text \<open>\<open>s.chars().take(n).collect()\<close>: a character starts at every byte that is not a UTF-8
  continuation byte (\<open>0x80\<close> to \<open>0xBF\<close>).\<close>

definition utf8_cont :: "char \<Rightarrow> bool" where
  "utf8_cont c = (of_char c \<in> {0x80..(0xBF::nat)})"

fun take_chars :: "nat \<Rightarrow> string \<Rightarrow> string" where
  "take_chars n [] = []"
| "take_chars n (c # s) =
     (if utf8_cont c then c # take_chars n s
      else (case n of 0 \<Rightarrow> [] | Suc m \<Rightarrow> c # take_chars m s))"

section \<open>Decimal numbers\<close>

definition digit :: "nat \<Rightarrow> char" where
  "digit n = char_of (48 + n)"

fun show_nat :: "nat \<Rightarrow> string" where
  "show_nat n = (if n < 10 then [digit n] else show_nat (n div 10) @ [digit (n mod 10)])"

declare show_nat.simps [simp del]

definition show_int :: "int \<Rightarrow> string" where
  "show_int i = (if i < 0 then ''-'' @ show_nat (nat (- i)) else show_nat (nat i))"

definition is_digit :: "char \<Rightarrow> bool" where
  "is_digit c = (of_char c \<in> {48..(57::nat)})"

definition is_lower :: "char \<Rightarrow> bool" where
  "is_lower c = (of_char c \<in> {97..(122::nat)})"

definition digits_value :: "string \<Rightarrow> nat" where
  "digits_value s = foldl (\<lambda>acc c. 10 * acc + (of_char c - 48)) 0 s"

text \<open>\<open>s.parse::<usize>()\<close> on a 64-bit target: an optional \<open>+\<close>, then at least one digit and
  nothing else, and the value must fit.\<close>

definition parse_usize :: "string \<Rightarrow> nat option" where
  "parse_usize s =
     (let d = (case s of c # r \<Rightarrow> if c = CHR ''+'' then r else s | [] \<Rightarrow> [])
      in if d \<noteq> [] \<and> list_all is_digit d \<and> digits_value d < 2 ^ 64
         then Some (digits_value d) else None)"

definition quoted :: "string \<Rightarrow> string" where
  "quoted s = fmt [[CHR 0x27], s, [CHR 0x27]]"

definition dquoted :: "string \<Rightarrow> string" where
  "dquoted s = fmt [[CHR 0x22], s, [CHR 0x22]]"

lemma of_char_digit: "n < 10 \<Longrightarrow> (of_char (digit n) :: nat) = 48 + n"
  by (simp add: digit_def)

lemma is_digit_digit: "n < 10 \<Longrightarrow> is_digit (digit n)"
  by (simp add: is_digit_def of_char_digit)

lemma digits_value_snoc: "digits_value (s @ [c]) = 10 * digits_value s + (of_char c - 48)"
  by (simp add: digits_value_def)

lemma show_nat_digits: "list_all is_digit (show_nat n) \<and> show_nat n \<noteq> [] \<and> digits_value (show_nat n) = n"
proof (induction n rule: show_nat.induct)
  case (1 n)
  show ?case
  proof (cases "n < 10")
    case True
    then show ?thesis
      by (subst (1 2 3) show_nat.simps)
        (simp add: is_digit_digit of_char_digit digits_value_def)
  next
    case False
    with 1 show ?thesis
      by (subst (1 2 3) show_nat.simps)
        (simp add: is_digit_digit of_char_digit digits_value_snoc)
  qed
qed

text \<open>Printing and reading back a \<open>usize\<close>.\<close>

lemma parse_show_usize: "n < 2 ^ 64 \<Longrightarrow> parse_usize (show_nat n) = Some n"
  using show_nat_digits [of n]
  by (cases "show_nat n") (auto simp: parse_usize_def Let_def is_digit_def)

end
