(* ===== verification/Json.thy ===== *)
theory Json
  imports Rust_Str
begin

text \<open>
  The JSON values the program works on (\<open>serde_json::Value\<close>): numbers as serde\_json stores them
  (an unsigned or a negative 64-bit integer, or a float, kept as its bit pattern), objects in
  insertion order. Reading and writing JSON text is the crate's business and stays a parameter
  (\<open>json_codec\<close>); what the program does with a parsed value is defined here. The last section
  is the meaning of \<open>#[derive(Deserialize)]\<close> on a struct: from an object by field name, from an
  array by position.
\<close>

section \<open>Values\<close>

type_synonym i64 = "64 word"
type_synonym u64 = "64 word"

datatype number = PosInt u64 | NegInt i64 | Float "64 word"

datatype json =
    JNull
  | JBool bool
  | JNum number
  | JStr string
  | JArr "json list"
  | JObj "(string \<times> json) list"

fun jget :: "json \<Rightarrow> string \<Rightarrow> json option" where
  "jget (JObj m) k = map_of m k"
| "jget _ k = None"

fun as_str :: "json \<Rightarrow> string option" where
  "as_str (JStr s) = Some s"
| "as_str _ = None"

fun as_array :: "json \<Rightarrow> json list option" where
  "as_array (JArr xs) = Some xs"
| "as_array _ = None"

fun is_object :: "json \<Rightarrow> bool" where
  "is_object (JObj _) = True"
| "is_object _ = False"

fun as_i64 :: "json \<Rightarrow> i64 option" where
  "as_i64 (JNum (PosInt w)) = (if 0 \<le> sint w then Some w else None)"
| "as_i64 (JNum (NegInt w)) = Some w"
| "as_i64 _ = None"

fun as_u64 :: "json \<Rightarrow> u64 option" where
  "as_u64 (JNum (PosInt w)) = Some w"
| "as_u64 _ = None"

definition of_i64 :: "i64 \<Rightarrow> json" where
  "of_i64 w = JNum (if 0 \<le> sint w then PosInt w else NegInt w)"

text \<open>\<open>obj[k] = v\<close> on an object: an existing key keeps its place, a new one goes last.\<close>

fun jset :: "string \<Rightarrow> json \<Rightarrow> json \<Rightarrow> json" where
  "jset k v (JObj m) = JObj (AList.update k v m)"
| "jset k v j = j"

text \<open>\<open>if let Some(f) = v.get_mut(k) { *f = x }\<close>.\<close>

definition jreplace :: "string \<Rightarrow> json \<Rightarrow> json \<Rightarrow> json" where
  "jreplace k x v = (if jget v k = None then v else jset k x v)"

lemma as_i64_of_i64 [simp]: "as_i64 (of_i64 w) = Some w"
  by (simp add: of_i64_def)

lemma jget_jset: "is_object j \<Longrightarrow> jget (jset k v j) k' = (if k' = k then Some v else jget j k')"
  by (cases j) (auto simp: update_conv')

lemma jget_Some_object: "jget v k = Some x \<Longrightarrow> is_object v"
  by (cases v) auto

lemma jget_jreplace:
  "jget (jreplace k x v) k' = (if k' = k \<and> jget v k \<noteq> None then Some x else jget v k')"
  using jget_Some_object [of v k] by (auto simp: jreplace_def jget_jset)

lemma as_str_Some [simp]: "as_str v = Some s \<longleftrightarrow> v = JStr s"
  by (cases v) auto

lemma as_array_Some [simp]: "as_array v = Some xs \<longleftrightarrow> v = JArr xs"
  by (cases v) auto

text \<open>
  The text codec of serde\_json: \<open>to_text\<close> is \<open>serde_json::to_string\<close> (and \<open>Value::to_string\<close>),
  \<open>from_text\<close> is \<open>serde_json::from_str::<Value>\<close> with the error's text.
\<close>

record json_codec =
  to_text :: "json \<Rightarrow> string"
  from_text :: "string \<Rightarrow> (json, string) result"

text \<open>
  What a \<open>Value\<close> can be in the program: a map has each key once, and only a negative number is
  stored as \<open>NegInt\<close>. The two documented facts about the codec are stated for such values, as
  named hypotheses where a property needs them: printing is injective, and what has no float is
  read back as it was (exact floats would need the crate's feature \<open>float_roundtrip\<close>).
\<close>

fun number_ok :: "number \<Rightarrow> bool" where
  "number_ok (NegInt w) = (sint w < 0)"
| "number_ok _ = True"

fun json_value :: "json \<Rightarrow> bool" where
  "json_value (JNum n) = number_ok n"
| "json_value (JArr xs) = (\<forall>x \<in> set xs. json_value x)"
| "json_value (JObj m) = (distinct (map fst m) \<and> (\<forall>kv \<in> set m. json_value (snd kv)))"
| "json_value _ = True"

fun float_free :: "json \<Rightarrow> bool" where
  "float_free (JNum (Float w)) = False"
| "float_free (JArr xs) = (\<forall>x \<in> set xs. float_free x)"
| "float_free (JObj m) = (\<forall>kv \<in> set m. float_free (snd kv))"
| "float_free _ = True"

definition codec_ok :: "json_codec \<Rightarrow> bool" where
  "codec_ok c = (\<forall>v. json_value v \<and> float_free v \<longrightarrow> from_text c (to_text c v) = Ok v)"

definition codec_injective :: "json_codec \<Rightarrow> bool" where
  "codec_injective c = (\<forall>v v'. json_value v \<and> json_value v' \<and> to_text c v = to_text c v' \<longrightarrow> v = v')"

lemma codec_ok_text:
  "codec_ok c \<Longrightarrow> json_value v \<Longrightarrow> float_free v \<Longrightarrow> from_text c (to_text c v) = Ok v"
  by (simp add: codec_ok_def)

section \<open>Derived deserialisation\<close>

text \<open>
  A struct field is named by its JSON key and by whether it carries \<open>#[serde(default)]\<close>. The
  result lists, per field, the value found; a decoder per field then decides about absent ones.
  An array gives the fields by position: a missing element is an error without a default, and a
  surplus one always is.
\<close>

type_synonym struct_shape = "(string \<times> bool) list"

fun struct_seq :: "struct_shape \<Rightarrow> 'a list \<Rightarrow> 'a option list option" where
  "struct_seq [] [] = Some []"
| "struct_seq [] (_ # _) = None"
| "struct_seq (_ # fs) (x # xs) = map_option (\<lambda>r. Some x # r) (struct_seq fs xs)"
| "struct_seq ((_, dflt) # fs) [] =
     (if dflt then map_option (\<lambda>r. None # r) (struct_seq fs []) else None)"

definition struct_fields :: "struct_shape \<Rightarrow> json \<Rightarrow> json option list option" where
  "struct_fields fs v =
     (case v of
        JObj m \<Rightarrow> Some (map (\<lambda>(k, _). map_of m k) fs)
      | JArr xs \<Rightarrow> struct_seq fs xs
      | _ \<Rightarrow> None)"

text \<open>Decoders of one field: a required one, an \<open>Option\<close> (absent and \<open>null\<close> are \<open>None\<close>).\<close>

definition de_required :: "(json \<Rightarrow> 'a option) \<Rightarrow> json option \<Rightarrow> 'a option" where
  "de_required d x = (case x of None \<Rightarrow> None | Some v \<Rightarrow> d v)"

definition de_option :: "(json \<Rightarrow> 'a option) \<Rightarrow> json option \<Rightarrow> 'a option option" where
  "de_option d x =
     (case x of
        None \<Rightarrow> Some None
      | Some JNull \<Rightarrow> Some None
      | Some v \<Rightarrow> map_option Some (d v))"

fun de_bool :: "json \<Rightarrow> bool option" where
  "de_bool (JBool b) = Some b"
| "de_bool _ = None"

text \<open>The types the program deserialises with \<open>serde_json::from_value\<close>; \<open>serde_msg\<close> is the
  text of serde's error for a value of the wrong shape.\<close>

datatype serde_target = T_RequestId | T_JsonRpcErrorObj | T_InitializeParams

type_synonym serde_msg = "serde_target \<Rightarrow> json \<Rightarrow> string"

lemma struct_seq_length: "struct_seq fs xs = Some ys \<Longrightarrow> length ys = length fs"
  by (induction fs xs arbitrary: ys rule: struct_seq.induct) (auto split: if_splits)

lemma struct_fields_length: "struct_fields fs v = Some ys \<Longrightarrow> length ys = length fs"
  by (auto simp: struct_fields_def struct_seq_length split: json.splits)

lemma de_option_simps [simp]:
  "de_option d None = Some None" "de_option d (Some JNull) = Some None"
  "v \<noteq> JNull \<Longrightarrow> de_option d (Some v) = map_option Some (d v)"
  by (auto simp: de_option_def split: json.split)

lemma de_required_simps [simp]: "de_required d None = None" "de_required d (Some v) = d v"
  by (simp_all add: de_required_def)

lemma de_option_Some: "de_option d x = Some (Some a) \<Longrightarrow> \<exists>v. x = Some v \<and> v \<noteq> JNull \<and> d v = Some a"
  by (auto simp: de_option_def split: option.splits json.splits)

end
