(* ===== verification/Errors.thy ===== *)
theory Errors
  imports Json
begin

text \<open>
  \<open>src/error.rs\<close>: the error type of the gateway, its JSON-RPC code, its HTTP status, its
  \<open>Display\<close> text (the \<open>#[error(...)]\<close> attributes, on which two transports base decisions), the
  error response object, and the request identifier.
\<close>

section \<open>Error codes\<close>

definition PARSE_ERROR :: i64 where "PARSE_ERROR = - 32700"
definition INVALID_REQUEST :: i64 where "INVALID_REQUEST = - 32600"
definition METHOD_NOT_FOUND :: i64 where "METHOD_NOT_FOUND = - 32601"
definition INVALID_PARAMS :: i64 where "INVALID_PARAMS = - 32602"
definition INTERNAL_ERROR :: i64 where "INTERNAL_ERROR = - 32603"
definition UNAUTHORIZED :: i64 where "UNAUTHORIZED = - 32001"
definition SCOPE_DENIED :: i64 where "SCOPE_DENIED = - 32002"
definition SCHEMA_INVALID :: i64 where "SCHEMA_INVALID = - 32003"
definition REGISTRY_COLLISION :: i64 where "REGISTRY_COLLISION = - 32004"
definition SESSION_LOCKED :: i64 where "SESSION_LOCKED = - 32005"
definition EPCA_VIOLATION :: i64 where "EPCA_VIOLATION = - 32006"

lemmas error_code_defs =
  PARSE_ERROR_def INVALID_REQUEST_def METHOD_NOT_FOUND_def INVALID_PARAMS_def
  INTERNAL_ERROR_def UNAUTHORIZED_def SCOPE_DENIED_def SCHEMA_INVALID_def
  REGISTRY_COLLISION_def SESSION_LOCKED_def EPCA_VIOLATION_def

section \<open>The error type\<close>

datatype mcp_error =
    ParseError string
  | InvalidRequest string
  | MethodNotFound string
  | InvalidParams string
  | InternalError string
  | Unauthorized string
  | ScopeDenied string
  | SchemaInvalid string
  | RegistryCollision string
  | SessionLocked string
  | EcpaViolation string
  | JwtError string
  | OAuthError string
  | TransportError string
  | UpstreamError string

text \<open>The \<open>Display\<close> implementation \<open>thiserror\<close> derives from the attributes of the variants.\<close>

fun error_text :: "mcp_error \<Rightarrow> string" where
  "error_text (ParseError m) = fmt [''Parse error: '', m]"
| "error_text (InvalidRequest m) = fmt [''Invalid request: '', m]"
| "error_text (MethodNotFound m) = fmt [''Method not found: '', m]"
| "error_text (InvalidParams m) = fmt [''Invalid params: '', m]"
| "error_text (InternalError m) = fmt [''Internal error: '', m]"
| "error_text (Unauthorized m) = fmt [''Unauthorized: '', m]"
| "error_text (ScopeDenied m) = fmt [''Scope denied: '', m]"
| "error_text (SchemaInvalid m) = fmt [''Schema validation failed: '', m]"
| "error_text (RegistryCollision m) = fmt [''Registry collision: '', m]"
| "error_text (SessionLocked m) = fmt [''Session locked: '', m]"
| "error_text (EcpaViolation m) = fmt [''ePCA constraint violation: '', m]"
| "error_text (JwtError m) = fmt [''JWT error: '', m]"
| "error_text (OAuthError m) = fmt [''OAuth error: '', m]"
| "error_text (TransportError m) = fmt [''Transport error: '', m]"
| "error_text (UpstreamError m) = fmt [''Upstream error: '', m]"

declare error_text.simps [simp del]

fun error_code :: "mcp_error \<Rightarrow> i64" where
  "error_code (ParseError _) = PARSE_ERROR"
| "error_code (InvalidRequest _) = INVALID_REQUEST"
| "error_code (MethodNotFound _) = METHOD_NOT_FOUND"
| "error_code (InvalidParams _) = INVALID_PARAMS"
| "error_code (InternalError _) = INTERNAL_ERROR"
| "error_code (Unauthorized _) = UNAUTHORIZED"
| "error_code (ScopeDenied _) = SCOPE_DENIED"
| "error_code (SchemaInvalid _) = SCHEMA_INVALID"
| "error_code (RegistryCollision _) = REGISTRY_COLLISION"
| "error_code (SessionLocked _) = SESSION_LOCKED"
| "error_code (EcpaViolation _) = EPCA_VIOLATION"
| "error_code (JwtError _) = UNAUTHORIZED"
| "error_code (OAuthError _) = UNAUTHORIZED"
| "error_code (TransportError _) = INTERNAL_ERROR"
| "error_code (UpstreamError _) = INTERNAL_ERROR"

fun http_status :: "mcp_error \<Rightarrow> nat" where
  "http_status (Unauthorized _) = 401"
| "http_status (JwtError _) = 401"
| "http_status (OAuthError _) = 401"
| "http_status (ScopeDenied _) = 403"
| "http_status (InvalidRequest _) = 400"
| "http_status (ParseError _) = 400"
| "http_status (InvalidParams _) = 400"
| "http_status (MethodNotFound _) = 404"
| "http_status (SessionLocked _) = 409"
| "http_status (InternalError _) = 500"
| "http_status (UpstreamError _) = 500"
| "http_status (TransportError _) = 500"
| "http_status (SchemaInvalid _) = 400"
| "http_status (RegistryCollision _) = 409"
| "http_status (EcpaViolation _) = 403"

section \<open>Request identifiers\<close>

datatype request_id = IdString string | IdInteger i64 | IdNull

fun request_id_text :: "request_id \<Rightarrow> string" where
  "request_id_text (IdString s) = s"
| "request_id_text (IdInteger n) = show_int (sint n)"
| "request_id_text IdNull = ''null''"

text \<open>\<open>#[serde(untagged)]\<close>: each variant is its bare value, and reading tries the variants in
  order.\<close>

fun request_id_to_json :: "request_id \<Rightarrow> json" where
  "request_id_to_json (IdString s) = JStr s"
| "request_id_to_json (IdInteger n) = of_i64 n"
| "request_id_to_json IdNull = JNull"

definition request_id_from_json :: "json \<Rightarrow> request_id option" where
  "request_id_from_json v =
     (case as_str v of
        Some s \<Rightarrow> Some (IdString s)
      | None \<Rightarrow>
         (case as_i64 v of
            Some n \<Rightarrow> Some (IdInteger n)
          | None \<Rightarrow> if v = JNull then Some IdNull else None))"

lemma request_id_roundtrip [simp]: "request_id_from_json (request_id_to_json i) = Some i"
  by (cases i) (auto simp: request_id_from_json_def of_i64_def)

section \<open>Error responses\<close>

definition to_json_rpc_response :: "mcp_error \<Rightarrow> request_id option \<Rightarrow> json" where
  "to_json_rpc_response e rid =
     (let obj = JObj [(''jsonrpc'', JStr ''2.0''),
                      (''error'', JObj [(''code'', of_i64 (error_code e)),
                                        (''message'', JStr (error_text e))])]
      in case rid of
           Some i \<Rightarrow> jset ''id'' (request_id_to_json i) obj
         | None \<Rightarrow> jset ''id'' JNull obj)"

text \<open>\<open>IntoResponse for McpError\<close>: the HTTP status and the body.\<close>

definition into_response :: "mcp_error \<Rightarrow> nat \<times> json" where
  "into_response e =
     (http_status e,
      JObj [(''jsonrpc'', JStr ''2.0''),
            (''error'', JObj [(''code'', of_i64 (error_code e)),
                              (''message'', JStr (error_text e))]),
            (''id'', JNull)])"

lemma error_code_server_range:
  "error_code e \<in> {PARSE_ERROR, INVALID_REQUEST, METHOD_NOT_FOUND, INVALID_PARAMS, INTERNAL_ERROR}
   \<or> (- 32099 \<le> sint (error_code e) \<and> sint (error_code e) \<le> - 32000)"
  by (cases e) (simp_all add: error_code_defs)

section \<open>Foreign errors and error objects\<close>

text \<open>The \<open>From\<close> conversions keep the text of a foreign error.\<close>

definition from_json_error :: "string \<Rightarrow> mcp_error" where
  "from_json_error text = ParseError text"

definition from_schema_error :: "string \<Rightarrow> mcp_error" where
  "from_schema_error text = SchemaInvalid text"

definition from_jwt_error :: "string \<Rightarrow> mcp_error" where
  "from_jwt_error text = JwtError text"

record json_rpc_error =
  jre_code :: i64
  jre_message :: string
  jre_data :: "json option"

definition json_rpc_error_new :: "i64 \<Rightarrow> string \<Rightarrow> json_rpc_error" where
  "json_rpc_error_new code m = \<lparr>jre_code = code, jre_message = m, jre_data = None\<rparr>"

definition json_rpc_error_with_data :: "i64 \<Rightarrow> string \<Rightarrow> json \<Rightarrow> json_rpc_error" where
  "json_rpc_error_with_data code m d = \<lparr>jre_code = code, jre_message = m, jre_data = Some d\<rparr>"

definition json_rpc_error_to_json :: "json_rpc_error \<Rightarrow> json" where
  "json_rpc_error_to_json e =
     JObj ([(''code'', of_i64 (jre_code e)), (''message'', JStr (jre_message e))] @
           (case jre_data e of Some d \<Rightarrow> [(''data'', d)] | None \<Rightarrow> []))"

record json_rpc_error_response =
  jrr_jsonrpc :: string
  jrr_id :: request_id
  jrr_error :: json_rpc_error

definition json_rpc_error_response_new ::
  "request_id \<Rightarrow> i64 \<Rightarrow> string \<Rightarrow> json_rpc_error_response" where
  "json_rpc_error_response_new i code m =
     \<lparr>jrr_jsonrpc = ''2.0'', jrr_id = i, jrr_error = json_rpc_error_new code m\<rparr>"
end
