(* ===== verification/Sample_Codec.thy ===== *)
theory Sample_Codec
  imports Json
begin

text \<open>
  A concrete codec that meets \<open>codec_ok\<close> and \<open>codec_injective\<close>, for the witnesses of the properties that assume it.
  It is a prefix code, not JSON text: every value starts with a letter for its constructor,
  numbers are unary, strings and containers carry their length.
\<close>

fun put_nat :: "nat \<Rightarrow> string" where
  "put_nat 0 = ''.''"
| "put_nat (Suc n) = CHR ''1'' # put_nat n"

fun take_nat :: "string \<Rightarrow> (nat \<times> string) option" where
  "take_nat [] = None"
| "take_nat (c # s) =
     (if c = CHR ''1'' then map_option (\<lambda>(n, r). (Suc n, r)) (take_nat s)
      else Some (0, s))"

definition put_str :: "string \<Rightarrow> string" where
  "put_str s = put_nat (length s) @ s"

definition take_str :: "string \<Rightarrow> (string \<times> string) option" where
  "take_str s = map_option (\<lambda>(n, r). (take n r, drop n r)) (take_nat s)"

fun put_json :: "json \<Rightarrow> string" where
  "put_json JNull = ''z''"
| "put_json (JBool b) = (if b then ''t'' else ''f'')"
| "put_json (JNum (PosInt w)) = CHR ''p'' # put_nat (unat w)"
| "put_json (JNum (NegInt w)) = CHR ''n'' # put_nat (unat (- w))"
| "put_json (JNum (Float w)) = CHR ''d'' # put_nat (unat w)"
| "put_json (JStr s) = CHR ''s'' # put_str s"
| "put_json (JArr xs) = CHR ''a'' # put_nat (length xs) @ concat (map put_json xs)"
| "put_json (JObj kvs) =
     CHR ''o'' # put_nat (length kvs) @ concat (map (\<lambda>(k, v). put_str k @ put_json v) kvs)"

text \<open>\<open>n\<close> elements in a row.\<close>

fun take_many :: "(string \<Rightarrow> ('a \<times> string) option) \<Rightarrow> nat \<Rightarrow> string \<Rightarrow> ('a list \<times> string) option" where
  "take_many p 0 s = Some ([], s)"
| "take_many p (Suc n) s =
     (case p s of None \<Rightarrow> None
      | Some (x, r) \<Rightarrow> map_option (\<lambda>(xs, r'). (x # xs, r')) (take_many p n r))"

definition take_pair :: "(string \<Rightarrow> (json \<times> string) option) \<Rightarrow> string \<Rightarrow> ((string \<times> json) \<times> string) option" where
  "take_pair p s =
     (case take_str s of None \<Rightarrow> None
      | Some (k, r) \<Rightarrow> map_option (\<lambda>(v, r'). ((k, v), r')) (p r))"

text \<open>The fuel bounds the nesting; the length of the text is always enough.\<close>

fun take_json :: "nat \<Rightarrow> string \<Rightarrow> (json \<times> string) option" where
  "take_json 0 s = None"
| "take_json (Suc f) [] = None"
| "take_json (Suc f) (c # s) =
     (if c = CHR ''z'' then Some (JNull, s)
      else if c = CHR ''t'' then Some (JBool True, s)
      else if c = CHR ''f'' then Some (JBool False, s)
      else if c = CHR ''p'' then map_option (\<lambda>(n, r). (JNum (PosInt (of_nat n)), r)) (take_nat s)
      else if c = CHR ''n'' then map_option (\<lambda>(n, r). (JNum (NegInt (- of_nat n)), r)) (take_nat s)
      else if c = CHR ''d'' then map_option (\<lambda>(n, r). (JNum (Float (of_nat n)), r)) (take_nat s)
      else if c = CHR ''s'' then map_option (\<lambda>(x, r). (JStr x, r)) (take_str s)
      else if c = CHR ''a'' then
        (case take_nat s of None \<Rightarrow> None
         | Some (n, r) \<Rightarrow> map_option (\<lambda>(xs, r'). (JArr xs, r')) (take_many (take_json f) n r))
      else
        (case take_nat s of None \<Rightarrow> None
         | Some (n, r) \<Rightarrow>
             map_option (\<lambda>(xs, r'). (JObj xs, r')) (take_many (take_pair (take_json f)) n r)))"

definition sample_codec :: json_codec where
  "sample_codec =
     \<lparr>to_text = put_json,
      from_text = (\<lambda>s. case take_json (Suc (length s)) s of
                         Some (j, []) \<Rightarrow> Ok j | _ \<Rightarrow> Err ''syntax error'')\<rparr>"

lemma take_put_nat [simp]: "take_nat (put_nat n @ r) = Some (n, r)"
  by (induction n) auto

lemma take_put_str [simp]: "take_str (put_str s @ r) = Some (s, r)"
  by (simp add: take_str_def put_str_def)

lemma take_many_concat:
  "(\<And>x r. x \<in> set xs \<Longrightarrow> p (q x @ r) = Some (x, r)) \<Longrightarrow>
     take_many p (length xs) (concat (map q xs) @ r) = Some (xs, r)"
  by (induction xs arbitrary: r) auto

lemma length_concat_mem: "x \<in> set xs \<Longrightarrow> length (q x) \<le> length (concat (map q xs))"
  by (induction xs) auto

lemma take_put_json:
  "length (put_json j) \<le> f \<Longrightarrow> take_json (Suc f) (put_json j @ r) = Some (j, r)"
proof (induction j arbitrary: f r)
  case (JNum n)
  then show ?case by (cases n) auto
next
  case (JArr xs)
  have "take_json f (put_json x @ r) = Some (x, r)" if "x \<in> set xs" for x r
  proof -
    have "length (put_json x) < f"
      using JArr.prems length_concat_mem [OF that, of put_json] by auto
    then show ?thesis
      using JArr.IH [OF that, of "f - 1" r] by (cases f) auto
  qed
  then show ?case by (simp add: take_many_concat)
next
  case (JObj kvs)
  let ?q = "\<lambda>(k, v). put_str k @ put_json v"
  have "take_pair (take_json f) (?q kv @ r) = Some (kv, r)" if "kv \<in> set kvs" for kv r
  proof -
    obtain k v where kv: "kv = (k, v)" by force
    have "length (put_json v) < f"
      using JObj.prems length_concat_mem [OF that, of ?q] kv by auto
    then show ?thesis
      using JObj.IH [of kv v "f - 1" r] that kv by (cases f) (auto simp: take_pair_def)
  qed
  then show ?case by (simp add: take_many_concat)
qed auto

lemma sample_codec_roundtrip: "from_text sample_codec (to_text sample_codec v) = Ok v"
  using take_put_json [of v "length (put_json v)" "[]"] by (simp add: sample_codec_def)

lemma sample_codec_ok: "codec_ok sample_codec"
  by (simp add: codec_ok_def sample_codec_roundtrip)

lemma sample_codec_injective: "codec_injective sample_codec"
  unfolding codec_injective_def by (metis sample_codec_roundtrip result.inject(1))

end
