(* ===== verification/Jsonrpc.thy ===== *)
theory Jsonrpc
  imports Errors Sample_Codec
begin

text \<open>
  \<open>src/protocol/jsonrpc.rs\<close>: the message type, parsing with every rejection, printing, the
  accessors and the response constructors. \<open>raw\<close> is a parsed JSON value; \<open>from_str\<close> adds the
  text codec. The lemmas show which messages parsing can produce (\<open>wf_message\<close>), that printing
  a parsed message and parsing it again gives the same message, and that every rejection is an
  \<open>InvalidRequest\<close>.
\<close>

section \<open>Messages\<close>

definition JSONRPC_VERSION :: string where "JSONRPC_VERSION = ''2.0''"

record error_obj =
  eo_code :: i64
  eo_message :: string
  eo_data :: "json option"

datatype message =
    Request request_id string "json option"
  | Notification string "json option"
  | Success request_id json
  | Error request_id error_obj
  | Batch "message list"

definition error_obj_new :: "i64 \<Rightarrow> string \<Rightarrow> error_obj" where
  "error_obj_new c m = \<lparr>eo_code = c, eo_message = m, eo_data = None\<rparr>"

definition error_obj_with_data :: "i64 \<Rightarrow> string \<Rightarrow> json \<Rightarrow> error_obj" where
  "error_obj_with_data c m d = \<lparr>eo_code = c, eo_message = m, eo_data = Some d\<rparr>"

text \<open>The derived serde instances of \<open>JsonRpcErrorObj\<close>: \<open>data\<close> is left out when \<open>None\<close>.\<close>

definition error_obj_to_json :: "error_obj \<Rightarrow> json" where
  "error_obj_to_json e =
     JObj ([(''code'', of_i64 (eo_code e)), (''message'', JStr (eo_message e))] @
           (case eo_data e of None \<Rightarrow> [] | Some d \<Rightarrow> [(''data'', d)]))"

definition error_obj_from_json :: "json \<Rightarrow> error_obj option" where
  "error_obj_from_json v =
     (case struct_fields [(''code'', False), (''message'', False), (''data'', False)] v of
        Some [c, m, d] \<Rightarrow>
          (case (de_required as_i64 c, de_required as_str m, de_option Some d) of
             (Some c', Some m', Some d') \<Rightarrow>
               Some \<lparr>eo_code = c', eo_message = m', eo_data = d'\<rparr>
           | _ \<Rightarrow> None)
      | _ \<Rightarrow> None)"

section \<open>Parsing\<close>

definition parse_id :: "serde_msg \<Rightarrow> json \<Rightarrow> (request_id, mcp_error) result" where
  "parse_id serde_err v =
     ok_or (InvalidRequest (fmt [''Invalid Request: id must be string, integer, or null: '',
                                 serde_err T_RequestId v]))
           (request_id_from_json v)"

definition parse_single :: "serde_msg \<Rightarrow> json \<Rightarrow> (message, mcp_error) result" where
  "parse_single serde_err raw =
    (if \<not> is_object raw then
       Err (InvalidRequest ''Invalid Request: message must be a JSON object'')
     else
     let version = (case Option.bind (jget raw ''jsonrpc'') as_str of Some s \<Rightarrow> s | None \<Rightarrow> []) in
     if version \<noteq> JSONRPC_VERSION then
       Err (InvalidRequest (fmt [''Invalid Request: expected jsonrpc '', dquoted ''2.0'',
                                 '', got '', dquoted version]))
     else
     let has_id = jget raw ''id'' \<noteq> None;
         has_method = jget raw ''method'' \<noteq> None;
         has_result = jget raw ''result'' \<noteq> None;
         has_error = jget raw ''error'' \<noteq> None in
     if has_method \<and> \<not> has_result \<and> \<not> has_error then
       (case Option.bind (jget raw ''method'') as_str of
          None \<Rightarrow> Err (InvalidRequest ''Invalid Request: method must be a string'')
        | Some method \<Rightarrow>
            let params = jget raw ''params'' in
            (case jget raw ''id'' of
               Some i \<Rightarrow>
                 (case parse_id serde_err i of
                    Err e \<Rightarrow> Err e
                  | Ok IdNull \<Rightarrow> Err (InvalidRequest ''Invalid Request: id must not be null'')
                  | Ok rid \<Rightarrow> Ok (Request rid method params))
             | None \<Rightarrow> Ok (Notification method params)))
     else
       (case jget raw ''id'' of
          Some i \<Rightarrow>
            if has_result \<or> has_error then
              (case parse_id serde_err i of
                 Err e \<Rightarrow> Err e
               | Ok rid \<Rightarrow>
                  (case jget raw ''error'' of
                     Some err \<Rightarrow>
                       (case error_obj_from_json err of
                          None \<Rightarrow> Err (InvalidRequest
                                    (fmt [''Invalid Request: malformed error object: '',
                                         serde_err T_JsonRpcErrorObj err]))
                        | Some obj \<Rightarrow> Ok (Error rid obj))
                   | None \<Rightarrow>
                       Ok (Success rid (case jget raw ''result'' of Some r \<Rightarrow> r | None \<Rightarrow> JNull))))
            else
              Err (InvalidRequest
                ''Invalid Request: message must be a request, notification, or response'')
        | None \<Rightarrow>
            Err (InvalidRequest
              ''Invalid Request: message must be a request, notification, or response'')))"

definition parse :: "serde_msg \<Rightarrow> json \<Rightarrow> (message, mcp_error) result" where
  "parse serde_err raw =
     (case as_array raw of
        Some arr \<Rightarrow>
          if arr = [] then Err (InvalidRequest ''Invalid Request: empty batch'')
          else (case traverse (parse_single serde_err) arr of
                  Err e \<Rightarrow> Err e
                | Ok messages \<Rightarrow> Ok (Batch messages))
      | None \<Rightarrow> parse_single serde_err raw)"

definition from_str :: "json_codec \<Rightarrow> serde_msg \<Rightarrow> string \<Rightarrow> (message, mcp_error) result" where
  "from_str codec serde_err s =
     (case from_text codec s of
        Err e \<Rightarrow> Err (ParseError e)
      | Ok raw \<Rightarrow> parse serde_err raw)"

section \<open>Printing\<close>

fun to_value :: "message \<Rightarrow> json" where
  "to_value (Request i method params) =
     (let obj = JObj [(''jsonrpc'', JStr JSONRPC_VERSION), (''id'', request_id_to_json i),
                      (''method'', JStr method)]
      in case params of Some p \<Rightarrow> jset ''params'' p obj | None \<Rightarrow> obj)"
| "to_value (Notification method params) =
     (let obj = JObj [(''jsonrpc'', JStr JSONRPC_VERSION), (''method'', JStr method)]
      in case params of Some p \<Rightarrow> jset ''params'' p obj | None \<Rightarrow> obj)"
| "to_value (Success i r) =
     JObj [(''jsonrpc'', JStr JSONRPC_VERSION), (''id'', request_id_to_json i), (''result'', r)]"
| "to_value (Error i e) =
     JObj [(''jsonrpc'', JStr JSONRPC_VERSION), (''id'', request_id_to_json i),
           (''error'', error_obj_to_json e)]"
| "to_value (Batch ms) = JArr (map to_value ms)"

definition to_json_string :: "json_codec \<Rightarrow> message \<Rightarrow> string" where
  "to_json_string codec m = to_text codec (to_value m)"

section \<open>Accessors and constructors\<close>

fun msg_id :: "message \<Rightarrow> request_id option" where
  "msg_id (Request i _ _) = Some i"
| "msg_id (Success i _) = Some i"
| "msg_id (Error i _) = Some i"
| "msg_id (Notification _ _) = None"
| "msg_id (Batch _) = None"

fun msg_method :: "message \<Rightarrow> string option" where
  "msg_method (Request _ m _) = Some m"
| "msg_method (Notification m _) = Some m"
| "msg_method _ = None"

fun msg_params :: "message \<Rightarrow> json option" where
  "msg_params (Request _ _ p) = p"
| "msg_params (Notification _ p) = p"
| "msg_params _ = None"

fun is_notification :: "message \<Rightarrow> bool" where
  "is_notification (Notification _ _) = True"
| "is_notification _ = False"

fun is_batch :: "message \<Rightarrow> bool" where
  "is_batch (Batch _) = True"
| "is_batch _ = False"

definition error_response :: "request_id \<Rightarrow> i64 \<Rightarrow> string \<Rightarrow> message" where
  "error_response i c m = Error i (error_obj_new c m)"

definition error_response_with_data :: "request_id \<Rightarrow> i64 \<Rightarrow> string \<Rightarrow> json \<Rightarrow> message" where
  "error_response_with_data i c m d = Error i (error_obj_with_data c m d)"

definition method_not_found_response :: "request_id \<Rightarrow> string \<Rightarrow> message" where
  "method_not_found_response i method =
     Error i (error_obj_new METHOD_NOT_FOUND (fmt [''Method not found: '', method]))"

definition success_response :: "request_id \<Rightarrow> json \<Rightarrow> message" where
  "success_response i r = Success i r"

definition parse_error_response :: message where
  "parse_error_response = Error IdNull (error_obj_new PARSE_ERROR ''Parse error'')"

definition invalid_request_response :: message where
  "invalid_request_response = Error IdNull (error_obj_new INVALID_REQUEST ''Invalid Request'')"

fun flatten :: "message \<Rightarrow> message list" where
  "flatten (Batch ms) = ms"
| "flatten m = [m]"

section \<open>What parsing produces\<close>

text \<open>A request never has the null identifier, error data is never \<open>null\<close>, a batch is not
  empty and holds no batch.\<close>

fun wf_single :: "message \<Rightarrow> bool" where
  "wf_single (Request i _ _) = (i \<noteq> IdNull)"
| "wf_single (Notification _ _) = True"
| "wf_single (Success _ _) = True"
| "wf_single (Error _ e) = (eo_data e \<noteq> Some JNull)"
| "wf_single (Batch _) = False"

definition wf_message :: "message \<Rightarrow> bool" where
  "wf_message m =
     (case m of Batch ms \<Rightarrow> ms \<noteq> [] \<and> (\<forall>x \<in> set ms. wf_single x) | _ \<Rightarrow> wf_single m)"

lemma error_obj_from_json_data:
  "error_obj_from_json v = Some e \<Longrightarrow> eo_data e \<noteq> Some JNull"
  by (auto simp: error_obj_from_json_def dest: de_option_Some
        split: option.splits list.splits)

lemma error_obj_roundtrip:
  "eo_data e \<noteq> Some JNull \<Longrightarrow> error_obj_from_json (error_obj_to_json e) = Some e"
  by (cases "eo_data e")
    (auto simp: error_obj_from_json_def error_obj_to_json_def struct_fields_def)

lemma parse_single_wf: "parse_single se raw = Ok m \<Longrightarrow> wf_single m"
  by (auto simp: parse_single_def Let_def error_obj_from_json_data
        split: if_splits option.splits result.splits request_id.splits)

lemma parse_single_Err: "parse_single se raw = Err e \<Longrightarrow> \<exists>m. e = InvalidRequest m"
  by (auto simp: parse_single_def parse_id_def Let_def
        split: if_splits option.splits result.splits request_id.splits)

lemma parse_id_to_json [simp]: "parse_id se (request_id_to_json i) = Ok i"
  by (simp add: parse_id_def)

lemma parse_single_to_value: "wf_single m \<Longrightarrow> parse_single se (to_value m) = Ok m"
proof (cases m)
  case (Request i meth ps)
  moreover assume "wf_single m"
  ultimately show ?thesis
    by (cases ps) (simp_all add: parse_single_def Let_def split: request_id.split)
next
  case (Notification meth ps)
  then show ?thesis
    by (cases ps) (simp_all add: parse_single_def Let_def)
next
  case (Error i e)
  moreover assume "wf_single m"
  ultimately show ?thesis
    by (simp add: parse_single_def Let_def error_obj_roundtrip)
qed (simp_all add: parse_single_def Let_def)

lemma as_array_to_value: "wf_single m \<Longrightarrow> as_array (to_value m) = None"
  by (cases m) (auto simp: Let_def split: option.splits)

lemma parse_to_value: "wf_message m \<Longrightarrow> parse se (to_value m) = Ok m"
proof (cases m)
  case (Batch ms)
  moreover assume "wf_message m"
  ultimately have "traverse (parse_single se) (map to_value ms) = Ok ms" "ms \<noteq> []"
    by (auto simp: wf_message_def intro!: traverse_map_id parse_single_to_value)
  with Batch show ?thesis by (simp add: parse_def)
qed (auto simp: wf_message_def parse_def as_array_to_value parse_single_to_value
      simp del: to_value.simps)

lemma parse_wf: "parse se raw = Ok m \<Longrightarrow> wf_message m"
proof -
  assume p: "parse se raw = Ok m"
  show ?thesis
  proof (cases "as_array raw")
    case None
    with p have "wf_single m" by (simp add: parse_def parse_single_wf)
    then show ?thesis by (cases m) (simp_all add: wf_message_def)
  next
    case (Some arr)
    with p obtain ms where ms: "m = Batch ms" "arr \<noteq> []" "traverse (parse_single se) arr = Ok ms"
      by (auto simp: parse_def split: if_splits result.splits)
    then have "list_all2 (\<lambda>x y. parse_single se x = Ok y) arr ms"
      by (simp add: traverse_Ok)
    with ms show ?thesis
      by (fastforce simp: wf_message_def list_all2_conv_all_nth in_set_conv_nth
            intro: parse_single_wf)
  qed
qed

lemma parse_Err: "parse se raw = Err e \<Longrightarrow> \<exists>m. e = InvalidRequest m"
  by (auto simp: parse_def dest: parse_single_Err traverse_Err
        split: option.splits if_splits result.splits)


section \<open>Properties\<close>

text \<open>C15: What the parser accepts is well formed (no request with the null identifier, no empty
  and no nested batch), survives printing: parsing the printed message gives the same message; and
  conversely every well-formed message (with no float in it) is what its text parses to. Every rejection is an
  \<open>Invalid Request\<close>.\<close>

theorem parse_print_roundtrip:
  "(\<forall>e. parse se raw = Err e \<longrightarrow> error_code e = INVALID_REQUEST) \<and>
   (\<forall>m. parse se raw = Ok m \<longrightarrow> wf_message m \<and> parse se (to_value m) = Ok m) \<and>
   (codec_ok C \<and> wf_message m \<and> json_value (to_value m) \<and> float_free (to_value m) \<longrightarrow>
      from_str C se (to_json_string C m) = Ok m)"
proof (intro conjI allI impI)
  fix e assume "parse se raw = Err e"
  then show "error_code e = INVALID_REQUEST"
    using parse_Err by fastforce
next
  fix m assume p: "parse se raw = Ok m"
  then show "wf_message m" by (rule parse_wf)
  then show "parse se (to_value m) = Ok m" by (rule parse_to_value)
next
  assume a: "codec_ok C \<and> wf_message m \<and> json_value (to_value m) \<and> float_free (to_value m)"
  then have "from_text C (to_text C (to_value m)) = Ok (to_value m)"
    by (simp add: codec_ok_text)
  with a show "from_str C se (to_json_string C m) = Ok m"
    by (simp add: from_str_def to_json_string_def parse_to_value)
qed

lemma parse_print_roundtrip_witness:
  "let m = Request (IdInteger 1) ''ping'' None in
     parse (\<lambda>_ _. []) (to_value m) = Ok m \<and> wf_message m \<and>
     (\<exists>e. parse (\<lambda>_ _. []) (JArr []) = Err e \<and> error_code e = INVALID_REQUEST) \<and>
     from_str sample_codec (\<lambda>_ _. []) (to_json_string sample_codec m) = Ok m"
proof -
  let ?m = "Request (IdInteger 1) ''ping'' None" and ?se = "\<lambda>_ _. []"
  have p: "parse ?se (to_value ?m) = Ok ?m" by (rule parse_to_value) (simp add: wf_message_def)
  have "\<exists>e. parse ?se (JArr []) = Err e" by (simp add: parse_def)
  moreover have "json_value (to_value ?m)" "float_free (to_value ?m)" by code_simp+
  ultimately show ?thesis
    using parse_print_roundtrip [of ?se "to_value ?m" sample_codec ?m]
      parse_print_roundtrip [of ?se "JArr []" sample_codec ?m] p sample_codec_ok
    unfolding Let_def by blast
qed

end
