(* ===== verification/Message.thy ===== *)
theory Message
  imports Jsonrpc
begin

text \<open>
  \<open>src/protocol/message.rs\<close>: the method names, the tool and capability structs with their
  serde instances (a field that is \<open>None\<close> is left out), the decoder of the \<open>initialize\<close>
  parameters, and the \<open>_meta\<close> accessors.
\<close>

section \<open>Method names\<close>

definition CARGO_PKG_VERSION :: string where "CARGO_PKG_VERSION = ''0.1.0''"
definition MCP_PROTOCOL_VERSION :: string where "MCP_PROTOCOL_VERSION = ''2025-03-26''"

definition METHOD_INITIALIZE :: string where "METHOD_INITIALIZE = ''initialize''"
definition METHOD_INITIALIZED :: string where "METHOD_INITIALIZED = ''notifications/initialized''"
definition METHOD_PING :: string where "METHOD_PING = ''ping''"
definition METHOD_TOOLS_LIST :: string where "METHOD_TOOLS_LIST = ''tools/list''"
definition METHOD_TOOLS_CALL :: string where "METHOD_TOOLS_CALL = ''tools/call''"
definition METHOD_RESOURCES_LIST :: string where "METHOD_RESOURCES_LIST = ''resources/list''"
definition METHOD_RESOURCES_READ :: string where "METHOD_RESOURCES_READ = ''resources/read''"
definition METHOD_PROMPTS_LIST :: string where "METHOD_PROMPTS_LIST = ''prompts/list''"
definition METHOD_PROMPTS_GET :: string where "METHOD_PROMPTS_GET = ''prompts/get''"
definition METHOD_LOGGING :: string where "METHOD_LOGGING = ''notifications/message''"
definition METHOD_PROGRESS :: string where "METHOD_PROGRESS = ''notifications/progress''"
definition METHOD_TOOLS_LIST_CHANGED :: string where
  "METHOD_TOOLS_LIST_CHANGED = ''notifications/tools/list_changed''"
definition METHOD_RESOURCES_LIST_CHANGED :: string where
  "METHOD_RESOURCES_LIST_CHANGED = ''notifications/resources/list_changed''"
definition METHOD_PROMPTS_LIST_CHANGED :: string where
  "METHOD_PROMPTS_LIST_CHANGED = ''notifications/prompts/list_changed''"
definition METHOD_COMPLETION_COMPLETE :: string where
  "METHOD_COMPLETION_COMPLETE = ''completion/complete''"
definition METHOD_SAMPLING_CREATE :: string where
  "METHOD_SAMPLING_CREATE = ''sampling/createMessage''"
definition METHOD_SHUTDOWN :: string where "METHOD_SHUTDOWN = ''shutdown''"
definition METHOD_EXITED :: string where "METHOD_EXITED = ''notifications/exited''"

lemmas method_defs =
  METHOD_INITIALIZE_def METHOD_INITIALIZED_def METHOD_PING_def METHOD_TOOLS_LIST_def
  METHOD_TOOLS_CALL_def METHOD_RESOURCES_LIST_def METHOD_RESOURCES_READ_def
  METHOD_PROMPTS_LIST_def METHOD_PROMPTS_GET_def METHOD_LOGGING_def METHOD_PROGRESS_def
  METHOD_TOOLS_LIST_CHANGED_def METHOD_RESOURCES_LIST_CHANGED_def
  METHOD_PROMPTS_LIST_CHANGED_def METHOD_COMPLETION_COMPLETE_def METHOD_SAMPLING_CREATE_def
  METHOD_SHUTDOWN_def METHOD_EXITED_def

definition VALID_METHODS :: "string list" where
  "VALID_METHODS =
     [METHOD_INITIALIZE, METHOD_INITIALIZED, METHOD_PING, METHOD_TOOLS_LIST, METHOD_TOOLS_CALL,
      METHOD_RESOURCES_LIST, METHOD_RESOURCES_READ, METHOD_PROMPTS_LIST, METHOD_PROMPTS_GET,
      METHOD_LOGGING, METHOD_PROGRESS, METHOD_TOOLS_LIST_CHANGED, METHOD_RESOURCES_LIST_CHANGED,
      METHOD_PROMPTS_LIST_CHANGED, METHOD_COMPLETION_COMPLETE, METHOD_SAMPLING_CREATE,
      METHOD_SHUTDOWN, METHOD_EXITED]"

definition is_valid_method :: "string \<Rightarrow> bool" where
  "is_valid_method method = (method \<in> set VALID_METHODS)"

section \<open>Structs and their serde instances\<close>

text \<open>\<open>#[serde(skip_serializing_if = "Option::is_none")]\<close>.\<close>

definition skip_none :: "string \<Rightarrow> ('a \<Rightarrow> json) \<Rightarrow> 'a option \<Rightarrow> (string \<times> json) list" where
  "skip_none k f x = (case x of None \<Rightarrow> [] | Some a \<Rightarrow> [(k, f a)])"

record tool_annotations =
  ta_read_only_hint :: "bool option"
  ta_destructive_hint :: "bool option"
  ta_idempotent_hint :: "bool option"
  ta_open_world_hint :: "bool option"
  ta_title :: "string option"

definition tool_annotations_to_json :: "tool_annotations \<Rightarrow> json" where
  "tool_annotations_to_json a =
     JObj (skip_none ''readOnlyHint'' JBool (ta_read_only_hint a) @
           skip_none ''destructiveHint'' JBool (ta_destructive_hint a) @
           skip_none ''idempotentHint'' JBool (ta_idempotent_hint a) @
           skip_none ''openWorldHint'' JBool (ta_open_world_hint a) @
           skip_none ''title'' JStr (ta_title a))"

definition tool_annotations_from_json :: "json \<Rightarrow> tool_annotations option" where
  "tool_annotations_from_json v =
     (case struct_fields [(''readOnlyHint'', False), (''destructiveHint'', False),
                          (''idempotentHint'', False), (''openWorldHint'', False),
                          (''title'', False)] v of
        Some [a, b, c, d, e] \<Rightarrow>
          (case (de_option de_bool a, de_option de_bool b, de_option de_bool c,
                 de_option de_bool d, de_option as_str e) of
             (Some a', Some b', Some c', Some d', Some e') \<Rightarrow>
               Some \<lparr>ta_read_only_hint = a', ta_destructive_hint = b', ta_idempotent_hint = c',
                     ta_open_world_hint = d', ta_title = e'\<rparr>
           | _ \<Rightarrow> None)
      | _ \<Rightarrow> None)"

record tool =
  t_name :: string
  t_description :: "string option"
  t_input_schema :: json
  t_annotations :: "tool_annotations option"

definition tool_to_json :: "tool \<Rightarrow> json" where
  "tool_to_json t =
     JObj ([(''name'', JStr (t_name t))] @
           skip_none ''description'' JStr (t_description t) @
           [(''inputSchema'', t_input_schema t)] @
           skip_none ''annotations'' tool_annotations_to_json (t_annotations t))"

definition tool_from_json :: "json \<Rightarrow> tool option" where
  "tool_from_json v =
     (case struct_fields [(''name'', False), (''description'', False),
                          (''inputSchema'', False), (''annotations'', False)] v of
        Some [a, b, c, d] \<Rightarrow>
          (case (de_required as_str a, de_option as_str b, de_required Some c,
                 de_option tool_annotations_from_json d) of
             (Some a', Some b', Some c', Some d') \<Rightarrow>
               Some \<lparr>t_name = a', t_description = b', t_input_schema = c', t_annotations = d'\<rparr>
           | _ \<Rightarrow> None)
      | _ \<Rightarrow> None)"

record implementation =
  im_name :: string
  im_version :: string

definition implementation_from_json :: "json \<Rightarrow> implementation option" where
  "implementation_from_json v =
     (case struct_fields [(''name'', False), (''version'', False)] v of
        Some [a, b] \<Rightarrow>
          (case (de_required as_str a, de_required as_str b) of
             (Some a', Some b') \<Rightarrow> Some \<lparr>im_name = a', im_version = b'\<rparr>
           | _ \<Rightarrow> None)
      | _ \<Rightarrow> None)"

text \<open>What a server declares. The fields are written in the order of the struct.\<close>

record tools_capability =
  tcap_list_changed :: "bool option"

record resources_capability =
  rcap_list_changed :: "bool option"
  rcap_subscribe :: "bool option"

record prompts_capability =
  pcap_list_changed :: "bool option"

record server_capabilities =
  sc_completions :: "json option"
  sc_experimental :: "json option"
  sc_logging :: "json option"
  sc_prompts :: "prompts_capability option"
  sc_resources :: "resources_capability option"
  sc_tools :: "tools_capability option"

definition tools_capability_to_json :: "tools_capability \<Rightarrow> json" where
  "tools_capability_to_json c = JObj (skip_none ''listChanged'' JBool (tcap_list_changed c))"

definition resources_capability_to_json :: "resources_capability \<Rightarrow> json" where
  "resources_capability_to_json c =
     JObj (skip_none ''listChanged'' JBool (rcap_list_changed c) @
           skip_none ''subscribe'' JBool (rcap_subscribe c))"

definition prompts_capability_to_json :: "prompts_capability \<Rightarrow> json" where
  "prompts_capability_to_json c = JObj (skip_none ''listChanged'' JBool (pcap_list_changed c))"

definition server_capabilities_to_json :: "server_capabilities \<Rightarrow> json" where
  "server_capabilities_to_json c =
     JObj (skip_none ''completions'' (\<lambda>v. v) (sc_completions c) @
           skip_none ''experimental'' (\<lambda>v. v) (sc_experimental c) @
           skip_none ''logging'' (\<lambda>v. v) (sc_logging c) @
           skip_none ''prompts'' prompts_capability_to_json (sc_prompts c) @
           skip_none ''resources'' resources_capability_to_json (sc_resources c) @
           skip_none ''tools'' tools_capability_to_json (sc_tools c))"

definition implementation_to_json :: "implementation \<Rightarrow> json" where
  "implementation_to_json i =
     JObj [(''name'', JStr (im_name i)), (''version'', JStr (im_version i))]"

record initialize_result =
  ir_protocol_version :: string
  ir_capabilities :: server_capabilities
  ir_server_info :: implementation
  ir_instructions :: "string option"

definition initialize_result_to_json :: "initialize_result \<Rightarrow> json" where
  "initialize_result_to_json r =
     JObj ([(''protocolVersion'', JStr (ir_protocol_version r)),
            (''capabilities'', server_capabilities_to_json (ir_capabilities r)),
            (''serverInfo'', implementation_to_json (ir_server_info r))] @
           skip_none ''instructions'' JStr (ir_instructions r))"

record roots_capability =
  rc_list_changed :: "bool option"

definition roots_capability_from_json :: "json \<Rightarrow> roots_capability option" where
  "roots_capability_from_json v =
     (case struct_fields [(''listChanged'', False)] v of
        Some [a] \<Rightarrow> map_option (\<lambda>a'. \<lparr>rc_list_changed = a'\<rparr>) (de_option de_bool a)
      | _ \<Rightarrow> None)"

record client_capabilities =
  cc_experimental :: "json option"
  cc_roots :: "roots_capability option"
  cc_sampling :: "json option"

definition client_capabilities_default :: client_capabilities where
  "client_capabilities_default = \<lparr>cc_experimental = None, cc_roots = None, cc_sampling = None\<rparr>"

definition client_capabilities_from_json :: "json \<Rightarrow> client_capabilities option" where
  "client_capabilities_from_json v =
     (case struct_fields [(''experimental'', False), (''roots'', False), (''sampling'', False)] v of
        Some [a, b, c] \<Rightarrow>
          (case (de_option Some a, de_option roots_capability_from_json b, de_option Some c) of
             (Some a', Some b', Some c') \<Rightarrow>
               Some \<lparr>cc_experimental = a', cc_roots = b', cc_sampling = c'\<rparr>
           | _ \<Rightarrow> None)
      | _ \<Rightarrow> None)"

record initialize_params =
  ip_protocol_version :: string
  ip_capabilities :: client_capabilities
  ip_client_info :: implementation

definition initialize_params_from_json :: "json \<Rightarrow> initialize_params option" where
  "initialize_params_from_json v =
     (case struct_fields [(''protocolVersion'', False), (''capabilities'', True),
                          (''clientInfo'', False)] v of
        Some [a, b, c] \<Rightarrow>
          (case (de_required as_str a,
                 (case b of None \<Rightarrow> Some client_capabilities_default
                          | Some w \<Rightarrow> client_capabilities_from_json w),
                 de_required implementation_from_json c) of
             (Some a', Some b', Some c') \<Rightarrow>
               Some \<lparr>ip_protocol_version = a', ip_capabilities = b', ip_client_info = c'\<rparr>
           | _ \<Rightarrow> None)
      | _ \<Rightarrow> None)"

section \<open>Metadata\<close>

record meta =
  m_progress_token :: "json option"

definition meta_from_json :: "json \<Rightarrow> meta option" where
  "meta_from_json v =
     (case struct_fields [(''progressToken'', False)] v of
        Some [a] \<Rightarrow> map_option (\<lambda>a'. \<lparr>m_progress_token = a'\<rparr>) (de_option Some a)
      | _ \<Rightarrow> None)"

definition extract_meta :: "json option \<Rightarrow> meta option" where
  "extract_meta params =
     Option.bind (Option.bind params (\<lambda>p. jget p ''_meta'')) meta_from_json"

definition extract_progress_token :: "json option \<Rightarrow> json option" where
  "extract_progress_token params =
     Option.bind (Option.bind params (\<lambda>p. jget p ''_meta'')) (\<lambda>m. jget m ''progressToken'')"

section \<open>Facts\<close>

lemma jget_skip_none:
  "map_of (skip_none k f x @ m) k' =
     (if k' = k then (case x of Some a \<Rightarrow> Some (f a) | None \<Rightarrow> map_of m k') else map_of m k')"
  by (auto simp: skip_none_def split: option.splits)

lemma tool_annotations_roundtrip: "tool_annotations_from_json (tool_annotations_to_json a) = Some a"
  by (cases a)
    (auto simp: tool_annotations_from_json_def tool_annotations_to_json_def struct_fields_def
      skip_none_def split: option.splits)

lemma tool_annotations_to_json_ne: "tool_annotations_to_json a \<noteq> JNull"
  by (simp add: tool_annotations_to_json_def)

lemma tool_roundtrip: "tool_from_json (tool_to_json t) = Some t"
  by (cases t)
    (auto simp: tool_from_json_def tool_to_json_def struct_fields_def skip_none_def
      tool_annotations_roundtrip tool_annotations_to_json_ne split: option.splits)

text \<open>Where both accessors read a token, they read the same one.\<close>

lemma extract_meta_token:
  assumes "extract_meta params = Some m" and "Option.bind params (\<lambda>p. jget p ''_meta'') = Some mv"
    and "is_object mv"
  shows "m_progress_token m =
    (case extract_progress_token params of Some JNull \<Rightarrow> None | t \<Rightarrow> t)"
  using assms
  by (cases mv)
    (auto simp: extract_meta_def extract_progress_token_def meta_from_json_def struct_fields_def
      de_option_def split: option.splits json.splits)

lemma is_valid_method_distinct: "distinct VALID_METHODS"
  by (simp add: VALID_METHODS_def method_defs)

end
