(* ===== verification/Scope.thy ===== *)
theory Scope
  imports Message
begin

text \<open>
  \<open>src/auth/scope.rs\<close>: the scope enforcer. The \<open>HashSet\<close> of granted scopes is a list without
  duplicates (its order stands for nothing; the router permutes it before it iterates). The
  lemmas characterise what a set of scopes permits, show that granting more scopes never denies
  what was permitted, and relate the method check to the check of a single tool.
\<close>

section \<open>The enforcer\<close>

definition SCOPE_TOOLS_READ :: string where "SCOPE_TOOLS_READ = ''mcp:tools:read''"
definition SCOPE_TOOLS_CALL :: string where "SCOPE_TOOLS_CALL = ''mcp:tools:call''"
definition SCOPE_RESOURCES_READ :: string where "SCOPE_RESOURCES_READ = ''mcp:resources:read''"
definition SCOPE_PROMPTS_READ :: string where "SCOPE_PROMPTS_READ = ''mcp:prompts:read''"
definition SCOPE_ADMIN :: string where "SCOPE_ADMIN = ''mcp:admin''"

text \<open>The literal \<open>"mcp:sampling"\<close> of \<open>check_method\<close>.\<close>

definition SCOPE_SAMPLING :: string where "SCOPE_SAMPLING = ''mcp:sampling''"

lemmas scope_defs =
  SCOPE_TOOLS_READ_def SCOPE_TOOLS_CALL_def SCOPE_RESOURCES_READ_def SCOPE_PROMPTS_READ_def
  SCOPE_ADMIN_def SCOPE_SAMPLING_def

record scope_enforcer =
  granted_scopes :: "string list"
  permissive :: bool

definition enforcer_new :: "string list \<Rightarrow> scope_enforcer" where
  "enforcer_new scopes = \<lparr>granted_scopes = remdups scopes, permissive = False\<rparr>"

definition enforcer_permissive :: scope_enforcer where
  "enforcer_permissive = \<lparr>granted_scopes = [], permissive = True\<rparr>"

definition has_scope :: "scope_enforcer \<Rightarrow> string \<Rightarrow> bool" where
  "has_scope e scope = (permissive e \<or> scope \<in> set (granted_scopes e))"

definition has_scope_prefix :: "scope_enforcer \<Rightarrow> string \<Rightarrow> bool" where
  "has_scope_prefix e p =
     (if permissive e then True
      else list_ex (\<lambda>s. starts_with s p \<or> s = p) (granted_scopes e))"

definition add_scope :: "string \<Rightarrow> scope_enforcer \<Rightarrow> scope_enforcer" where
  "add_scope scope e = e\<lparr>granted_scopes := List.insert scope (granted_scopes e)\<rparr>"

section \<open>Methods\<close>

definition check_method :: "scope_enforcer \<Rightarrow> string \<Rightarrow> (unit, mcp_error) result" where
  "check_method e method =
    (if permissive e then Ok ()
     else if method \<in> {METHOD_INITIALIZE, METHOD_INITIALIZED, METHOD_PING} then Ok ()
     else if method \<in> {METHOD_TOOLS_LIST, METHOD_RESOURCES_LIST, METHOD_PROMPTS_LIST} then
       (if has_scope e SCOPE_TOOLS_READ \<or> has_scope e SCOPE_RESOURCES_READ \<or>
           has_scope e SCOPE_PROMPTS_READ \<or> has_scope e SCOPE_ADMIN
        then Ok ()
        else Err (ScopeDenied (fmt [''Scope required to access '', quoted method,
               ''. Need one of: '', SCOPE_TOOLS_READ, '', '', SCOPE_RESOURCES_READ, '', '',
               SCOPE_PROMPTS_READ])))
     else if method = METHOD_TOOLS_CALL then
       (if has_scope e SCOPE_TOOLS_CALL \<or> has_scope e SCOPE_ADMIN then Ok ()
        else Err (ScopeDenied (fmt [''Scope '', quoted SCOPE_TOOLS_CALL,
               '' is required to invoke tools''])))
     else if method = METHOD_RESOURCES_READ then
       (if has_scope e SCOPE_RESOURCES_READ \<or> has_scope e SCOPE_ADMIN then Ok ()
        else Err (ScopeDenied (fmt [''Scope '', quoted SCOPE_RESOURCES_READ,
               '' is required to read resources''])))
     else if method = METHOD_PROMPTS_GET then
       (if has_scope e SCOPE_PROMPTS_READ \<or> has_scope e SCOPE_ADMIN then Ok ()
        else Err (ScopeDenied (fmt [''Scope '', quoted SCOPE_PROMPTS_READ,
               '' is required to get prompts''])))
     else if method = METHOD_SAMPLING_CREATE then
       (if has_scope e SCOPE_SAMPLING \<or> has_scope e SCOPE_ADMIN then Ok ()
        else Err (ScopeDenied (fmt [''Scope '', quoted SCOPE_SAMPLING,
               '' is required for sampling''])))
     else if method = METHOD_SHUTDOWN then
       (if has_scope e SCOPE_ADMIN then Ok ()
        else Err (ScopeDenied (fmt [''Scope '', quoted SCOPE_ADMIN,
               '' is required to shutdown the gateway''])))
     else Ok ())"

section \<open>Tools\<close>

definition check_tool_access :: "scope_enforcer \<Rightarrow> string \<Rightarrow> (unit, mcp_error) result" where
  "check_tool_access e tool_name =
    (let denied = Err (ScopeDenied (fmt [''Access to tool '', quoted tool_name,
                    '' denied. Scope '', quoted SCOPE_TOOLS_CALL, '' or '', quoted SCOPE_ADMIN,
                    '' is required'']))
     in
     if permissive e then Ok ()
     else if has_scope e SCOPE_ADMIN then Ok ()
     else if has_scope e SCOPE_TOOLS_CALL then Ok ()
     else
       (case splitn2 (CHR '':'') tool_name of
          [p, _] \<Rightarrow>
            if has_scope e (fmt [SCOPE_TOOLS_CALL, '':'', p]) then Ok ()
            else if has_scope e (fmt [SCOPE_TOOLS_CALL, '':'', tool_name]) then Ok ()
            else denied
        | _ \<Rightarrow> denied))"

section \<open>What the checks permit\<close>

lemma set_enforcer_new [simp]: "set (granted_scopes (enforcer_new s)) = set s"
  by (simp add: enforcer_new_def)

lemma check_method_error:
  "check_method e m = Err x \<Longrightarrow> \<exists>t. x = ScopeDenied t"
  by (auto simp: check_method_def split: if_splits)

lemma check_tool_access_error:
  "check_tool_access e t = Err x \<Longrightarrow> \<exists>s. x = ScopeDenied s"
  by (auto simp: check_tool_access_def Let_def split: if_splits list.splits)

text \<open>The scopes any of which opens a method; \<open>None\<close>: no scope is needed.\<close>

definition method_scopes :: "string \<Rightarrow> string set option" where
  "method_scopes m =
    (if m \<in> {METHOD_TOOLS_LIST, METHOD_RESOURCES_LIST, METHOD_PROMPTS_LIST} then
       Some {SCOPE_TOOLS_READ, SCOPE_RESOURCES_READ, SCOPE_PROMPTS_READ, SCOPE_ADMIN}
     else if m = METHOD_TOOLS_CALL then Some {SCOPE_TOOLS_CALL, SCOPE_ADMIN}
     else if m = METHOD_RESOURCES_READ then Some {SCOPE_RESOURCES_READ, SCOPE_ADMIN}
     else if m = METHOD_PROMPTS_GET then Some {SCOPE_PROMPTS_READ, SCOPE_ADMIN}
     else if m = METHOD_SAMPLING_CREATE then Some {SCOPE_SAMPLING, SCOPE_ADMIN}
     else if m = METHOD_SHUTDOWN then Some {SCOPE_ADMIN}
     else None)"

lemma method_scopes_open:
  "m \<in> {METHOD_INITIALIZE, METHOD_INITIALIZED, METHOD_PING} \<Longrightarrow> method_scopes m = None"
  by (elim insertE emptyE) (simp_all add: method_scopes_def method_defs)

lemma check_method_iff:
  "check_method e m = Ok () \<longleftrightarrow>
     permissive e \<or>
     (case method_scopes m of None \<Rightarrow> True | Some S \<Rightarrow> set (granted_scopes e) \<inter> S \<noteq> {})"
proof (cases "permissive e \<or> m \<in> {METHOD_INITIALIZE, METHOD_INITIALIZED, METHOD_PING}")
  case True
  then show ?thesis
  proof
    assume "permissive e"
    then show ?thesis by (simp add: check_method_def)
  next
    assume m: "m \<in> {METHOD_INITIALIZE, METHOD_INITIALIZED, METHOD_PING}"
    show ?thesis by (simp only: method_scopes_open [OF m] check_method_def m if_True) simp
  qed
next
  case False
  then have ne: "permissive e = False"
    "(m \<in> {METHOD_INITIALIZE, METHOD_INITIALIZED, METHOD_PING}) = False"
    by simp_all
  show ?thesis
    unfolding check_method_def method_scopes_def ne if_False simp_thms
      if_distrib [of "\<lambda>r. r = Ok ()"]
      if_distrib [of "case_option True (\<lambda>S. set (granted_scopes e) \<inter> S \<noteq> {})"]
    by (intro if_cong refl) (simp_all add: has_scope_def ne Int_insert_right)
qed

lemma check_tool_access_iff:
  "check_tool_access e t = Ok () \<longleftrightarrow>
     permissive e \<or> SCOPE_ADMIN \<in> set (granted_scopes e) \<or>
     SCOPE_TOOLS_CALL \<in> set (granted_scopes e) \<or>
     (\<exists>p n. t = p @ CHR '':'' # n \<and> CHR '':'' \<notin> set p \<and>
        (fmt [SCOPE_TOOLS_CALL, '':'', p] \<in> set (granted_scopes e) \<or>
         fmt [SCOPE_TOOLS_CALL, '':'', t] \<in> set (granted_scopes e)))"
proof (cases rule: splitn2_cases [of "CHR '':''" t])
  case 1
  then show ?thesis
    by (auto simp: check_tool_access_def has_scope_def Let_def)
next
  case (2 a b)
  have uniq: "(\<exists>p n. t = p @ CHR '':'' # n \<and> CHR '':'' \<notin> set p \<and> (P p \<or> Q)) \<longleftrightarrow> P a \<or> Q" for P Q
    using 2 splitn2_pair by (metis list.inject)
  show ?thesis
    unfolding uniq check_tool_access_def has_scope_def Let_def 2(3) list.case
      if_distrib [of "\<lambda>r. r = Ok ()"]
    by (simp split: if_split)
qed

lemma check_method_mono:
  "\<lbrakk>set (granted_scopes e) \<subseteq> set (granted_scopes e'); permissive e \<Longrightarrow> permissive e';
    check_method e m = Ok ()\<rbrakk> \<Longrightarrow> check_method e' m = Ok ()"
  by (auto simp: check_method_iff split: option.splits)

lemma check_tool_access_mono:
  "\<lbrakk>set (granted_scopes e) \<subseteq> set (granted_scopes e'); permissive e \<Longrightarrow> permissive e';
    check_tool_access e t = Ok ()\<rbrakk> \<Longrightarrow> check_tool_access e' t = Ok ()"
  unfolding check_tool_access_iff by blast

lemma add_scope_grows:
  "set (granted_scopes e) \<subseteq> set (granted_scopes (add_scope s e))"
  "permissive (add_scope s e) = permissive e"
  by (auto simp: add_scope_def)

lemma tools_call_implies_access:
  "check_method e METHOD_TOOLS_CALL = Ok () \<Longrightarrow> check_tool_access e t = Ok ()"
proof -
  assume "check_method e METHOD_TOOLS_CALL = Ok ()"
  moreover have "method_scopes METHOD_TOOLS_CALL = Some {SCOPE_TOOLS_CALL, SCOPE_ADMIN}"
    by (simp add: method_scopes_def method_defs)
  ultimately show ?thesis
    by (auto simp: check_method_iff check_tool_access_iff)
qed


section \<open>Properties\<close>

text \<open>C16: Which scopes open which method: a check passes exactly if the enforcer is permissive, the
  method needs no scope or one of the method's scopes is granted. Otherwise it is a denial; more
  scopes never take a permission away; and whoever may call tools at all may call every tool.\<close>

theorem method_access_table:
  "(check_method e m = Ok () \<longleftrightarrow>
      permissive e \<or>
      (case method_scopes m of None \<Rightarrow> True | Some S \<Rightarrow> set (granted_scopes e) \<inter> S \<noteq> {})) \<and>
   (\<forall>x. check_method e m = Err x \<longrightarrow> error_code x = SCOPE_DENIED) \<and>
   (check_method e m = Ok () \<longrightarrow> check_method (add_scope s e) m = Ok ()) \<and>
   (check_method e METHOD_TOOLS_CALL = Ok () \<longrightarrow> check_tool_access e t = Ok ())"
proof (intro conjI allI impI)
  fix x assume "check_method e m = Err x"
  then show "error_code x = SCOPE_DENIED" using check_method_error by fastforce
next
  assume "check_method e m = Ok ()"
  then show "check_method (add_scope s e) m = Ok ()"
    by (rule check_method_mono [rotated 2]) (simp_all add: add_scope_grows)
qed (simp_all add: check_method_iff tools_call_implies_access)

lemma method_access_table_witness:
  "check_tool_access (enforcer_new [SCOPE_TOOLS_CALL]) ''com.echo:echo'' = Ok () \<and>
   check_method (enforcer_new []) METHOD_PING = Ok () \<and>
   check_method (add_scope SCOPE_ADMIN (enforcer_new [])) METHOD_PING = Ok () \<and>
   (\<exists>x. check_method (enforcer_new []) METHOD_TOOLS_CALL = Err x \<and> error_code x = SCOPE_DENIED)"
proof -
  have "check_method (enforcer_new [SCOPE_TOOLS_CALL]) METHOD_TOOLS_CALL = Ok ()"
    "check_method (enforcer_new []) METHOD_PING = Ok ()"
    "\<not> is_ok (check_method (enforcer_new []) METHOD_TOOLS_CALL)"
    by code_simp+
  then show ?thesis
    using method_access_table [of "enforcer_new [SCOPE_TOOLS_CALL]"]
      method_access_table [of "enforcer_new []" METHOD_PING]
      method_access_table [of "enforcer_new []" METHOD_TOOLS_CALL]
    by (metis is_ok_simps(1) result.exhaust)
qed

end
