(* ===== verification/Registry.thy ===== *)
theory Registry
  imports Message
begin

text \<open>
  \<open>src/gateway/registry.rs\<close>: the tool registry. Its two tables are \<open>tools\<close> (by qualified
  name) and \<open>by_server\<close> (the names each upstream server registered). The read-write lock
  makes every operation atomic, so an interleaving of callers is a list of operations. The
  invariant says that the two tables agree; the lemmas say that a registered name cannot be taken
  over and that dropping a server removes its tools and no others.
\<close>

section \<open>Tool names\<close>

definition MAX_TOOL_NAME_LENGTH :: nat where "MAX_TOOL_NAME_LENGTH = 128"
definition MIN_TOOL_NAME_LENGTH :: nat where "MIN_TOOL_NAME_LENGTH = 1"

definition prefix_char :: "char \<Rightarrow> bool" where
  "prefix_char c = (is_lower c \<or> is_digit c \<or> c = CHR ''-'' \<or> c = CHR ''.'')"

definition name_char :: "char \<Rightarrow> bool" where
  "name_char c = (is_lower c \<or> is_digit c \<or> c = CHR ''_'')"

definition parse_tool_name :: "string \<Rightarrow> bool \<Rightarrow> (string \<times> string, mcp_error) result" where
  "parse_tool_name raw_name enforce_prefix =
    (case splitn2 (CHR '':'') raw_name of
       [part0, part1] \<Rightarrow>
         (let p = trim part0; n = trim part1 in
          if p = [] then Err (RegistryCollision ''Tool prefix cannot be empty'')
          else if n = [] then Err (RegistryCollision ''Tool name within prefix cannot be empty'')
          else if enforce_prefix \<and> \<not> has_char p (CHR ''.'') then
            Err (RegistryCollision (fmt [''Tool prefix '', quoted p,
              '' must contain at least one dot (reverse DNS format, e.g., '',
              quoted ''com.example'', '')'']))
          else if enforce_prefix \<and> \<not> list_all prefix_char p then
            Err (RegistryCollision (fmt [''Tool prefix '', quoted p,
              '' contains invalid characters. Use only lowercase letters, digits, hyphens, and dots.'']))
          else if length n < MIN_TOOL_NAME_LENGTH \<or> MAX_TOOL_NAME_LENGTH < length n then
            Err (RegistryCollision (fmt [''Tool name '', quoted n, '' length must be between '',
              show_nat MIN_TOOL_NAME_LENGTH, '' and '', show_nat MAX_TOOL_NAME_LENGTH,
              '' characters'']))
          else if \<not> list_all name_char n then
            Err (RegistryCollision (fmt [''Tool name '', quoted n,
              '' contains invalid characters. Use only lowercase letters, digits, and underscores.'']))
          else Ok (p, n))
     | _ \<Rightarrow>
         Err (RegistryCollision (fmt [''Tool name '', quoted raw_name,
           '' must use qualified format '', quoted ''prefix:name'', '' (e.g., '',
           quoted ''com.example:search'',
           ''). Underscore-only concatenation is not allowed.''])))"

section \<open>The registry\<close>

record registered_tool =
  qualified_name :: string
  rt_prefix :: string
  rt_name :: string
  rt_tool :: tool
  server_id :: string
  registered_at :: int

record registry =
  tools :: "registered_tool hmap"
  by_server :: "string list hmap"
  enforce_prefix_format :: bool
  allowed_prefixes :: "string list"

definition registry_with_config :: "bool \<Rightarrow> string list \<Rightarrow> registry" where
  "registry_with_config enforce allowed =
     \<lparr>tools = [], by_server = [], enforce_prefix_format = enforce, allowed_prefixes = allowed\<rparr>"

definition registry_new :: registry where
  "registry_new =
     \<lparr>tools = [], by_server = [], enforce_prefix_format = True, allowed_prefixes = []\<rparr>"

definition qualify :: "string \<Rightarrow> string \<Rightarrow> string" where
  "qualify p n = fmt [p, '':'', n]"

definition prefix_not_allowed :: "string \<Rightarrow> string" where
  "prefix_not_allowed p =
     fmt [''Tool prefix '', quoted p, '' is not in the allowed prefixes list'']"

definition name_collision :: "string \<Rightarrow> string \<Rightarrow> string \<Rightarrow> string" where
  "name_collision q owner srv =
     fmt [''Tool name collision: '', quoted q, '' is already registered by server '', quoted owner,
          ''. Rejecting registration from server '', quoted srv,
          ''. This prevents potential tool hijacking attacks.'']"

definition register_tool ::
  "tool \<Rightarrow> string \<Rightarrow> int \<Rightarrow> registry \<Rightarrow> (unit, mcp_error) result \<times> registry" where
  "register_tool t srv now r =
    (case parse_tool_name (t_name t) (enforce_prefix_format r) of
       Err e \<Rightarrow> (Err e, r)
     | Ok (p, n) \<Rightarrow>
         if allowed_prefixes r \<noteq> [] \<and> p \<notin> set (allowed_prefixes r) then
           (Err (RegistryCollision (prefix_not_allowed p)), r)
         else
           (case hm_get (tools r) (qualify p n) of
              Some existing \<Rightarrow>
                (Err (RegistryCollision (name_collision (qualify p n) (server_id existing) srv)), r)
            | None \<Rightarrow>
                (let names = (case hm_get (by_server r) srv of Some ns \<Rightarrow> ns | None \<Rightarrow> []);
                     registered =
                       \<lparr>qualified_name = qualify p n, rt_prefix = p, rt_name = n, rt_tool = t,
                        server_id = srv, registered_at = now\<rparr>
                 in (Ok (), r\<lparr>by_server := hm_insert srv (names @ [qualify p n]) (by_server r),
                              tools := hm_insert (qualify p n) registered (tools r)\<rparr>))))"

definition lookup :: "registry \<Rightarrow> string \<Rightarrow> registered_tool option" where
  "lookup r q = hm_get (tools r) q"

definition lookup_any :: "registry \<Rightarrow> string \<Rightarrow> (registered_tool option, mcp_error) result" where
  "lookup_any r name =
    (case lookup r name of
       Some t \<Rightarrow> Ok (Some t)
     | None \<Rightarrow>
         if has_char name (CHR ''_'') \<and> \<not> has_char name (CHR '':'') then
           Err (RegistryCollision (fmt [''Ambiguous tool name '', quoted name,
             '' uses underscore concatenation without a colon separator. This format is not allowed as it can be exploited for tool name collision attacks. Use the qualified format '',
             quoted ''prefix:name'', '' instead (e.g., '', quoted ''com.example:tool_name'',
             '').'']))
         else Ok None)"

definition list_tools :: "hash_order \<Rightarrow> registry \<Rightarrow> tool list" where
  "list_tools \<pi> r = map rt_tool (hm_values \<pi> (tools r))"

definition list_tools_by_server :: "registry \<Rightarrow> string \<Rightarrow> tool list" where
  "list_tools_by_server r srv =
    (case hm_get (by_server r) srv of
       Some names \<Rightarrow> List.map_filter (\<lambda>q. map_option rt_tool (hm_get (tools r) q)) names
     | None \<Rightarrow> [])"

definition unregister_server :: "string \<Rightarrow> registry \<Rightarrow> nat \<times> registry" where
  "unregister_server srv r =
    (case hm_get (by_server r) srv of
       Some names \<Rightarrow>
         (length names,
          r\<lparr>by_server := hm_remove srv (by_server r),
            tools := fold hm_remove names (tools r)\<rparr>)
     | None \<Rightarrow> (0, r))"

definition registry_count :: "registry \<Rightarrow> nat" where
  "registry_count r = length (tools r)"

definition registry_clear :: "registry \<Rightarrow> registry" where
  "registry_clear r = r\<lparr>tools := [], by_server := []\<rparr>"

section \<open>Runs and the invariant\<close>

datatype registry_op =
  RegisterTool tool string int
| UnregisterServer string
| ClearRegistry

fun registry_step :: "registry_op \<Rightarrow> registry \<Rightarrow> registry" where
  "registry_step (RegisterTool t srv now) r = snd (register_tool t srv now r)"
| "registry_step (UnregisterServer srv) r = snd (unregister_server srv r)"
| "registry_step ClearRegistry r = registry_clear r"

definition entry_ok :: "registry \<Rightarrow> string \<Rightarrow> registered_tool \<Rightarrow> bool" where
  "entry_ok r q t \<longleftrightarrow>
     qualified_name t = q \<and> q = qualify (rt_prefix t) (rt_name t) \<and>
     parse_tool_name (t_name (rt_tool t)) (enforce_prefix_format r) = Ok (rt_prefix t, rt_name t) \<and>
     (allowed_prefixes r = [] \<or> rt_prefix t \<in> set (allowed_prefixes r))"

text \<open>The index lists, for each server, exactly the names it owns, each once.\<close>

definition index_ok :: "registry \<Rightarrow> bool" where
  "index_ok r \<longleftrightarrow>
     (\<forall>q t. lookup r q = Some t \<longrightarrow>
        (\<exists>ns. hm_get (by_server r) (server_id t) = Some ns \<and> q \<in> set ns)) \<and>
     (\<forall>srv ns. hm_get (by_server r) srv = Some ns \<longrightarrow>
        distinct ns \<and> ns \<noteq> [] \<and>
        (\<forall>q \<in> set ns. \<exists>t. lookup r q = Some t \<and> server_id t = srv))"

definition registry_inv :: "registry \<Rightarrow> bool" where
  "registry_inv r \<longleftrightarrow>
     hm_ok (tools r) \<and> hm_ok (by_server r) \<and> index_ok r \<and>
     (\<forall>q t. lookup r q = Some t \<longrightarrow> entry_ok r q t)"

section \<open>Lemmas on names\<close>

lemma lookup_simps [simp]:
  "lookup (registry_with_config b a) q = None" "lookup (registry_clear r) q = None"
  by (simp_all add: lookup_def registry_with_config_def registry_clear_def)

lemma parse_tool_name_Ok:
  "parse_tool_name raw b = Ok (p, n) \<longleftrightarrow>
     (\<exists>x y. raw = x @ CHR '':'' # y \<and> CHR '':'' \<notin> set x \<and> p = trim x \<and> n = trim y) \<and>
     p \<noteq> [] \<and> (b \<longrightarrow> CHR ''.'' \<in> set p \<and> list_all prefix_char p) \<and>
     1 \<le> length n \<and> length n \<le> 128 \<and> list_all name_char n"
proof (cases rule: splitn2_cases [of "CHR '':''" raw])
  case 1
  then have "\<nexists>x y. raw = x @ CHR '':'' # y" by auto
  with 1(2) show ?thesis by (simp add: parse_tool_name_def)
next
  case (2 x0 y0)
  have uniq: "(\<exists>x y. raw = x @ CHR '':'' # y \<and> CHR '':'' \<notin> set x \<and> p = trim x \<and> n = trim y) \<longleftrightarrow>
      p = trim x0 \<and> n = trim y0"
    using 2 splitn2_pair by (metis list.inject)
  show ?thesis
    unfolding uniq parse_tool_name_def 2(3) list.case Let_def
    by (auto simp: has_char_def MIN_TOOL_NAME_LENGTH_def MAX_TOOL_NAME_LENGTH_def Suc_le_eq
        simp del: fmt_def split: if_splits)
qed

lemma parse_tool_name_error: "parse_tool_name raw b = Err e \<Longrightarrow> \<exists>m. e = RegistryCollision m"
  by (auto simp: parse_tool_name_def Let_def split: list.splits if_splits)

lemma name_char_no_colon: "list_all name_char n \<Longrightarrow> CHR '':'' \<notin> set n"
  by (auto simp: list_all_iff name_char_def is_lower_def is_digit_def)

lemma parse_prefix_no_colon: "parse_tool_name raw b = Ok (p, n) \<Longrightarrow> CHR '':'' \<notin> set p"
  using set_trim by (fastforce simp: parse_tool_name_Ok)

lemma qualify_eq: "qualify p n = p @ CHR '':'' # n"
  by (simp add: qualify_def fmt_def)

lemma qualify_inject:
  assumes "CHR '':'' \<notin> set p" "CHR '':'' \<notin> set p'" "qualify p n = qualify p' n'"
  shows "p = p' \<and> n = n'"
  using assms splitn2_Cons by (metis qualify_eq list.inject)

lemma parsed_name_trimmed:
  assumes "list_all name_char n"
  shows "trim n = n"
proof -
  have "\<not> prefix w n \<and> \<not> suffix w n" if "w \<in> set ws_chars" for w
  proof -
    have "hd w \<in> set w \<and> \<not> name_char (hd w) \<and> (\<exists>c \<in> set w. \<not> name_char c)"
      using that by (auto simp: ws_chars_def name_char_def is_lower_def is_digit_def)
    then show ?thesis
      using assms by (auto simp: list_all_iff prefix_def suffix_def)
  qed
  then show ?thesis by (intro trim_trimmed_id) (simp add: trimmed_def)
qed

text \<open>Parsing the name the registry stores gives its two parts back.\<close>

lemma parse_qualified:
  assumes "parse_tool_name raw b = Ok (p, n)"
  shows "parse_tool_name (qualify p n) b = Ok (p, n)"
proof -
  from assms have n: "list_all name_char n" and "trim p = p"
    by (auto simp: parse_tool_name_Ok)
  with assms parse_prefix_no_colon [OF assms] parsed_name_trimmed [OF n]
  show ?thesis
    unfolding parse_tool_name_Ok qualify_eq by metis
qed

section \<open>Each operation keeps the invariant\<close>

lemma register_tool_cases:
  assumes "register_tool t srv now r = (res, r')"
  obtains (rejected) m where "res = Err (RegistryCollision m)" "r' = r"
  | (registered) p n ns where "res = Ok ()"
      "parse_tool_name (t_name t) (enforce_prefix_format r) = Ok (p, n)"
      "allowed_prefixes r = [] \<or> p \<in> set (allowed_prefixes r)"
      "lookup r (qualify p n) = None"
      "ns = (case hm_get (by_server r) srv of Some ns \<Rightarrow> ns | None \<Rightarrow> [])"
      "r' = r\<lparr>by_server := hm_insert srv (ns @ [qualify p n]) (by_server r),
              tools := hm_insert (qualify p n)
                \<lparr>qualified_name = qualify p n, rt_prefix = p, rt_name = n, rt_tool = t,
                 server_id = srv, registered_at = now\<rparr> (tools r)\<rparr>"
proof (cases "parse_tool_name (t_name t) (enforce_prefix_format r)")
  case (Err e)
  with parse_tool_name_error [OF this] obtain m where "e = RegistryCollision m" by blast
  with Err assms show ?thesis
    by (auto intro: rejected [of m] simp: register_tool_def)
next
  case (Ok pn)
  obtain p n where pn: "pn = (p, n)" by force
  consider (a) "allowed_prefixes r \<noteq> [] \<and> p \<notin> set (allowed_prefixes r)"
    | (b) t' where "allowed_prefixes r = [] \<or> p \<in> set (allowed_prefixes r)"
        "hm_get (tools r) (qualify p n) = Some t'"
    | (c) "allowed_prefixes r = [] \<or> p \<in> set (allowed_prefixes r)"
        "hm_get (tools r) (qualify p n) = None"
    by force
  then show ?thesis
  proof cases
    case a
    then show ?thesis
      using Ok pn assms
      by (intro rejected [of "prefix_not_allowed p"]) (simp_all add: register_tool_def)
  next
    case b
    then show ?thesis
      using Ok pn assms
      by (intro rejected [of "name_collision (qualify p n) (server_id t') srv"])
        (auto simp: register_tool_def)
  next
    case c
    then have neg: "\<not> (allowed_prefixes r \<noteq> [] \<and> p \<notin> set (allowed_prefixes r))" by blast
    show ?thesis
      by (rule registered [OF _ Ok [unfolded pn] c(1) c(2) [folded lookup_def] refl])
        (use assms in \<open>simp_all add: register_tool_def Ok pn neg c(2) Let_def\<close>)
  qed
qed

lemma registry_inv_init: "registry_inv (registry_with_config b a)"
  by (simp add: registry_inv_def index_ok_def lookup_def registry_with_config_def)

lemma register_tool_index:
  assumes "index_ok r" "lookup r q = None" "server_id t = srv"
    "ns = (case hm_get (by_server r) srv of Some ns \<Rightarrow> ns | None \<Rightarrow> [])"
    "r' = r\<lparr>by_server := hm_insert srv (ns @ [q]) (by_server r), tools := hm_insert q t (tools r)\<rparr>"
  shows "index_ok r'"
proof -
  have old: "\<And>srv ns. hm_get (by_server r) srv = Some ns \<Longrightarrow>
      distinct ns \<and> ns \<noteq> [] \<and> (\<forall>q \<in> set ns. \<exists>t. lookup r q = Some t \<and> server_id t = srv)"
    and owned: "\<And>q t. lookup r q = Some t \<Longrightarrow>
      \<exists>ns. hm_get (by_server r) (server_id t) = Some ns \<and> q \<in> set ns"
    using assms(1) by (auto simp: index_ok_def)
  have ns: "distinct ns \<and> q \<notin> set ns \<and> (\<forall>q \<in> set ns. \<exists>t. lookup r q = Some t \<and> server_id t = srv)"
    using old [of srv] assms(2,4) by (cases "hm_get (by_server r) srv") auto
  have lk: "lookup r' x = (if x = q then Some t else lookup r x)" for x
    by (simp add: lookup_def assms(5))
  have bs: "hm_get (by_server r') x = (if x = srv then Some (ns @ [q]) else hm_get (by_server r) x)" for x
    by (simp add: assms(5))
  show ?thesis
    unfolding index_ok_def lk bs
  proof (intro conjI allI impI, goal_cases)
    case (1 x t')
    then show ?case using owned [of x t'] assms(3,4) by (auto split: if_splits)
  next
    case (2 s xs)
    then show ?case using ns old [of s xs] by (auto split: if_splits)
  next
    case (3 s xs)
    then show ?case using old [of s xs] by (auto split: if_splits)
  next
    case (4 s xs)
    then show ?case using ns old [of s xs] assms(2,3) by (fastforce split: if_splits)
  qed
qed

lemma register_tool_inv:
  assumes "registry_inv r"
  shows "registry_inv (snd (register_tool t srv now r))"
proof -
  obtain res r' where R: "register_tool t srv now r = (res, r')" by force
  then show ?thesis
  proof (cases rule: register_tool_cases)
    case (registered p n ns)
    then have "index_ok r'"
      using register_tool_index assms by (simp add: registry_inv_def)
    moreover have "\<forall>q t. lookup r' q = Some t \<longrightarrow> entry_ok r' q t"
      using assms registered by (auto simp: registry_inv_def lookup_def entry_ok_def)
    ultimately show ?thesis
      using assms registered R by (simp add: registry_inv_def)
  qed (use assms R in simp)
qed

lemma unregister_lookup:
  assumes "registry_inv r"
  shows "lookup (snd (unregister_server srv r)) q =
    (case lookup r q of Some t \<Rightarrow> if server_id t = srv then None else Some t | None \<Rightarrow> None)"
proof (cases "hm_get (by_server r) srv")
  case None
  then have "lookup r q = Some t \<Longrightarrow> server_id t \<noteq> srv" for t
    using assms by (force simp: registry_inv_def index_ok_def)
  with None show ?thesis
    by (auto simp: unregister_server_def split: option.split)
next
  case (Some ns)
  then have "q \<in> set ns \<longleftrightarrow> (\<exists>t. lookup r q = Some t \<and> server_id t = srv)"
    using assms unfolding registry_inv_def index_ok_def by fastforce
  with Some show ?thesis
    by (auto simp: unregister_server_def lookup_def hm.get_dels split: option.split)
qed

lemma unregister_by_server:
  "hm_get (by_server (snd (unregister_server srv r))) s =
     (if s = srv then None else hm_get (by_server r) s)"
  by (auto simp: unregister_server_def split: option.split)

lemma unregister_inv:
  assumes "registry_inv r"
  shows "registry_inv (snd (unregister_server srv r))"
proof -
  let ?r = "snd (unregister_server srv r)"
  have cfg: "enforce_prefix_format ?r = enforce_prefix_format r"
      "allowed_prefixes ?r = allowed_prefixes r"
    and ok: "hm_ok (tools ?r) \<and> hm_ok (by_server ?r)"
    using assms by (auto simp: unregister_server_def registry_inv_def hm_ok_removes split: option.split)
  have "index_ok ?r"
    using assms unfolding registry_inv_def index_ok_def unregister_by_server unregister_lookup [OF assms]
    by (fastforce split: option.splits if_splits)
  moreover have "\<forall>q t. lookup ?r q = Some t \<longrightarrow> entry_ok ?r q t"
    using assms unfolding unregister_lookup [OF assms] registry_inv_def entry_ok_def cfg
    by (auto split: option.splits if_splits)
  ultimately show ?thesis using ok by (simp add: registry_inv_def)
qed

lemma clear_inv: "registry_inv (registry_clear r)"
  by (simp add: registry_inv_def index_ok_def) (simp add: registry_clear_def)

interpretation reg: machine "registry_with_config b a" registry_step registry_inv
proof (unfold_locales, rule registry_inv_init)
  show "registry_inv (registry_step op r)" if "registry_inv r" for r op
    using that by (cases op) (simp_all add: register_tool_inv unregister_inv clear_inv)
qed

section \<open>Properties\<close>

text \<open>C10: Whatever the servers register, unregister and clear, in whatever order, the two tables
  of the registry agree: every entry is stored under \<open>prefix:name\<close> as parsed from the tool's own
  name, with an allowed prefix, and the index of each server lists exactly the names it owns.\<close>

theorem registry_consistent:
  "registry_inv (run registry_step ops (registry_with_config enforce allowed))"
  by (rule reg.inv_run)

text \<open>C11: A registered name cannot be taken over: as long as its owner is not unregistered and the
  registry is not cleared, the name keeps resolving to the same tool of the same server, whatever
  other servers try to register.\<close>

theorem registry_no_hijack:
  assumes "lookup (run registry_step ops (registry_with_config enforce allowed)) q = Some t"
    and "UnregisterServer (server_id t) \<notin> set ops'" "ClearRegistry \<notin> set ops'"
  shows "lookup (run registry_step (ops @ ops') (registry_with_config enforce allowed)) q = Some t"
proof -
  have "lookup (registry_step x r) q = Some t"
    if x: "x \<in> set ops'" and "registry_inv r" and l: "lookup r q = Some t" for x r
  proof (cases x)
    case (RegisterTool u srv now)
    obtain res r' where R: "register_tool u srv now r = (res, r')" by force
    then show ?thesis
      by (cases rule: register_tool_cases) (use l RegisterTool R in \<open>auto simp: lookup_def\<close>)
  qed (use that assms in \<open>auto simp: unregister_lookup\<close>)
  then show ?thesis
    using reg.stable_run [where P = "\<lambda>r. lookup r q = Some t", OF reg.inv_run assms(1)]
    by simp
qed

text \<open>Two tools for the witnesses below.\<close>

definition sample_tool :: "string \<Rightarrow> tool" where
  "sample_tool n = \<lparr>t_name = n, t_description = None, t_input_schema = JNull, t_annotations = None\<rparr>"

lemma registry_no_hijack_witness:
  "(let attack = [RegisterTool (sample_tool ''com.a:f'') ''evil'' 1, UnregisterServer ''evil''];
        r = run registry_step (RegisterTool (sample_tool ''com.a:f'') ''good'' 0 # attack)
              (registry_with_config True [])
    in map_option server_id (lookup r ''com.a:f'')) = Some ''good''"
proof -
  let ?ops = "[RegisterTool (sample_tool ''com.a:f'') ''good'' 0]"
  let ?attack = "[RegisterTool (sample_tool ''com.a:f'') ''evil'' 1, UnregisterServer ''evil'']"
  let ?r0 = "run registry_step ?ops (registry_with_config True [])"
  have "map_option server_id (lookup ?r0 ''com.a:f'') = Some ''good''"
    by code_simp
  then obtain t where t: "lookup ?r0 ''com.a:f'' = Some t" "server_id t = ''good''" by blast
  have "lookup (run registry_step (?ops @ ?attack) (registry_with_config True [])) ''com.a:f'' = Some t"
    by (rule registry_no_hijack [OF t(1)]) (simp_all add: t(2))
  with t(2) show ?thesis by (simp add: Let_def)
qed

text \<open>C12: Unregistering a server removes the tools it owns and no others, and the number it reports
  is the number of names it owned.\<close>

theorem unregister_exact:
  assumes "r = run registry_step ops (registry_with_config enforce allowed)"
    and "unregister_server srv r = (k, r')"
  shows "lookup r' q = (case lookup r q of
             Some t \<Rightarrow> if server_id t = srv then None else Some t | None \<Rightarrow> None) \<and>
         k = card {q. \<exists>t. lookup r q = Some t \<and> server_id t = srv} \<and>
         list_tools_by_server r' srv = []"
proof -
  have inv: "registry_inv r" using assms(1) by (simp add: reg.inv_run)
  have r': "r' = snd (unregister_server srv r)" by (simp add: assms(2))
  have "k = card {q. \<exists>t. lookup r q = Some t \<and> server_id t = srv}"
  proof (cases "hm_get (by_server r) srv")
    case None
    then have "{q. \<exists>t. lookup r q = Some t \<and> server_id t = srv} = {}"
      using inv by (force simp: registry_inv_def index_ok_def)
    moreover have "k = 0" using None assms(2) by (simp add: unregister_server_def)
    ultimately show ?thesis by (simp only: card.empty)
  next
    case (Some ns)
    then have "{q. \<exists>t. lookup r q = Some t \<and> server_id t = srv} = set ns" and "distinct ns"
      using inv unfolding registry_inv_def index_ok_def by fastforce+
    then show ?thesis using Some assms(2) by (auto simp: unregister_server_def distinct_card)
  qed
  moreover have "hm_get (by_server r') srv = None"
    by (simp add: r' unregister_by_server)
  ultimately show ?thesis
    unfolding r' by (simp add: unregister_lookup [OF inv] list_tools_by_server_def)
qed

lemma unregister_exact_witness:
  "(let r = run registry_step [RegisterTool (sample_tool ''com.a:f'') ''s1'' 0,
              RegisterTool (sample_tool ''com.b:g'') ''s2'' 1] (registry_with_config True []);
        (k, r') = unregister_server ''s1'' r
    in k = card {q. \<exists>t. lookup r q = Some t \<and> server_id t = ''s1''})"
proof -
  let ?ops = "[RegisterTool (sample_tool ''com.a:f'') ''s1'' 0,
              RegisterTool (sample_tool ''com.b:g'') ''s2'' 1]"
  obtain k r' where u: "unregister_server ''s1''
      (run registry_step ?ops (registry_with_config True [])) = (k, r')" by force
  then show ?thesis
    using unregister_exact [OF refl u] by (simp only: Let_def u prod.case)
qed

text \<open>A successful registration makes the tool callable under its qualified name, attributed
  to the registering server, and changes no other name; a rejected one changes nothing.\<close>

theorem register_tool_effect:
  assumes "register_tool t srv now r = (res, r')"
  shows "case res of
      Err e \<Rightarrow> r' = r \<and> (\<exists>m. e = RegistryCollision m)
    | Ok _ \<Rightarrow> \<exists>p n. parse_tool_name (t_name t) (enforce_prefix_format r) = Ok (p, n) \<and>
        lookup r (qualify p n) = None \<and>
        lookup_any r' (qualify p n) = Ok (Some \<lparr>qualified_name = qualify p n, rt_prefix = p,
          rt_name = n, rt_tool = t, server_id = srv, registered_at = now\<rparr>) \<and>
        (\<forall>q. q \<noteq> qualify p n \<longrightarrow> lookup r' q = lookup r q)"
  using assms
  by (cases rule: register_tool_cases) (auto simp: lookup_any_def lookup_def)

lemma register_tool_effect_witness:
  "\<exists>p n. parse_tool_name '' com.a : f'' True = Ok (p, n) \<and> lookup registry_new (qualify p n) = None"
proof -
  obtain res r' where R:
    "register_tool (sample_tool '' com.a : f'') ''s1'' 0 registry_new = (res, r')" by force
  moreover have "is_ok (fst (register_tool (sample_tool '' com.a : f'') ''s1'' 0 registry_new))"
    by code_simp
  ultimately obtain u where "res = Ok u" by (auto simp: is_ok_iff)
  with register_tool_effect [OF R] show ?thesis
    by (auto simp: sample_tool_def registry_new_def)
qed

text \<open>\<open>lookup_any\<close> never resolves a name without a colon: with an underscore it is an error,
  without one it is unknown, whatever has been registered. (So bare names, which the comment on
  the function promises, do not resolve.)\<close>

theorem lookup_any_bare:
  assumes "CHR '':'' \<notin> set name"
  shows "\<exists>m. lookup_any (run registry_step ops (registry_with_config enforce allowed)) name =
     (if CHR ''_'' \<in> set name then Err (RegistryCollision m) else Ok None)"
proof -
  let ?r = "run registry_step ops (registry_with_config enforce allowed)"
  have "entry_ok ?r name t" if "lookup ?r name = Some t" for t
    using reg.inv_run that unfolding registry_inv_def by blast
  then have "lookup ?r name = None"
    using assms by (cases "lookup ?r name") (auto simp: entry_ok_def qualify_eq)
  then show ?thesis
    using assms by (auto simp: lookup_any_def has_char_def)
qed

lemma lookup_any_bare_witness:
  "\<exists>m. lookup_any (run registry_step [RegisterTool (sample_tool ''com.a:f'') ''s'' 0]
     (registry_with_config True [])) ''f'' =
   (if CHR ''_'' \<in> set ''f'' then Err (RegistryCollision m) else Ok None)"
  by (rule lookup_any_bare) simp

text \<open>C33: What the strict name check accepts is exactly \<open>prefix:name\<close>, split at the first colon,
  with, after trimming, a prefix over lower-case letters, digits, hyphens and dots with at least
  one dot, and a name of 1 to 128 lower-case letters, digits and underscores.\<close>

theorem parse_tool_name_strict:
  "parse_tool_name raw True = Ok (p, n) \<longleftrightarrow>
     (\<exists>x y. raw = x @ CHR '':'' # y \<and> CHR '':'' \<notin> set x \<and> p = trim x \<and> n = trim y \<and>
        CHR ''.'' \<in> set p \<and> list_all prefix_char p \<and>
        n \<noteq> [] \<and> length n \<le> 128 \<and> list_all name_char n)"
  by (auto simp: parse_tool_name_Ok Suc_le_eq)

end
