(* ===== verification/Session.thy ===== *)
theory Session
  imports Json
begin

text \<open>
  \<open>src/session/state.rs\<close>: sessions, context locks and the in-memory session manager. The new
  session identifier (a version 4 UUID) and the clock readings are arguments of the operations.
  The trait \<open>SessionManager\<close> is the locale \<open>session_manager\<close>, whose laws are what its callers
  rely on; the in-memory manager is its interpretation.
\<close>

section \<open>Sessions\<close>

datatype visibility = VPublic | VPrivate | VInternal

fun visibility_as_str :: "visibility \<Rightarrow> string" where
  "visibility_as_str VPublic = ''public''"
| "visibility_as_str VPrivate = ''private''"
| "visibility_as_str VInternal = ''internal''"

record context_scope =
  context_type :: string
  cs_identifier :: string
  cs_visibility :: visibility

record context_access =
  ca_scope :: context_scope
  ca_timestamp :: int
  ca_method :: string

record tool_call_record =
  tc_tool_name :: string
  tc_arguments :: json
  tc_timestamp :: int

record session =
  session_id :: string
  s_principal :: "string option"
  locked_context :: "context_scope option"
  accessed_contexts :: "context_access list"
  tool_calls :: "tool_call_record list"
  created_at :: int
  last_activity :: int

datatype access_check_result = Allow | Deny (deny_reason: string) (locked_to: context_scope)

datatype session_error = SessNotFound string | SessLocked string | SessStoreError string

fun session_error_text :: "session_error \<Rightarrow> string" where
  "session_error_text (SessNotFound m) = fmt [''Session not found: '', m]"
| "session_error_text (SessLocked m) = fmt [''Session is locked: '', m]"
| "session_error_text (SessStoreError m) = fmt [''Session store error: '', m]"

section \<open>The in-memory session manager\<close>

type_synonym sessions = "session hmap"

definition create_session ::
  "string \<Rightarrow> int \<Rightarrow> int \<Rightarrow> string option \<Rightarrow> sessions \<Rightarrow> (session, session_error) result \<times> sessions" where
  "create_session uuid now1 now2 p ss =
    (let s = \<lparr>session_id = uuid, s_principal = p, locked_context = None, accessed_contexts = [],
              tool_calls = [], created_at = now1, last_activity = now2\<rparr>
     in (Ok s, hm_insert (session_id s) s ss))"

definition get_session :: "sessions \<Rightarrow> string \<Rightarrow> (session option, session_error) result" where
  "get_session ss sid = Ok (hm_get ss sid)"

definition lock_context ::
  "string \<Rightarrow> context_scope \<Rightarrow> int \<Rightarrow> sessions \<Rightarrow> (unit, session_error) result \<times> sessions" where
  "lock_context sid scope now ss =
    (case hm_get ss sid of
       None \<Rightarrow> (Err (SessNotFound sid), ss)
     | Some s \<Rightarrow>
         (Ok (), hm_insert sid (s\<lparr>locked_context := Some scope, last_activity := now\<rparr>) ss))"

definition lock_reason :: "context_scope \<Rightarrow> context_scope \<Rightarrow> string" where
  "lock_reason locked scope =
     fmt [''Session is locked to '', visibility_as_str (cs_visibility locked), '' context '',
          quoted (cs_identifier locked), ''. Access to '', visibility_as_str (cs_visibility scope),
          '' context '', quoted (cs_identifier scope), '' is denied to prevent prompt injection.'']"

definition check_context_access ::
  "sessions \<Rightarrow> string \<Rightarrow> context_scope \<Rightarrow> (access_check_result, session_error) result" where
  "check_context_access ss sid scope =
    (case hm_get ss sid of
       None \<Rightarrow> Err (SessNotFound sid)
     | Some s \<Rightarrow>
         (case locked_context s of
            Some locked \<Rightarrow>
              if locked \<noteq> scope \<and> cs_visibility locked \<noteq> cs_visibility scope
              then Ok (Deny (lock_reason locked scope) locked)
              else Ok Allow
          | None \<Rightarrow> Ok Allow))"

definition log_tool_call ::
  "string \<Rightarrow> tool_call_record \<Rightarrow> int \<Rightarrow> sessions \<Rightarrow> (unit, session_error) result \<times> sessions" where
  "log_tool_call sid rec now ss =
    (case hm_get ss sid of
       None \<Rightarrow> (Err (SessNotFound sid), ss)
     | Some s \<Rightarrow>
         (Ok (), hm_insert sid (s\<lparr>tool_calls := tool_calls s @ [rec], last_activity := now\<rparr>) ss))"

definition terminate_session :: "string \<Rightarrow> sessions \<Rightarrow> (unit, session_error) result \<times> sessions" where
  "terminate_session sid ss = (Ok (), hm_remove sid ss)"

section \<open>The trait\<close>

text \<open>
  What a caller of \<open>dyn SessionManager\<close> relies on. The lock of a session is seen only through
  \<open>check\<close>, so the contract speaks about an observation \<open>locked\<close> of the state: the context a
  session is locked to, \<open>None\<close> for a session that does not exist.
\<close>

locale session_manager =
  fixes empty :: "'m"
    and create :: "string \<Rightarrow> int \<Rightarrow> int \<Rightarrow> string option \<Rightarrow> 'm \<Rightarrow> (session, session_error) result \<times> 'm"
    and lock :: "string \<Rightarrow> context_scope \<Rightarrow> int \<Rightarrow> 'm \<Rightarrow> (unit, session_error) result \<times> 'm"
    and check :: "'m \<Rightarrow> string \<Rightarrow> context_scope \<Rightarrow> (access_check_result, session_error) result"
    and log :: "string \<Rightarrow> tool_call_record \<Rightarrow> int \<Rightarrow> 'm \<Rightarrow> (unit, session_error) result \<times> 'm"
    and terminate :: "string \<Rightarrow> 'm \<Rightarrow> (unit, session_error) result \<times> 'm"
    and locked :: "'m \<Rightarrow> string \<Rightarrow> context_scope option option"
  assumes locked_empty: "locked empty sid = None"
    and locked_create: "locked (snd (create u n1 n2 p m)) sid = (if sid = u then Some None else locked m sid)"
    and locked_lock: "locked (snd (lock s c n m)) sid =
          (if sid = s \<and> locked m s \<noteq> None then Some (Some c) else locked m sid)"
    and locked_log: "locked (snd (log s r n m)) sid = locked m sid"
    and locked_terminate: "locked (snd (terminate s m)) sid = (if sid = s then None else locked m sid)"
    and check_unknown: "locked m sid = None \<Longrightarrow> check m sid c = Err (SessNotFound sid)"
    and check_unlocked: "locked m sid = Some None \<Longrightarrow> check m sid c = Ok Allow"
    and check_locked: "locked m sid = Some (Some l) \<Longrightarrow>
          check m sid c = (if cs_visibility l = cs_visibility c then Ok Allow
                           else Ok (Deny (lock_reason l c) l))"
begin

lemma check_empty: "check empty sid c = Err (SessNotFound sid)"
  by (rule check_unknown) (rule locked_empty)

lemma check_deny_iff:
  "(\<exists>r l. check m sid c = Ok (Deny r l)) \<longleftrightarrow>
     (\<exists>l. locked m sid = Some (Some l) \<and> cs_visibility l \<noteq> cs_visibility c)"
proof (cases "locked m sid")
  case None
  then show ?thesis by (simp add: check_unknown)
next
  case (Some o')
  then show ?thesis
    by (cases o') (auto simp: check_unlocked check_locked)
qed

text \<open>A check never loses the session: it fails only for a session that does not exist.\<close>

lemma check_Err_iff: "(\<exists>e. check m sid c = Err e) \<longleftrightarrow> locked m sid = None"
proof (cases "locked m sid")
  case None
  then show ?thesis by (simp add: check_unknown)
next
  case (Some o')
  then show ?thesis
    by (cases o') (auto simp: check_unlocked check_locked)
qed

end

definition locked_of :: "sessions \<Rightarrow> string \<Rightarrow> context_scope option option" where
  "locked_of ss sid = map_option locked_context (hm_get ss sid)"

lemmas session_op_defs =
  create_session_def get_session_def lock_context_def check_context_access_def log_tool_call_def
  terminate_session_def Let_def

interpretation mem: session_manager "[]" create_session lock_context check_context_access
  log_tool_call terminate_session locked_of
  by unfold_locales
    (auto simp: session_op_defs locked_of_def split: option.splits)

section \<open>Runs\<close>

datatype session_op =
  OpCreate string int int "string option"
| OpLock string context_scope int
| OpLog string tool_call_record int
| OpTerminate string

fun session_step :: "session_op \<Rightarrow> sessions \<Rightarrow> sessions" where
  "session_step (OpCreate u n1 n2 p) ss = snd (create_session u n1 n2 p ss)"
| "session_step (OpLock sid c n) ss = snd (lock_context sid c n ss)"
| "session_step (OpLog sid r n) ss = snd (log_tool_call sid r n ss)"
| "session_step (OpTerminate sid) ss = snd (terminate_session sid ss)"

text \<open>Every session is stored under its own identifier, and no operation records a context
  access: the field is declared but nothing in the program ever fills it.\<close>

definition sessions_inv :: "sessions \<Rightarrow> bool" where
  "sessions_inv ss \<longleftrightarrow> hm_ok ss \<and>
     (\<forall>sid s. hm_get ss sid = Some s \<longrightarrow> session_id s = sid \<and> accessed_contexts s = [])"

lemma sessions_inv_step: "sessions_inv ss \<Longrightarrow> sessions_inv (session_step x ss)"
  by (cases x) (auto simp: sessions_inv_def session_op_defs split: option.splits)

interpretation sess: machine "[]" session_step sessions_inv
  by unfold_locales (simp_all add: sessions_inv_step, simp add: sessions_inv_def)

text \<open>The operations that touch the lock of a session.\<close>

fun op_unlocks :: "string \<Rightarrow> session_op \<Rightarrow> bool" where
  "op_unlocks sid (OpCreate u _ _ _) = (u = sid)"
| "op_unlocks sid (OpLock s _ _) = (s = sid)"
| "op_unlocks sid (OpLog _ _ _) = False"
| "op_unlocks sid (OpTerminate s) = (s = sid)"

lemma locked_of_step:
  "\<not> op_unlocks sid x \<Longrightarrow> locked_of (session_step x ss) sid = locked_of ss sid"
  by (cases x) (auto simp: mem.locked_create mem.locked_lock mem.locked_log mem.locked_terminate)

section \<open>Properties\<close>

text \<open>C28: In every reachable state of the session manager, an access is denied exactly when the
  session is locked and the locked context has another visibility; a check fails exactly for an
  unknown session; and every session is filed under its own identifier.\<close>

theorem session_access_decision:
  fixes ops :: "session_op list"
  defines "ss \<equiv> run session_step ops []"
  shows "((\<exists>r l. check_context_access ss sid c = Ok (Deny r l)) \<longleftrightarrow>
           (\<exists>l. locked_of ss sid = Some (Some l) \<and> cs_visibility l \<noteq> cs_visibility c)) \<and>
         ((\<exists>e. check_context_access ss sid c = Err e) \<longleftrightarrow> hm_get ss sid = None) \<and>
         sessions_inv ss"
  using mem.check_deny_iff mem.check_Err_iff sess.inv_run
  by (simp add: ss_def locked_of_def)

text \<open>C29: Once a session is locked to a context, every access to a context of another visibility
  is denied, after any further operations, until the session itself is terminated, created again
  or locked again.\<close>

theorem session_lock_persists:
  assumes "lock_context sid l now ss = (Ok (), ss')"
    and "\<forall>x \<in> set ops. \<not> op_unlocks sid x"
    and "cs_visibility c \<noteq> cs_visibility l"
  shows "check_context_access (run session_step ops ss') sid c = Ok (Deny (lock_reason l c) l)"
proof -
  have "locked_of ss sid \<noteq> None"
    using assms(1) by (auto simp: lock_context_def locked_of_def split: option.splits)
  then have "locked_of ss' sid = Some (Some l)"
    using mem.locked_lock [of sid l now ss sid] assms(1) by simp
  with assms(2) have "locked_of (run session_step ops ss') sid = Some (Some l)"
    by (induction ops arbitrary: ss') (auto simp: locked_of_step)
  with assms(3) show ?thesis by (simp add: mem.check_locked)
qed

lemma session_lock_persists_witness:
  "\<exists>ss'. check_context_access (run session_step [OpTerminate ''t''] ss') ''s''
     \<lparr>context_type = ''repo'', cs_identifier = ''o/p'', cs_visibility = VPrivate\<rparr> =
     Ok (Deny (lock_reason \<lparr>context_type = ''repo'', cs_identifier = ''o/q'', cs_visibility = VPublic\<rparr>
           \<lparr>context_type = ''repo'', cs_identifier = ''o/p'', cs_visibility = VPrivate\<rparr>)
         \<lparr>context_type = ''repo'', cs_identifier = ''o/q'', cs_visibility = VPublic\<rparr>)"
proof -
  let ?l = "\<lparr>context_type = ''repo'', cs_identifier = ''o/q'', cs_visibility = VPublic\<rparr>"
  obtain ss' where "lock_context ''s'' ?l 1 (snd (create_session ''s'' 0 0 None [])) = (Ok (), ss')"
    unfolding lock_context_def create_session_def by (auto simp: Let_def)
  then show ?thesis
    by (intro exI [of _ ss'] session_lock_persists) simp_all
qed

text \<open>A lock does not stop an access of the same visibility: a session locked to one private
  context may read any other private context. (The trait's comment says that other contexts are
  denied, "especially private ones".)\<close>

theorem session_lock_same_visibility:
  assumes "cs_visibility c = cs_visibility l"
  shows "let ss = snd (create_session sid n1 n2 p ss0) in
         check_context_access (snd (lock_context sid l n3 ss)) sid c = Ok Allow"
  using assms
  by (simp add: Let_def mem.check_locked mem.locked_lock mem.locked_create)

lemma session_lock_same_visibility_witness:
  "let ss = snd (create_session ''s'' 0 0 None []) in
   check_context_access
     (snd (lock_context ''s'' \<lparr>context_type = ''repo'', cs_identifier = ''a'', cs_visibility = VPrivate\<rparr> 0 ss))
     ''s'' \<lparr>context_type = ''repo'', cs_identifier = ''b'', cs_visibility = VPrivate\<rparr> = Ok Allow"
  by (rule session_lock_same_visibility) simp

end
