(* ===== verification/Schema.thy ===== *)
theory Schema
  imports Errors Sample_Codec
begin

text \<open>
  \<open>src/protocol/schema.rs\<close>: the cache of compiled schema validators. The crate \<open>jsonschema\<close>
  is a parameter: what \<open>validator_for\<close> and \<open>validate\<close> return. The key of the cache is the text
  of the schema cut at 1024 bytes; slicing a \<open>str\<close> inside a character panics, which the model
  shows as \<open>None\<close>.
\<close>

section \<open>The validator cache\<close>

text \<open>The compiled validators, with the text of a compilation error and, for each validation
  error, the instance path and the message.\<close>

record 'v schema_engine =
  validator_for :: "json \<Rightarrow> ('v, string) result"
  run_validator :: "'v \<Rightarrow> json \<Rightarrow> (unit, (string \<times> string) list) result"

type_synonym 'v schema_cache = "'v hmap"

definition DIALECT_HTTPS :: string where
  "DIALECT_HTTPS = ''https://json-schema.org/draft/2020-12/schema''"

definition DIALECT_HTTP :: string where
  "DIALECT_HTTP = ''http://json-schema.org/draft/2020-12/schema''"

definition SUPPORTED_DIALECTS :: "string list" where
  "SUPPORTED_DIALECTS = [DIALECT_HTTPS, DIALECT_HTTP]"

definition schema_dialect :: "json \<Rightarrow> string option" where
  "schema_dialect schema = Option.bind (jget schema ''$schema'') as_str"

definition unsupported_dialect :: "string \<Rightarrow> mcp_error" where
  "unsupported_dialect d = SchemaInvalid (fmt [''Unsupported JSON Schema dialect: '', dquoted d,
     ''. MCP-Shield supports JSON Schema 2020-12 (draft/2020-12). Attempting best-effort validation.''])"

definition check_dialect :: "json \<Rightarrow> (unit, mcp_error) result" where
  "check_dialect schema =
    (case schema_dialect schema of
       Some d \<Rightarrow>
         if d \<in> set SUPPORTED_DIALECTS \<or> d = [] then Ok () else Err (unsupported_dialect d)
     | None \<Rightarrow> Ok ())"

definition compile_schema :: "'v schema_engine \<Rightarrow> json \<Rightarrow> ('v, mcp_error) result" where
  "compile_schema E schema =
     map_err (\<lambda>e. SchemaInvalid (fmt [''Failed to compile schema: '', e])) (validator_for E schema)"

text \<open>\<open>&json[..1024]\<close> panics unless a character starts at byte 1024.\<close>

definition schema_key :: "json_codec \<Rightarrow> json \<Rightarrow> string option" where
  "schema_key C schema =
    (let t = to_text C schema in
     if 1024 < length t then
       if utf8_cont (t ! 1024) then None else Some (fmt [''schema:'', take 1024 t])
     else Some (fmt [''schema:'', t]))"

definition error_details :: "(string \<times> string) list \<Rightarrow> string list" where
  "error_details es =
     map (\<lambda>(path, msg). if path = [] then msg else fmt [path, '': '', msg]) es"

definition validate_with :: "'v schema_engine \<Rightarrow> 'v \<Rightarrow> json \<Rightarrow> (unit, mcp_error) result" where
  "validate_with E v instance =
    (case run_validator E v instance of
       Ok _ \<Rightarrow> Ok ()
     | Err es \<Rightarrow>
         Err (InvalidParams (fmt [''Schema validation failed: '', join ''; '' (error_details es)])))"

definition validate ::
  "json_codec \<Rightarrow> 'v schema_engine \<Rightarrow> json \<Rightarrow> json \<Rightarrow> 'v schema_cache \<Rightarrow>
     ((unit, mcp_error) result \<times> 'v schema_cache) option" where
  "validate C E schema instance cache =
    (case check_dialect schema of
       Err e \<Rightarrow> Some (Err e, cache)
     | Ok _ \<Rightarrow>
         (case schema_key C schema of
            None \<Rightarrow> None
          | Some key \<Rightarrow>
              (case hm_get cache key of
                 Some v \<Rightarrow> Some (validate_with E v instance, cache)
               | None \<Rightarrow>
                   (case compile_schema E schema of
                      Err e \<Rightarrow> Some (Err e, cache)
                    | Ok v \<Rightarrow> Some (validate_with E v instance, hm_insert key v cache)))))"

definition precompile ::
  "json_codec \<Rightarrow> 'v schema_engine \<Rightarrow> json \<Rightarrow> 'v schema_cache \<Rightarrow>
     ((unit, mcp_error) result \<times> 'v schema_cache) option" where
  "precompile C E schema cache =
    (case schema_key C schema of
       None \<Rightarrow> None
     | Some key \<Rightarrow>
         if hm_contains cache key then Some (Ok (), cache)
         else (case compile_schema E schema of
                 Err e \<Rightarrow> Some (Err e, cache)
               | Ok v \<Rightarrow> Some (Ok (), hm_insert key v cache)))"

definition cache_size :: "'v schema_cache \<Rightarrow> nat" where
  "cache_size cache = length cache"

definition clear_cache :: "'v schema_cache \<Rightarrow> 'v schema_cache" where
  "clear_cache cache = []"

definition validate_once ::
  "json_codec \<Rightarrow> 'v schema_engine \<Rightarrow> json \<Rightarrow> json \<Rightarrow> (unit, mcp_error) result option" where
  "validate_once C E schema instance = map_option fst (validate C E schema instance [])"

definition is_draft_2020_12_compatible :: "json \<Rightarrow> bool" where
  "is_draft_2020_12_compatible schema =
    (case schema_dialect schema of Some d \<Rightarrow> d \<in> set SUPPORTED_DIALECTS | None \<Rightarrow> True)"

section \<open>Runs and the invariant\<close>

text \<open>An operation that panics leaves the cache as it was: the cache is only written after the
  key has been computed.\<close>

datatype schema_op = Validate json json | Precompile json | ClearCache

fun schema_step ::
  "json_codec \<Rightarrow> 'v schema_engine \<Rightarrow> schema_op \<Rightarrow> 'v schema_cache \<Rightarrow> 'v schema_cache" where
  "schema_step C E (Validate s i) cache =
     (case validate C E s i cache of Some (_, c) \<Rightarrow> c | None \<Rightarrow> cache)"
| "schema_step C E (Precompile s) cache =
     (case precompile C E s cache of Some (_, c) \<Rightarrow> c | None \<Rightarrow> cache)"
| "schema_step C E ClearCache cache = clear_cache cache"

text \<open>The schemas an operation passes are values the program can hold.\<close>

fun op_values :: "schema_op \<Rightarrow> bool" where
  "op_values (Validate s i) = json_value s"
| "op_values (Precompile s) = json_value s"
| "op_values ClearCache = True"

definition cache_inv :: "json_codec \<Rightarrow> 'v schema_engine \<Rightarrow> 'v schema_cache \<Rightarrow> bool" where
  "cache_inv C E cache \<longleftrightarrow>
     (\<forall>k v. hm_get cache k = Some v \<longrightarrow>
        (\<exists>schema. json_value schema \<and> schema_key C schema = Some k \<and> validator_for E schema = Ok v))"

lemma compile_schema_Ok: "compile_schema E s = Ok v \<longleftrightarrow> validator_for E s = Ok v"
  by (simp add: compile_schema_def)

lemma cache_inv_step:
  "cache_inv C E cache \<Longrightarrow> op_values x \<Longrightarrow> cache_inv C E (schema_step C E x cache)"
  by (cases x)
    (auto simp: validate_def precompile_def clear_cache_def cache_inv_def compile_schema_Ok
       split: result.splits option.splits)

interpretation cache: guarded_machine "[]" "schema_step C E" "cache_inv C E" op_values
  by unfold_locales (simp add: cache_inv_def, rule cache_inv_step)

text \<open>A schema of less than 1024 bytes has a key of its own.\<close>

lemma short_key_unique:
  assumes "codec_injective C" "length (to_text C s) < 1024"
    and "schema_key C s = Some k" "schema_key C s' = Some k"
    and "json_value s" "json_value s'"
  shows "s' = s"
proof -
  have k: "k = ''schema:'' @ to_text C s"
    using assms(2,3) by (auto simp: schema_key_def Let_def fmt_def split: if_splits)
  have "to_text C s' = to_text C s"
  proof (cases "1024 < length (to_text C s')")
    case True
    then have "length k = 1031"
      using assms(4) by (auto simp: schema_key_def Let_def fmt_def split: if_splits)
    then show ?thesis using k assms(2) by simp
  next
    case False
    then show ?thesis
      using assms(4) k by (auto simp: schema_key_def Let_def fmt_def)
  qed
  then show ?thesis
    using assms(1,5,6) unfolding codec_injective_def by blast
qed

lemma short_key: "length (to_text C s) < 1024 \<Longrightarrow> schema_key C s = Some (fmt [''schema:'', to_text C s])"
  by (simp add: schema_key_def Let_def)

section \<open>Properties\<close>

text \<open>C30: For a schema whose text is shorter than 1024 bytes the cache is transparent: after any
  operations, with any schemas, validation gives the result of a fresh validator.\<close>

theorem schema_cache_transparent:
  assumes "codec_injective C" "length (to_text C schema) < 1024"
    and "json_value schema" "list_all op_values ops"
  shows "map_option fst (validate C E schema instance (run (schema_step C E) ops [])) =
         validate_once C E schema instance"
proof -
  let ?cache = "run (schema_step C E) ops []"
  let ?k = "fmt [''schema:'', to_text C schema]"
  have hit: "validator_for E schema = Ok v" if "hm_get ?cache ?k = Some v" for v
    using cache.inv_ok_run [OF assms(4), of C E] that
      short_key_unique [OF assms(1,2) short_key [OF assms(2)] _ assms(3)]
    unfolding cache_inv_def by blast
  show ?thesis
    unfolding validate_once_def validate_def short_key [OF assms(2)]
    using hit by (auto simp: compile_schema_def split: result.splits option.splits)
qed

text \<open>An engine for the witnesses: a validator that checks the \<open>type\<close> of an object schema.\<close>

definition sample_engine :: "string schema_engine" where
  "sample_engine =
     \<lparr>validator_for = (\<lambda>s. Ok (case Option.bind (jget s ''type'') as_str of Some t \<Rightarrow> t | None \<Rightarrow> [])),
      run_validator = (\<lambda>t i. if t = ''object'' \<and> \<not> is_object i
                             then Err [([], ''not an object'')] else Ok ())\<rparr>"

lemma schema_cache_transparent_witness:
  "map_option fst (validate sample_codec sample_engine (JObj [(''type'', JStr ''object'')]) JNull
      (run (schema_step sample_codec sample_engine) [Precompile JNull] [])) =
   validate_once sample_codec sample_engine (JObj [(''type'', JStr ''object'')]) JNull"
  by (rule schema_cache_transparent [OF sample_codec_injective])
    (simp_all add: sample_codec_def put_str_def)

text \<open>The key of a longer schema is its first 1024 bytes, so two schemas that agree on them
  share a cache entry: once the first one is cached, arguments for the second one are judged by
  the validator of the first.\<close>

theorem schema_cache_confusion:
  assumes "1024 < length (to_text C s1)" "1024 < length (to_text C s2)"
    and "take 1025 (to_text C s1) = take 1025 (to_text C s2)"
    and "\<not> utf8_cont (to_text C s1 ! 1024)"
    and "check_dialect s2 = Ok ()" "validator_for E s1 = Ok v1"
  shows "case precompile C E s1 [] of
           Some (_, cache) \<Rightarrow> validate C E s2 instance cache = Some (validate_with E v1 instance, cache)
         | None \<Rightarrow> False"
proof -
  have "to_text C s1 ! 1024 = to_text C s2 ! 1024"
    by (metis assms(3) lessI nth_take numeral_eq_Suc one_less_numeral_iff pred_numeral_simps(3)
        semiring_norm(76) eval_nat_numeral(3))
  moreover have "take 1024 (to_text C s1) = take 1024 (to_text C s2)"
    using arg_cong [OF assms(3), of "take 1024"] by simp
  ultimately have "schema_key C s1 = schema_key C s2" "schema_key C s1 \<noteq> None"
    using assms(1,2,4) by (simp_all add: schema_key_def Let_def)
  then show ?thesis
    using assms(5,6)
    by (auto simp: precompile_def validate_def compile_schema_def hm_contains_def)
qed

text \<open>Two schemas that differ only in their last member, \<open>"type"\<close>, behind a description of 1100
  bytes.\<close>

definition long_schema :: "string \<Rightarrow> json" where
  "long_schema t = JObj [(''description'', JStr (replicate 1100 (CHR ''a''))), (''type'', JStr t)]"

definition long_head :: string where
  "long_head = CHR ''o'' # put_nat 2 @ put_str ''description'' @ CHR ''s'' # put_nat 1100"

lemma put_nat_replicate: "put_nat n = replicate n (CHR ''1'') @ ''.''"
  by (induction n) auto

lemma long_schema_text:
  "\<exists>rest. to_text sample_codec (long_schema t) = long_head @ rest"
  by (simp add: sample_codec_def long_schema_def long_head_def put_str_def numeral_2_eq_2)

lemma long_head_props: "1025 < length long_head" "c \<in> set long_head \<Longrightarrow> \<not> utf8_cont c"
  by (auto simp: long_head_def put_nat_replicate put_str_def utf8_cont_def)

lemma schema_cache_confusion_witness:
  "case precompile sample_codec sample_engine (long_schema ''any'') [] of
     Some (_, cache) \<Rightarrow>
       validate sample_codec sample_engine (long_schema ''object'') JNull cache = Some (Ok (), cache)
   | None \<Rightarrow> False"
proof -
  obtain r1 r2 where r: "to_text sample_codec (long_schema ''any'') = long_head @ r1"
      "to_text sample_codec (long_schema ''object'') = long_head @ r2"
    using long_schema_text by metis
  have "long_head ! 1024 \<in> set long_head"
    using long_head_props(1) by simp
  then have "\<not> utf8_cont (to_text sample_codec (long_schema ''any'') ! 1024)"
    using long_head_props unfolding r by (simp add: nth_append)
  moreover have "validate_with sample_engine ''any'' JNull = Ok ()"
    by (simp add: validate_with_def sample_engine_def)
  moreover have "validator_for sample_engine (long_schema ''any'') = Ok ''any''"
    by (simp add: sample_engine_def long_schema_def)
  moreover have "check_dialect (long_schema ''object'') = Ok ()"
    by (simp add: check_dialect_def schema_dialect_def long_schema_def)
  ultimately show ?thesis
    using schema_cache_confusion [of sample_codec "long_schema ''any''" "long_schema ''object''"
        sample_engine "''any''" JNull] long_head_props(1)
    unfolding r by (auto split: option.splits prod.splits)
qed

end
