(* ===== verification/Regex_Api.thy ===== *)
theory Regex_Api
  imports Rust_Str
begin

text \<open>
  The parts of the crate \<open>regex\<close> the guardrails call, as a parameter: compiling a pattern (with
  the text of the error), matching, the first match's position, replacing every match by a fixed
  text, and escaping. Nothing is assumed here; the properties that depend on how a particular
  pattern matches say so. \<open>str::replace\<close> is the standard library's and is written out.
\<close>

record 'r regex_engine =
  regex_new :: "string \<Rightarrow> ('r, string) result"
  is_match :: "'r \<Rightarrow> string \<Rightarrow> bool"
  find_iter :: "'r \<Rightarrow> string \<Rightarrow> (nat \<times> nat) list"
  replace_all :: "'r \<Rightarrow> string \<Rightarrow> string \<Rightarrow> string"
  regex_escape :: "string \<Rightarrow> string"

text \<open>\<open>s.replace(p, t)\<close> for a non-empty pattern \<open>p\<close>.\<close>

function str_replace :: "string \<Rightarrow> string \<Rightarrow> string \<Rightarrow> string" where
  "str_replace p t s =
     (case s of
        [] \<Rightarrow> []
      | c # r \<Rightarrow>
          if p \<noteq> [] \<and> starts_with s p then t @ str_replace p t (drop (length p) s)
          else c # str_replace p t r)"
  by auto
termination
  by (relation "measure (\<lambda>(p, t, s). length s)") auto

declare str_replace.simps [simp del]

lemma str_replace_absent: "\<not> str_contains s p \<Longrightarrow> str_replace p t s = s"
proof (induction s)
  case Nil
  then show ?case by (simp add: str_replace.simps)
next
  case (Cons c s)
  then have "\<not> prefix p (c # s)" "\<not> str_contains s p"
    by (auto simp: str_contains_iff sublist_Cons_right)
  with Cons.IH show ?case by (simp add: str_replace.simps [of p t "c # s"])
qed

end
