(* ===== verification/Ecpa.thy ===== *)
theory Ecpa
  imports Sample_Codec Regex_Api
begin

text \<open>
  \<open>src/guardrail/ecpa.rs\<close>: the pre-execution guardrail. The trait \<open>EcpaGuardrail\<close> has two
  implementations, the stub and the rule-based one, which are the constructors of the type
  \<open>guardrail\<close>; the locale \<open>ecpa_guardrail\<close> is what the router relies on. The regular expression
  engine and the TOML reader are parameters; a directory is the list of what reading its entries
  gave.
\<close>

section \<open>Constraints\<close>

record 'r predicate =
  p_name :: string
  p_fields :: "string list"
  p_expression :: string
  p_required :: bool
  p_compiled :: "'r option"

record 'r tool_constraint =
  tool_name :: string
  description :: string
  predicates :: "'r predicate list"
  block_on_violation :: bool

record predicate_evaluation =
  e_name :: string
  e_satisfied :: bool
  e_value :: string
  e_explanation :: string

record constraint_result =
  satisfied :: bool
  evaluations :: "predicate_evaluation list"
  summary :: string

datatype ecpa_error =
  EvaluationError string
| UnknownTool string
| ParseError string
| RegexError string
| IoError string

fun ecpa_error_text :: "ecpa_error \<Rightarrow> string" where
  "ecpa_error_text (EvaluationError m) = fmt [''Constraint evaluation error: '', m]"
| "ecpa_error_text (UnknownTool m) = fmt [''Unknown tool: '', m]"
| "ecpa_error_text (ParseError m) = fmt [''Predicate parse error: '', m]"
| "ecpa_error_text (RegexError m) = fmt [''Regex compilation error: '', m]"
| "ecpa_error_text (IoError m) = fmt [''IO error: '', m]"

text \<open>The predicate names the code dispatches on.\<close>

definition REGEX_MATCHES :: string where "REGEX_MATCHES = ''regex_matches''"
definition NOT_MATCHES :: string where "NOT_MATCHES = ''not_matches''"
definition PATH_WITHIN_ROOT :: string where "PATH_WITHIN_ROOT = ''path_within_root''"
definition NO_PATH_TRAVERSAL :: string where "NO_PATH_TRAVERSAL = ''no_path_traversal''"
definition NOT_SYSTEM_PATH :: string where "NOT_SYSTEM_PATH = ''not_system_path''"
definition COMMAND_IN_ALLOWLIST :: string where "COMMAND_IN_ALLOWLIST = ''command_in_allowlist''"
definition NO_DANGEROUS_PATTERNS :: string where "NO_DANGEROUS_PATTERNS = ''no_dangerous_patterns''"
definition URL_HOST_IN_ALLOWLIST :: string where "URL_HOST_IN_ALLOWLIST = ''url_host_in_allowlist''"
definition URL_SCHEME_ALLOWED :: string where "URL_SCHEME_ALLOWED = ''url_scheme_allowed''"
definition P_STARTS_WITH :: string where "P_STARTS_WITH = ''starts_with''"
definition P_ENDS_WITH :: string where "P_ENDS_WITH = ''ends_with''"
definition P_EQUALS :: string where "P_EQUALS = ''equals''"
definition P_NOT_EQUALS :: string where "P_NOT_EQUALS = ''not_equals''"
definition P_LENGTH_LE :: string where "P_LENGTH_LE = ''length_le''"
definition P_LENGTH_GE :: string where "P_LENGTH_GE = ''length_ge''"

lemmas pred_name_defs =
  REGEX_MATCHES_def NOT_MATCHES_def PATH_WITHIN_ROOT_def NO_PATH_TRAVERSAL_def NOT_SYSTEM_PATH_def
  COMMAND_IN_ALLOWLIST_def NO_DANGEROUS_PATTERNS_def URL_HOST_IN_ALLOWLIST_def
  URL_SCHEME_ALLOWED_def P_STARTS_WITH_def P_ENDS_WITH_def P_EQUALS_def P_NOT_EQUALS_def
  P_LENGTH_LE_def P_LENGTH_GE_def

section \<open>Compiling\<close>

definition split_list_trimmed :: "string \<Rightarrow> string list" where
  "split_list_trimmed s = map trim (split_on (CHR '','') s)"

definition escaped_slash :: string where "escaped_slash = [CHR 0x5C, CHR ''/'']"

definition regex_pattern :: "'r regex_engine \<Rightarrow> 'r predicate \<Rightarrow> string option" where
  "regex_pattern E p =
    (if p_name p = REGEX_MATCHES \<or> p_name p = NOT_MATCHES then Some (p_expression p)
     else if p_name p = PATH_WITHIN_ROOT then
       Some (fmt [''^'', str_replace escaped_slash ''/'' (regex_escape E (p_expression p)), ''(.*)?$''])
     else if p_name p = NO_PATH_TRAVERSAL then Some (p_expression p)
     else if p_name p = NOT_SYSTEM_PATH then Some (p_expression p)
     else if p_name p = COMMAND_IN_ALLOWLIST then
       Some (fmt [''^('', join ''|'' (split_list_trimmed (p_expression p)), '')$''])
     else if p_name p = NO_DANGEROUS_PATTERNS then Some (p_expression p)
     else if p_name p = URL_HOST_IN_ALLOWLIST then
       Some (fmt [''^https?://('', join ''|'' (split_list_trimmed (p_expression p)), '')''])
     else if p_name p = URL_SCHEME_ALLOWED then
       Some (fmt [''^'', regex_escape E (p_expression p)])
     else None)"

definition compile_predicate_regex ::
  "'r regex_engine \<Rightarrow> 'r predicate \<Rightarrow> ('r predicate, ecpa_error) result" where
  "compile_predicate_regex E p =
    (if p_compiled p \<noteq> None then Ok p
     else
       (case regex_pattern E p of
          None \<Rightarrow> Ok p
        | Some pat \<Rightarrow>
            (case regex_new E pat of
               Err e \<Rightarrow>
                 Err (RegexError (fmt [''Failed to compile regex '', quoted pat, '': '', e]))
             | Ok r \<Rightarrow> Ok (p\<lparr>p_compiled := Some r\<rparr>))))"

section \<open>Evaluating\<close>

definition value_str :: "json_codec \<Rightarrow> json \<Rightarrow> string" where
  "value_str C v = (case v of JStr s \<Rightarrow> s | _ \<Rightarrow> to_text C v)"

definition regex_verdict :: "'r regex_engine \<Rightarrow> string \<Rightarrow> 'r \<Rightarrow> string \<Rightarrow> bool" where
  "regex_verdict E name r s =
    (if name = NOT_MATCHES then \<not> is_match E r s
     else if name = NO_PATH_TRAVERSAL \<or> name = NOT_SYSTEM_PATH \<or> name = NO_DANGEROUS_PATTERNS
     then \<not> is_match E r s
     else is_match E r s)"

text \<open>The arm of one field for a predicate without a compiled regex: \<open>False\<close> returns from the
  loop, \<open>True\<close> goes on to the next field.\<close>

definition plain_verdict :: "string \<Rightarrow> string \<Rightarrow> string \<Rightarrow> bool" where
  "plain_verdict name expr s =
    (if name = P_STARTS_WITH then starts_with s (trim_quotes expr)
     else if name = P_ENDS_WITH then ends_with s (trim_quotes expr)
     else if name = P_EQUALS then s = trim_quotes expr
     else if name = P_NOT_EQUALS then s \<noteq> trim_quotes expr
     else if name = P_LENGTH_LE then
       (case parse_usize expr of Some n \<Rightarrow> length s \<le> n | None \<Rightarrow> True)
     else if name = P_LENGTH_GE then
       (case parse_usize expr of Some n \<Rightarrow> n \<le> length s | None \<Rightarrow> True)
     else False)"

fun evaluate_fields ::
  "'r regex_engine \<Rightarrow> json_codec \<Rightarrow> 'r predicate \<Rightarrow> json \<Rightarrow> string list \<Rightarrow> bool" where
  "evaluate_fields E C p args [] = True"
| "evaluate_fields E C p args (f # fs) =
    (case jget args f of
       None \<Rightarrow> \<not> p_required p
     | Some v \<Rightarrow>
         (case p_compiled p of
            Some r \<Rightarrow> regex_verdict E (p_name p) r (value_str C v)
          | None \<Rightarrow>
              if plain_verdict (p_name p) (p_expression p) (value_str C v)
              then evaluate_fields E C p args fs
              else False))"

definition evaluate_predicate ::
  "'r regex_engine \<Rightarrow> json_codec \<Rightarrow> 'r predicate \<Rightarrow> json \<Rightarrow> bool" where
  "evaluate_predicate E C p args = evaluate_fields E C p args (p_fields p)"

definition extract_field_value :: "json_codec \<Rightarrow> 'r predicate \<Rightarrow> json \<Rightarrow> string" where
  "extract_field_value C p args =
     join '', '' (List.map_filter (\<lambda>f. map_option (to_text C) (jget args f)) (p_fields p))"

definition predicate_report ::
  "'r regex_engine \<Rightarrow> json_codec \<Rightarrow> json \<Rightarrow> 'r predicate \<Rightarrow> predicate_evaluation" where
  "predicate_report E C args p =
     \<lparr>e_name = p_name p, e_satisfied = evaluate_predicate E C p args,
      e_value = extract_field_value C p args,
      e_explanation =
        (if evaluate_predicate E C p args
         then fmt [''Predicate '', quoted (p_name p), '' satisfied'']
         else fmt [''Predicate '', quoted (p_name p), '' violated: '', p_expression p])\<rparr>"

definition ALL_SATISFIED :: string where "ALL_SATISFIED = ''All constraints satisfied''"

definition SOME_VIOLATED :: string where
  "SOME_VIOLATED = ''One or more required constraints violated''"

type_synonym 'r constraints = "'r tool_constraint hmap"

definition rule_evaluate_constraints ::
  "'r regex_engine \<Rightarrow> json_codec \<Rightarrow> 'r constraints \<Rightarrow> string \<Rightarrow> json \<Rightarrow>
     (constraint_result, ecpa_error) result" where
  "rule_evaluate_constraints E C cs tool args =
    (case hm_get cs tool of
       None \<Rightarrow> Err (UnknownTool tool)
     | Some c \<Rightarrow>
         (case traverse (compile_predicate_regex E) (predicates c) of
            Err e \<Rightarrow> Err e
          | Ok ps \<Rightarrow>
              (let ok = \<not> list_ex (\<lambda>p. \<not> evaluate_predicate E C p args \<and> p_required p) ps
               in Ok \<lparr>satisfied = ok, evaluations = map (predicate_report E C args) ps,
                      summary = (if ok then ALL_SATISFIED else SOME_VIOLATED)\<rparr>)))"

definition rule_register_constraints ::
  "'r regex_engine \<Rightarrow> 'r tool_constraint \<Rightarrow> 'r constraints \<Rightarrow>
     (unit, ecpa_error) result \<times> 'r constraints" where
  "rule_register_constraints E c cs =
    (case traverse (compile_predicate_regex E) (predicates c) of
       Err e \<Rightarrow> (Err e, cs)
     | Ok ps \<Rightarrow> (Ok (), hm_insert (tool_name c) (c\<lparr>predicates := ps\<rparr>) cs))"

section \<open>The guardrails\<close>

datatype 'r guardrail = StubGuardrail | RuleGuardrail "'r constraints"

definition STUB_SUMMARY :: string where "STUB_SUMMARY = ''All constraints satisfied (stub)''"

definition stub_report :: "string \<Rightarrow> predicate_evaluation" where
  "stub_report tool =
     \<lparr>e_name = ''stub'', e_satisfied = True, e_value = ''always_true'',
      e_explanation = fmt [''Phase 1 stub: tool '', quoted tool,
                           '' allowed without constraint evaluation'']\<rparr>"

fun evaluate_constraints ::
  "'r regex_engine \<Rightarrow> json_codec \<Rightarrow> 'r guardrail \<Rightarrow> string \<Rightarrow> json \<Rightarrow>
     (constraint_result, ecpa_error) result" where
  "evaluate_constraints E C StubGuardrail tool args =
     Ok \<lparr>satisfied = True, evaluations = [stub_report tool], summary = STUB_SUMMARY\<rparr>"
| "evaluate_constraints E C (RuleGuardrail cs) tool args =
     rule_evaluate_constraints E C cs tool args"

fun register_constraints ::
  "'r regex_engine \<Rightarrow> 'r tool_constraint \<Rightarrow> 'r guardrail \<Rightarrow>
     (unit, ecpa_error) result \<times> 'r guardrail" where
  "register_constraints E c StubGuardrail = (Ok (), StubGuardrail)"
| "register_constraints E c (RuleGuardrail cs) =
     (let (res, cs') = rule_register_constraints E c cs in (res, RuleGuardrail cs'))"

fun list_constraints :: "hash_order \<Rightarrow> 'r guardrail \<Rightarrow> string list" where
  "list_constraints \<pi> StubGuardrail = []"
| "list_constraints \<pi> (RuleGuardrail cs) = \<pi> (hm_keys cs)"

section \<open>The default constraints\<close>

definition bs :: string where "bs = [CHR 0x5C]"

definition mk_predicate :: "string \<Rightarrow> string list \<Rightarrow> string \<Rightarrow> 'r predicate" where
  "mk_predicate n fs e =
     \<lparr>p_name = n, p_fields = fs, p_expression = e, p_required = True, p_compiled = None\<rparr>"

definition ALLOWED_ROOT :: string where "ALLOWED_ROOT = ''/allowed/roots/''"
definition LEADING_DOTS :: string where "LEADING_DOTS = fmt [''^'', bs, ''.'', bs, ''.'']"
definition SYSTEM_PATHS :: string where
  "SYSTEM_PATHS = ''^(/etc|/sys|/proc|/boot|/dev|/root)''"
definition DEFAULT_COMMANDS :: string where
  "DEFAULT_COMMANDS = ''ls,cat,echo,grep,find,git,cargo,rustc,npm,python3,node''"
definition DANGEROUS_PATTERNS :: string where
  "DANGEROUS_PATTERNS =
     fmt [''(rm'', bs, ''s+-rf|dd'', bs, ''s+if=|mkfs|:'', bs, ''('', bs, '')'', bs, ''{:'', bs,
          ''}|chmod'', bs, ''s+777|chown'', bs, ''s+root)'']"
definition DEFAULT_HOSTS :: string where
  "DEFAULT_HOSTS = ''api.github.com,raw.githubusercontent.com,api.example.com''"

definition fs_read_constraint :: "'r tool_constraint" where
  "fs_read_constraint =
     \<lparr>tool_name = ''fs:read'',
      description = ''Filesystem read operations must stay within allowed roots'',
      predicates = [mk_predicate PATH_WITHIN_ROOT [''path''] ALLOWED_ROOT,
                    mk_predicate NO_PATH_TRAVERSAL [''path''] LEADING_DOTS],
      block_on_violation = True\<rparr>"

definition fs_write_constraint :: "'r tool_constraint" where
  "fs_write_constraint =
     \<lparr>tool_name = ''fs:write'',
      description = ''Filesystem write operations must stay within allowed roots'',
      predicates = [mk_predicate PATH_WITHIN_ROOT [''path''] ALLOWED_ROOT,
                    mk_predicate NO_PATH_TRAVERSAL [''path''] LEADING_DOTS,
                    mk_predicate NOT_SYSTEM_PATH [''path''] SYSTEM_PATHS],
      block_on_violation = True\<rparr>"

definition shell_exec_constraint :: "'r tool_constraint" where
  "shell_exec_constraint =
     \<lparr>tool_name = ''shell:exec'', description = ''Shell commands must be in the allowlist'',
      predicates = [mk_predicate COMMAND_IN_ALLOWLIST [''command''] DEFAULT_COMMANDS,
                    mk_predicate NO_DANGEROUS_PATTERNS [''command'', ''args''] DANGEROUS_PATTERNS],
      block_on_violation = True\<rparr>"

definition net_request_constraint :: "'r tool_constraint" where
  "net_request_constraint =
     \<lparr>tool_name = ''net:request'', description = ''Network requests must be to allowed domains'',
      predicates = [mk_predicate URL_HOST_IN_ALLOWLIST [''url''] DEFAULT_HOSTS,
                    mk_predicate URL_SCHEME_ALLOWED [''url''] ''https''],
      block_on_violation = True\<rparr>"

text \<open>\<open>.await.ok()\<close> throws each result away.\<close>

definition register_default_constraints ::
  "'r regex_engine \<Rightarrow> 'r constraints \<Rightarrow> 'r constraints" where
  "register_default_constraints E cs =
     fold (\<lambda>c cs. snd (rule_register_constraints E c cs))
       [fs_read_constraint, fs_write_constraint, shell_exec_constraint, net_request_constraint] cs"

definition with_defaults :: "'r regex_engine \<Rightarrow> 'r constraints" where
  "with_defaults E = register_default_constraints E []"

section \<open>The constraint loader\<close>

text \<open>A directory entry: the extension of its path when it is UTF-8, the path as shown, and what
  reading the file gives. The reader of TOML is a parameter.\<close>

record dir_entry =
  extension :: "string option"
  path_display :: string
  file_content :: "(string, string) result"

type_synonym 'r toml_reader = "string \<Rightarrow> ('r tool_constraint, string) result"

definition from_file ::
  "'r toml_reader \<Rightarrow> dir_entry \<Rightarrow> ('r tool_constraint, ecpa_error) result" where
  "from_file toml f =
    (case file_content f of
       Err e \<Rightarrow> Err (IoError (fmt [''Failed to read '', path_display f, '': '', e]))
     | Ok content \<Rightarrow>
         map_err (\<lambda>e. ParseError (fmt [''Failed to parse '', path_display f, '': '', e]))
           (toml content))"

fun load_entries ::
  "'r regex_engine \<Rightarrow> 'r toml_reader \<Rightarrow> (dir_entry, string) result list \<Rightarrow> 'r constraints \<Rightarrow>
     ('r constraints, ecpa_error) result" where
  "load_entries E toml [] cs = Ok cs"
| "load_entries E toml (Err e # es) cs = Err (IoError (fmt [''Failed to read dir entry: '', e]))"
| "load_entries E toml (Ok f # es) cs =
    (if extension f = Some ''toml'' then
       (case from_file toml f of
          Err e \<Rightarrow> Err e
        | Ok c \<Rightarrow>
            (case rule_register_constraints E c cs of
               (Err e, _) \<Rightarrow> Err e
             | (Ok _, cs') \<Rightarrow> load_entries E toml es cs'))
     else load_entries E toml es cs)"

definition from_directory ::
  "'r regex_engine \<Rightarrow> 'r toml_reader \<Rightarrow> ((dir_entry, string) result list, string) result \<Rightarrow>
     ('r constraints, ecpa_error) result" where
  "from_directory E toml dir =
    (case dir of
       Err e \<Rightarrow> Err (IoError (fmt [''Failed to read constraint dir: '', e]))
     | Ok entries \<Rightarrow> load_entries E toml entries [])"

section \<open>The constraint builder\<close>

definition builder_new :: "string \<Rightarrow> 'r tool_constraint" where
  "builder_new t =
     \<lparr>tool_name = t, description = [], predicates = [], block_on_violation = True\<rparr>"

definition builder_description :: "string \<Rightarrow> 'r tool_constraint \<Rightarrow> 'r tool_constraint" where
  "builder_description d c = c\<lparr>description := d\<rparr>"

definition builder_block_on_violation :: "bool \<Rightarrow> 'r tool_constraint \<Rightarrow> 'r tool_constraint" where
  "builder_block_on_violation b c = c\<lparr>block_on_violation := b\<rparr>"

definition builder_predicate :: "'r predicate \<Rightarrow> 'r tool_constraint \<Rightarrow> 'r tool_constraint" where
  "builder_predicate p c = c\<lparr>predicates := predicates c @ [p]\<rparr>"

definition builder_path_within_root ::
  "string \<Rightarrow> string \<Rightarrow> 'r tool_constraint \<Rightarrow> 'r tool_constraint" where
  "builder_path_within_root f root = builder_predicate (mk_predicate PATH_WITHIN_ROOT [f] root)"

definition ANY_DOTS :: string where "ANY_DOTS = fmt [bs, ''.'', bs, ''.'']"

definition builder_no_path_traversal :: "string \<Rightarrow> 'r tool_constraint \<Rightarrow> 'r tool_constraint" where
  "builder_no_path_traversal f = builder_predicate (mk_predicate NO_PATH_TRAVERSAL [f] ANY_DOTS)"

definition builder_command_in_allowlist ::
  "string \<Rightarrow> string \<Rightarrow> 'r tool_constraint \<Rightarrow> 'r tool_constraint" where
  "builder_command_in_allowlist f cmds = builder_predicate (mk_predicate COMMAND_IN_ALLOWLIST [f] cmds)"

definition builder_no_dangerous_patterns ::
  "string list \<Rightarrow> 'r tool_constraint \<Rightarrow> 'r tool_constraint" where
  "builder_no_dangerous_patterns fs =
     builder_predicate (mk_predicate NO_DANGEROUS_PATTERNS fs DANGEROUS_PATTERNS)"

definition builder_url_host_in_allowlist ::
  "string \<Rightarrow> string \<Rightarrow> 'r tool_constraint \<Rightarrow> 'r tool_constraint" where
  "builder_url_host_in_allowlist f hosts =
     builder_predicate (mk_predicate URL_HOST_IN_ALLOWLIST [f] hosts)"

definition builder_url_scheme_allowed ::
  "string \<Rightarrow> string \<Rightarrow> 'r tool_constraint \<Rightarrow> 'r tool_constraint" where
  "builder_url_scheme_allowed f schemes =
     builder_predicate (mk_predicate URL_SCHEME_ALLOWED [f] schemes)"

definition builder_regex ::
  "string \<Rightarrow> string \<Rightarrow> string \<Rightarrow> bool \<Rightarrow> 'r tool_constraint \<Rightarrow> 'r tool_constraint" where
  "builder_regex n f pat req =
     builder_predicate ((mk_predicate n [f] pat)\<lparr>p_required := req\<rparr>)"

section \<open>The trait\<close>

text \<open>
  What the router and the code that sets it up rely on: a verdict that is negative shows at least
  one violated predicate (the router's message is never empty of reasons), a failed registration
  changes nothing, and a registration concerns its own tool only.
\<close>

locale ecpa_guardrail =
  fixes evaluate :: "'g \<Rightarrow> string \<Rightarrow> json \<Rightarrow> (constraint_result, ecpa_error) result"
    and register :: "'r tool_constraint \<Rightarrow> 'g \<Rightarrow> (unit, ecpa_error) result \<times> 'g"
  assumes violation_shown:
      "evaluate g t a = Ok r \<Longrightarrow> \<not> satisfied r \<Longrightarrow> \<exists>e \<in> set (evaluations r). \<not> e_satisfied e"
    and register_failed: "fst (register c g) = Err e \<Longrightarrow> snd (register c g) = g"
    and register_other: "t \<noteq> tool_name c \<Longrightarrow> evaluate (snd (register c g)) t a = evaluate g t a"
begin

lemma register_many_other:
  "t \<notin> tool_name ` set cs \<Longrightarrow>
     evaluate (fold (\<lambda>c g. snd (register c g)) cs g) t a = evaluate g t a"
  by (induction cs arbitrary: g) (auto simp: register_other)

lemma violation_reason:
  "evaluate g t a = Ok r \<Longrightarrow> \<not> satisfied r \<Longrightarrow>
     map e_explanation (filter (\<lambda>e. \<not> e_satisfied e) (evaluations r)) \<noteq> []"
  using violation_shown by (force simp: filter_empty_conv)

end

interpretation ecpa: ecpa_guardrail "evaluate_constraints E C" "register_constraints E"
proof
  fix g :: "'a guardrail" and t a r
  assume "evaluate_constraints E C g t a = Ok r" "\<not> satisfied r"
  then show "\<exists>e \<in> set (evaluations r). \<not> e_satisfied e"
    by (cases g)
      (force simp: rule_evaluate_constraints_def predicate_report_def Let_def list_ex_iff
        split: option.splits result.splits)+
next
  fix g :: "'a guardrail" and c e
  assume "fst (register_constraints E c g) = Err e"
  then show "snd (register_constraints E c g) = g"
    by (cases g) (auto simp: rule_register_constraints_def split: result.splits)
next
  fix g :: "'a guardrail" and t a and c :: "'a tool_constraint"
  assume "t \<noteq> tool_name c"
  then show "evaluate_constraints E C (snd (register_constraints E c g)) t a =
      evaluate_constraints E C g t a"
    by (cases g)
      (auto simp: rule_evaluate_constraints_def rule_register_constraints_def
        split: result.splits)
qed

section \<open>What a registered constraint checks\<close>

text \<open>The regular expression a predicate is evaluated with, if any.\<close>

definition effective_regex :: "'r regex_engine \<Rightarrow> 'r predicate \<Rightarrow> 'r option" where
  "effective_regex E p =
    (case p_compiled p of
       Some r \<Rightarrow> Some r
     | None \<Rightarrow>
         (case regex_pattern E p of
            None \<Rightarrow> None
          | Some pat \<Rightarrow> (case regex_new E pat of Ok r \<Rightarrow> Some r | Err _ \<Rightarrow> None)))"

text \<open>When a required predicate holds, said without the loop: with a regular expression only the
  first field counts; without one every field must be present and pass.\<close>

definition required_holds ::
  "'r regex_engine \<Rightarrow> json_codec \<Rightarrow> 'r predicate \<Rightarrow> json \<Rightarrow> bool" where
  "required_holds E C p args \<longleftrightarrow>
    (case effective_regex E p of
       Some r \<Rightarrow>
         p_fields p = [] \<or>
         (\<exists>v. jget args (hd (p_fields p)) = Some v \<and>
              regex_verdict E (p_name p) r (value_str C v))
     | None \<Rightarrow>
         (\<forall>f \<in> set (p_fields p). \<exists>v. jget args f = Some v \<and>
            plain_verdict (p_name p) (p_expression p) (value_str C v)))"

lemma compile_keeps:
  assumes "compile_predicate_regex E p = Ok q"
  shows "p_name q = p_name p" "p_fields q = p_fields p" "p_required q = p_required p"
    "p_expression q = p_expression p" "p_compiled q = effective_regex E p"
  using assms
  by (auto simp: compile_predicate_regex_def effective_regex_def split: if_splits option.splits result.splits)

lemma regex_pattern_cong:
  "p_name q = p_name p \<Longrightarrow> p_expression q = p_expression p \<Longrightarrow> regex_pattern E q = regex_pattern E p"
  by (simp add: regex_pattern_def)

text \<open>Compiling twice changes nothing and cannot fail the second time.\<close>

lemma compile_idem:
  assumes "compile_predicate_regex E p = Ok q"
  shows "compile_predicate_regex E q = Ok q"
proof (cases "p_compiled q")
  case None
  then have "regex_pattern E p = None"
    using assms
    by (auto simp: compile_predicate_regex_def split: if_splits option.splits result.splits)
  then have "regex_pattern E q = None"
    using compile_keeps [OF assms] regex_pattern_cong [of q p E] by simp
  then show ?thesis using None by (simp add: compile_predicate_regex_def)
qed (simp add: compile_predicate_regex_def)

lemma compile_all_idem:
  assumes "traverse (compile_predicate_regex E) ps = Ok qs"
  shows "traverse (compile_predicate_regex E) qs = Ok qs"
proof -
  have "list_all2 (\<lambda>p q. compile_predicate_regex E p = Ok q) ps qs"
    using assms by (simp add: traverse_Ok)
  then show ?thesis
    by (induction rule: list_all2_induct) (auto dest: compile_idem)
qed

lemma evaluate_fields_plain:
  "p_required q \<Longrightarrow> p_compiled q = None \<Longrightarrow>
     evaluate_fields E C q args fs \<longleftrightarrow>
       (\<forall>f \<in> set fs. \<exists>v. jget args f = Some v \<and>
          plain_verdict (p_name q) (p_expression q) (value_str C v))"
  by (induction fs) (auto split: option.splits)

lemma evaluate_predicate_regex:
  "p_compiled q = Some r \<Longrightarrow>
     evaluate_predicate E C q args =
       (case p_fields q of
          [] \<Rightarrow> True
        | f # _ \<Rightarrow> (case jget args f of
                     None \<Rightarrow> \<not> p_required q
                   | Some v \<Rightarrow> regex_verdict E (p_name q) r (value_str C v)))"
  by (cases "p_fields q") (auto simp: evaluate_predicate_def split: option.splits)

lemma evaluate_compiled:
  assumes "compile_predicate_regex E p = Ok q" "p_required p"
  shows "evaluate_predicate E C q args = required_holds E C p args"
proof (cases "effective_regex E p")
  case None
  with compile_keeps [OF assms(1)] assms(2) show ?thesis
    by (simp add: required_holds_def evaluate_predicate_def evaluate_fields_plain)
next
  case (Some r)
  with compile_keeps [OF assms(1)] assms(2) show ?thesis
    by (auto simp: required_holds_def evaluate_predicate_regex split: list.splits option.splits)
qed

lemma registered_evaluate:
  assumes "rule_register_constraints E c cs = (Ok (), cs')"
  shows "\<exists>res. rule_evaluate_constraints E C cs' (tool_name c) args = Ok res \<and>
     (satisfied res \<longleftrightarrow>
        (\<forall>p \<in> set (predicates c). p_required p \<longrightarrow> required_holds E C p args))"
proof -
  obtain qs where qs: "traverse (compile_predicate_regex E) (predicates c) = Ok qs"
      and cs': "cs' = hm_insert (tool_name c) (c\<lparr>predicates := qs\<rparr>) cs"
    using assms by (auto simp: rule_register_constraints_def split: result.splits)
  have "list_all2 (\<lambda>p q. compile_predicate_regex E p = Ok q) (predicates c) qs"
    using qs by (simp add: traverse_Ok)
  then have "(\<exists>q \<in> set qs. \<not> evaluate_predicate E C q args \<and> p_required q) \<longleftrightarrow>
      (\<exists>p \<in> set (predicates c). p_required p \<and> \<not> required_holds E C p args)"
    by (induction rule: list_all2_induct) (auto simp: evaluate_compiled compile_keeps)
  then show ?thesis
    unfolding rule_evaluate_constraints_def cs'
    by (auto simp: compile_all_idem [OF qs] list_ex_iff Let_def)
qed

section \<open>Properties\<close>

text \<open>A regular expression engine for the witnesses: a pattern is its own compiled form, and three
  patterns of the default constraints are matched as documented.\<close>

definition ROOT_PATTERN :: string where "ROOT_PATTERN = ''^/allowed/roots/(.*)?$''"

definition sample_regex :: "string regex_engine" where
  "sample_regex =
     \<lparr>regex_new = Ok,
      is_match = (\<lambda>r s.
        if r = ROOT_PATTERN then
          starts_with s ALLOWED_ROOT \<and> CHR 0x0A \<notin> set (drop (length ALLOWED_ROOT) s)
        else if r = LEADING_DOTS then starts_with s ''..''
        else s = r),
      find_iter = (\<lambda>r s. []), replace_all = (\<lambda>r s t. s), regex_escape = (\<lambda>s. s)\<rparr>"

text \<open>C25: Once a constraint is registered, evaluating its tool always gives a verdict, and the
  verdict is positive exactly when every required predicate of the constraint holds for the
  arguments (optional predicates and \<open>block_on_violation\<close> do not matter); other tools are not
  affected.\<close>

theorem registered_constraints_enforced:
  assumes "register_constraints E c (RuleGuardrail cs) = (Ok (), g')"
  shows "(\<exists>res. evaluate_constraints E C g' (tool_name c) args = Ok res \<and>
            (satisfied res \<longleftrightarrow>
               (\<forall>p \<in> set (predicates c). p_required p \<longrightarrow> required_holds E C p args))) \<and>
         (\<forall>t. t \<noteq> tool_name c \<longrightarrow>
            evaluate_constraints E C g' t args = evaluate_constraints E C (RuleGuardrail cs) t args)"
proof (intro conjI allI impI)
  obtain cs' where "rule_register_constraints E c cs = (Ok (), cs')" "g' = RuleGuardrail cs'"
    using assms by (auto split: prod.splits)
  then show "\<exists>res. evaluate_constraints E C g' (tool_name c) args = Ok res \<and>
      (satisfied res \<longleftrightarrow>
         (\<forall>p \<in> set (predicates c). p_required p \<longrightarrow> required_holds E C p args))"
    by (simp add: registered_evaluate)
  show "evaluate_constraints E C g' t args = evaluate_constraints E C (RuleGuardrail cs) t args"
    if "t \<noteq> tool_name c" for t
    using ecpa.register_other [OF that, of E C "RuleGuardrail cs" args] assms by simp
qed

lemma registered_constraints_enforced_witness:
  "\<exists>g' res. evaluate_constraints sample_regex sample_codec g' ''t'' (JObj [(''a'', JStr ''x'')]) = Ok res \<and>
     satisfied res = required_holds sample_regex sample_codec
       (mk_predicate P_EQUALS [''a''] ''x'') (JObj [(''a'', JStr ''x'')])"
proof -
  let ?c = "builder_predicate (mk_predicate P_EQUALS [''a''] ''x'') (builder_new ''t'')"
  have "regex_pattern sample_regex (mk_predicate P_EQUALS [''a''] ''x'') = None"
    by (simp add: regex_pattern_def mk_predicate_def pred_name_defs)
  then have "rule_register_constraints sample_regex ?c [] = (Ok (), hm_insert ''t'' ?c [])"
    by (simp add: rule_register_constraints_def builder_predicate_def builder_new_def
        compile_predicate_regex_def)
  then have "register_constraints sample_regex ?c (RuleGuardrail []) =
      (Ok (), RuleGuardrail (hm_insert ''t'' ?c []))"
    by simp
  from registered_constraints_enforced [OF this, of sample_codec "JObj [(''a'', JStr ''x'')]"]
  show ?thesis
    by (intro exI [of _ "RuleGuardrail (hm_insert ''t'' ?c [])"])
      (simp add: builder_predicate_def builder_new_def mk_predicate_def)
qed

text \<open>A predicate with a compiled regular expression looks at its first field only: the
  values of all other fields it names cannot change its verdict. (The built-in
  \<open>no_dangerous_patterns\<close> names \<open>command\<close> and \<open>args\<close>; \<open>args\<close> is never checked.)\<close>

theorem regex_predicate_first_field_only:
  assumes "p_compiled p = Some r"
    and "jget args (hd (p_fields p)) = jget args' (hd (p_fields p))"
  shows "evaluate_predicate E C p args = evaluate_predicate E C p args'"
  using assms by (auto simp: evaluate_predicate_regex split: list.split option.splits)

lemma regex_predicate_first_field_only_witness:
  "let p = (mk_predicate NO_DANGEROUS_PATTERNS [''command'', ''args''] DANGEROUS_PATTERNS)
             \<lparr>p_compiled := Some DANGEROUS_PATTERNS\<rparr>
   in evaluate_predicate sample_regex sample_codec p
        (JObj [(''command'', JStr ''ls''), (''args'', JStr DANGEROUS_PATTERNS)]) =
      evaluate_predicate sample_regex sample_codec p (JObj [(''command'', JStr ''ls'')])"
  unfolding Let_def
  by (rule regex_predicate_first_field_only [of _ DANGEROUS_PATTERNS]) (simp_all add: mk_predicate_def)

text \<open>What the default constraints check of \<open>fs:read\<close>. If the engine matches
  \<open>^/allowed/roots/(.*)?$\<close> and \<open>^\..\<close> (two literal dots at the start) as documented, the call
  passes exactly when its path starts with \<open>/allowed/roots/\<close> and has no newline after it. The
  traversal check adds nothing: \<open>/allowed/roots/../../etc/passwd\<close> passes.\<close>

theorem default_fs_read_allows_traversal:
  assumes "regex_escape E ALLOWED_ROOT = ALLOWED_ROOT"
    and "regex_new E ROOT_PATTERN = Ok root_re" "regex_new E LEADING_DOTS = Ok dots_re"
    and "\<And>s. is_match E root_re s \<longleftrightarrow> (\<exists>x. s = ALLOWED_ROOT @ x \<and> CHR 0x0A \<notin> set x)"
    and "\<And>s. is_match E dots_re s \<longleftrightarrow> starts_with s ''..''"
    and "args = JObj [(''path'', JStr path)]"
  shows "\<exists>res. rule_evaluate_constraints E C
             (snd (rule_register_constraints E fs_read_constraint cs)) ''fs:read'' args = Ok res \<and>
           (satisfied res \<longleftrightarrow> (\<exists>x. path = ALLOWED_ROOT @ x \<and> CHR 0x0A \<notin> set x))"
proof -
  let ?p = "mk_predicate PATH_WITHIN_ROOT [''path''] ALLOWED_ROOT :: 'a predicate"
  let ?q = "mk_predicate NO_PATH_TRAVERSAL [''path''] LEADING_DOTS :: 'a predicate"
  have no_esc: "\<not> str_contains ALLOWED_ROOT escaped_slash"
    by (simp add: ALLOWED_ROOT_def escaped_slash_def)
  have pats: "regex_pattern E ?p = Some ROOT_PATTERN" "regex_pattern E ?q = Some LEADING_DOTS"
    using assms(1) str_replace_absent [OF no_esc, of "''/''"]
    by (simp_all add: regex_pattern_def mk_predicate_def pred_name_defs)
      (simp add: ROOT_PATTERN_def ALLOWED_ROOT_def fmt_def)
  have plain: "p_compiled ?p = None" "p_compiled ?q = None"
    by (simp_all add: mk_predicate_def)
  then have eff: "effective_regex E ?p = Some root_re" "effective_regex E ?q = Some dots_re"
    using assms(2,3) pats by (simp_all add: effective_regex_def)
  have "compile_predicate_regex E ?p = Ok (?p\<lparr>p_compiled := Some root_re\<rparr>)"
    "compile_predicate_regex E ?q = Ok (?q\<lparr>p_compiled := Some dots_re\<rparr>)"
    using assms(2,3) pats plain by (simp_all add: compile_predicate_regex_def)
  then obtain cs' where cs': "rule_register_constraints E fs_read_constraint cs = (Ok (), cs')"
    by (simp add: rule_register_constraints_def fs_read_constraint_def)
  have verdict: "regex_verdict E PATH_WITHIN_ROOT root_re path = is_match E root_re path"
    "regex_verdict E NO_PATH_TRAVERSAL dots_re path = (\<not> is_match E dots_re path)"
    by (simp_all add: regex_verdict_def pred_name_defs)
  have no_dots: "\<not> starts_with (ALLOWED_ROOT @ x) ''..''" for x
    by (simp add: ALLOWED_ROOT_def)
  have fields: "p_fields ?p = [''path'']" "p_fields ?q = [''path'']" "p_name ?p = PATH_WITHIN_ROOT"
    "p_name ?q = NO_PATH_TRAVERSAL" "p_required ?p" "p_required ?q"
    by (simp_all add: mk_predicate_def)
  have "required_holds E C ?p args = is_match E root_re path"
    "required_holds E C ?q args = (\<not> is_match E dots_re path)"
    unfolding required_holds_def eff option.case fields verdict [symmetric]
    by (simp_all add: assms(6) value_str_def)
  then have "required_holds E C ?p args \<and> required_holds E C ?q args \<longleftrightarrow>
      (\<exists>x. path = ALLOWED_ROOT @ x \<and> CHR 0x0A \<notin> set x)"
    using assms(4,5) no_dots by metis
  moreover have "predicates fs_read_constraint = [?p, ?q]"
    "tool_name (fs_read_constraint :: 'a tool_constraint) = ''fs:read''"
    by (simp_all add: fs_read_constraint_def)
  ultimately show ?thesis
    using registered_evaluate [OF cs', of C args] fields(5,6) unfolding cs' by simp
qed

lemma default_fs_read_allows_traversal_witness:
  "\<exists>res. rule_evaluate_constraints sample_regex sample_codec
       (snd (rule_register_constraints sample_regex fs_read_constraint [])) ''fs:read''
       (JObj [(''path'', JStr ''/allowed/roots/../../etc/passwd'')]) = Ok res \<and> satisfied res"
proof -
  have "\<exists>res. rule_evaluate_constraints sample_regex sample_codec
       (snd (rule_register_constraints sample_regex fs_read_constraint [])) ''fs:read''
       (JObj [(''path'', JStr ''/allowed/roots/../../etc/passwd'')]) = Ok res \<and>
     (satisfied res \<longleftrightarrow> (\<exists>x. ''/allowed/roots/../../etc/passwd'' = ALLOWED_ROOT @ x \<and> CHR 0x0A \<notin> set x))"
    by (rule default_fs_read_allows_traversal [where root_re = ROOT_PATTERN and dots_re = LEADING_DOTS])
      (auto simp: sample_regex_def prefix_def ROOT_PATTERN_def LEADING_DOTS_def fmt_def bs_def)
  moreover have "\<exists>x. ''/allowed/roots/../../etc/passwd'' = ALLOWED_ROOT @ x \<and> CHR 0x0A \<notin> set x"
    by (intro exI [of _ "''../../etc/passwd''"]) (simp add: ALLOWED_ROOT_def)
  ultimately show ?thesis by blast
qed

definition built_in_predicates :: "string set" where
  "built_in_predicates =
     {REGEX_MATCHES, NOT_MATCHES, PATH_WITHIN_ROOT, NO_PATH_TRAVERSAL, NOT_SYSTEM_PATH,
      COMMAND_IN_ALLOWLIST, NO_DANGEROUS_PATTERNS, URL_HOST_IN_ALLOWLIST, URL_SCHEME_ALLOWED,
      P_STARTS_WITH, P_ENDS_WITH, P_EQUALS, P_NOT_EQUALS, P_LENGTH_LE, P_LENGTH_GE}"

text \<open>A required predicate added with the builder's \<open>regex\<close> under a name of its own is never
  compiled and never holds: every call of the tool is then blocked, whatever the pattern.\<close>

theorem custom_regex_blocks_everything:
  assumes "name \<notin> built_in_predicates"
    and "rule_register_constraints E (builder_regex name f pat True c) cs = (Ok (), cs')"
  shows "\<exists>res. rule_evaluate_constraints E C cs' (tool_name c) args = Ok res \<and> \<not> satisfied res"
proof -
  let ?p = "(mk_predicate name [f] pat)\<lparr>p_required := True\<rparr> :: 'a predicate"
  have "regex_pattern E ?p = None" "\<And>s. \<not> plain_verdict name pat s"
    using assms(1)
    unfolding built_in_predicates_def regex_pattern_def plain_verdict_def mk_predicate_def by simp_all
  then have "\<not> required_holds E C ?p args"
    by (simp add: required_holds_def effective_regex_def) (simp add: mk_predicate_def)
  moreover have "?p \<in> set (predicates (builder_regex name f pat True c))" "p_required ?p"
    by (simp_all add: builder_regex_def builder_predicate_def)
  moreover have "tool_name (builder_regex name f pat True c) = tool_name c"
    by (simp add: builder_regex_def builder_predicate_def)
  ultimately show ?thesis
    using registered_evaluate [OF assms(2), of C args] by fastforce
qed

lemma custom_regex_blocks_everything_witness:
  "\<exists>cs' res. rule_register_constraints sample_regex
       (builder_regex ''no_secrets'' ''q'' ''secret'' True (builder_new ''search'')) [] = (Ok (), cs') \<and>
     rule_evaluate_constraints sample_regex sample_codec cs' ''search'' (JObj [(''q'', JStr ''rust'')]) = Ok res \<and>
     \<not> satisfied res"
proof -
  let ?c = "builder_regex ''no_secrets'' ''q'' ''secret'' True (builder_new ''search'') :: string tool_constraint"
  have "regex_pattern sample_regex ((mk_predicate ''no_secrets'' [''q''] ''secret'')\<lparr>p_required := True\<rparr>) = None"
    by (simp add: regex_pattern_def mk_predicate_def pred_name_defs)
  then have R: "rule_register_constraints sample_regex ?c [] = (Ok (), hm_insert ''search'' ?c [])"
    by (simp add: rule_register_constraints_def builder_regex_def builder_predicate_def builder_new_def
        compile_predicate_regex_def)
  have "\<exists>res. rule_evaluate_constraints sample_regex sample_codec (hm_insert ''search'' ?c [])
      (tool_name (builder_new ''search'' :: string tool_constraint)) (JObj [(''q'', JStr ''rust'')]) = Ok res \<and>
    \<not> satisfied res"
    by (rule custom_regex_blocks_everything [OF _ R]) (simp add: built_in_predicates_def pred_name_defs)
  with R show ?thesis by (auto simp: builder_new_def)
qed

end
