(* ===== verification/Egress.thy ===== *)
theory Egress
  imports Json Regex_Api
begin

text \<open>
  \<open>src/guardrail/egress.rs\<close>: the inspection of responses. The trait \<open>EgressInspector\<close> is the
  locale \<open>egress_inspector\<close>; its two implementations, the pattern-based inspector and the stub,
  are the constructors of \<open>inspector\<close>. The regular expression engine is a parameter.
\<close>

section \<open>Data\<close>

datatype pattern_type =
  SystemOverride | DataExfiltration | HiddenInstruction | ToolInvocation | SuspiciousUrl

record inspectable =
  ins_tool_name :: string
  ins_content :: "json list"
  ins_server_id :: string

record injection_pattern =
  pattern_type :: pattern_type
  location :: string
  snippet :: string

record inspection =
  modified :: bool
  sanitized_content :: "json list"
  detected_patterns :: "injection_pattern list"

datatype guardrail_error = InspectionError string | PatternError string

fun guardrail_error_text :: "guardrail_error \<Rightarrow> string" where
  "guardrail_error_text (InspectionError m) = fmt [''Inspection error: '', m]"
| "guardrail_error_text (PatternError m) = fmt [''Pattern matching error: '', m]"

record 'r pattern_inspector =
  patterns :: "(pattern_type \<times> 'r) list"
  replacement :: string

section \<open>The built-in patterns\<close>

text \<open>The raw strings of the source with \<open>~\<close> in place of the backslash.\<close>

definition unraw :: "string \<Rightarrow> string" where
  "unraw s = map (\<lambda>c. if c = CHR ''~'' then CHR 0x5C else c) s"

definition default_pattern_sources :: "(pattern_type \<times> string) list" where
  \<open>default_pattern_sources =
    [
     (SystemOverride, ''(?i)~[system~]:?''),
     (SystemOverride, ''(?i)<~s*system~s*>''),
     (SystemOverride, ''(?i)ignore~s+(?:previous|all|above)~s+instructions?''),
     (SystemOverride, ''(?i)forget~s+(?:previous|all|above)~s+instructions?''),
     (SystemOverride, ''(?i)disregard~s+(?:previous|all|above)~s+instructions?''),
     (SystemOverride, ''(?i)you~s+are~s+now~s+(?:a|an)~s+''),
     (SystemOverride, ''(?i)act~s+as~s+(?:a|an)~s+''),
     (DataExfiltration, ''(?i)send~s+(?:to|data~s+to)~s+[~w~.-]+@[~w~.-]+''),
     (DataExfiltration, ''(?i)exfiltrate~s+(?:data|information)''),
     (DataExfiltration, ''(?i)post~s+(?:to|data~s+to)~s+https?://''),
     (DataExfiltration, ''(?i)upload~s+(?:to|data~s+to)~s+''),
     (DataExfiltration, ''(?i)leak~s+(?:data|secrets|keys)''),
     (DataExfiltration, ''(?i)(?:send|upload|post|exfiltrate)~s+(?:data|keys|secrets|information|the~s+~w+~s+~w+)?~s+(?:to|into)~s+https?://''),
     (HiddenInstruction, ''<!--~s*[^>]*-->?''),
     (HiddenInstruction, ''/~*~s*[^*]*~*/''),
     (HiddenInstruction, ''[~u200B-~u200D~uFEFF]''),
     (HiddenInstruction, ''(?i)style~s*=~s*["']display:~s*none["']''),
     (ToolInvocation, ''(?i)<~s*(?:execute|use_tool|invoke|function|tool)~s*>''),
     (ToolInvocation, ''(?i)~{~s*["']tool["']~s*:~s*["']~w+["']~s*~}''),
     (ToolInvocation, ''(?i)function_call~s*:~s*~{~s*["']name["']''),
     (SuspiciousUrl, ''(?i)(?:pastebin|ghostbin|hastebin|dpaste|gist~.github|raw~.githubusercontent)~.com''),
     (SuspiciousUrl, ''(?i)(?:bit~.ly|tinyurl|t~.co|goo~.gl|ow~.ly)/~w+''),
     (SuspiciousUrl, ''(?i)https?://[^/]*~.(?:xyz|top|club|online|site|info)/'')]\<close>

definition REDACTED :: string where
  "REDACTED = ''[REDACTED: Potential prompt injection detected]''"

text \<open>\<open>Regex::new(..).unwrap()\<close> panics (\<open>None\<close>) when the engine rejects a pattern.\<close>

definition default_patterns :: "'r regex_engine \<Rightarrow> (pattern_type \<times> 'r) list option" where
  "default_patterns E =
    (case traverse (\<lambda>(ty, src). case regex_new E (unraw src) of
                      Ok r \<Rightarrow> Ok (ty, r) | Err e \<Rightarrow> Err e) default_pattern_sources of
       Ok ps \<Rightarrow> Some ps
     | Err _ \<Rightarrow> None)"

definition pattern_inspector_new :: "'r regex_engine \<Rightarrow> 'r pattern_inspector option" where
  "pattern_inspector_new E =
     map_option (\<lambda>ps. \<lparr>patterns = ps, replacement = REDACTED\<rparr>) (default_patterns E)"

definition with_patterns ::
  "'r regex_engine \<Rightarrow> (pattern_type \<times> 'r) list \<Rightarrow> string \<Rightarrow> 'r pattern_inspector option" where
  "with_patterns E ps repl =
     map_option (\<lambda>i. \<lparr>patterns = patterns i @ ps, replacement = repl\<rparr>) (pattern_inspector_new E)"

section \<open>Inspecting\<close>

definition detection :: "nat \<Rightarrow> string \<Rightarrow> pattern_type \<Rightarrow> nat \<times> nat \<Rightarrow> injection_pattern" where
  "detection block_idx text ty m =
     \<lparr>pattern_type = ty,
      location = fmt [''block['', show_nat block_idx, '']:'', show_nat (fst m)],
      snippet = take_chars 100 (take (snd m - fst m) (drop (fst m) text))\<rparr>"

text \<open>The inner loop replaces in the text sanitised so far, once for every match in the original.\<close>

fun inspect_patterns ::
  "'r regex_engine \<Rightarrow> string \<Rightarrow> string \<Rightarrow> nat \<Rightarrow> (pattern_type \<times> 'r) list \<Rightarrow>
     injection_pattern list \<Rightarrow> string \<Rightarrow> injection_pattern list \<times> string" where
  "inspect_patterns E repl text idx [] detected sanitized = (detected, sanitized)"
| "inspect_patterns E repl text idx ((ty, r) # ps) detected sanitized =
     (let ms = find_iter E r text in
      inspect_patterns E repl text idx ps
        (detected @ map (detection idx text ty) ms)
        (fold (\<lambda>_ s. replace_all E r s repl) ms sanitized))"

definition inspect_text ::
  "'r regex_engine \<Rightarrow> 'r pattern_inspector \<Rightarrow> string \<Rightarrow> nat \<Rightarrow> injection_pattern list \<times> string" where
  "inspect_text E i text idx =
     inspect_patterns E (replacement i) text idx (patterns i) [] text"

text \<open>The text of a content block: its \<open>text\<close> member, or the block itself when it is a string.\<close>

definition block_text :: "json \<Rightarrow> string option" where
  "block_text b =
    (case Option.bind (jget b ''text'') as_str of
       Some t \<Rightarrow> Some t
     | None \<Rightarrow> as_str b)"

fun sanitize_blocks ::
  "'r regex_engine \<Rightarrow> 'r pattern_inspector \<Rightarrow> nat \<Rightarrow> json list \<Rightarrow>
     bool \<Rightarrow> injection_pattern list \<Rightarrow> json list \<Rightarrow> bool \<times> injection_pattern list \<times> json list" where
  "sanitize_blocks E i idx [] modf det out = (modf, det, out)"
| "sanitize_blocks E i idx (b # bs) modf det out =
    (case block_text b of
       None \<Rightarrow> sanitize_blocks E i (Suc idx) bs modf det (out @ [b])
     | Some t \<Rightarrow>
         (let (detected, sanitized) = inspect_text E i t idx;
              modf' = (modf \<or> detected \<noteq> [] \<or> sanitized \<noteq> t)
          in sanitize_blocks E i (Suc idx) bs modf' (det @ detected)
               (out @ [jreplace ''text'' (JStr sanitized) b])))"

datatype 'r inspector = StubInspector | PatternInspector "'r pattern_inspector"

fun sanitize_response ::
  "'r regex_engine \<Rightarrow> 'r inspector \<Rightarrow> inspectable \<Rightarrow> (inspection, guardrail_error) result" where
  "sanitize_response E StubInspector x =
     Ok \<lparr>modified = False, sanitized_content = ins_content x, detected_patterns = []\<rparr>"
| "sanitize_response E (PatternInspector i) x =
     (let (modf, det, out) = sanitize_blocks E i 0 (ins_content x) False [] []
      in Ok \<lparr>modified = modf, sanitized_content = out, detected_patterns = det\<rparr>)"

section \<open>The loop, block by block\<close>

definition block_result ::
  "'r regex_engine \<Rightarrow> 'r pattern_inspector \<Rightarrow> nat \<Rightarrow> json \<Rightarrow> bool \<times> injection_pattern list \<times> json" where
  "block_result E i idx b =
    (case block_text b of
       None \<Rightarrow> (False, [], b)
     | Some t \<Rightarrow>
         (let (detected, sanitized) = inspect_text E i t idx
          in (detected \<noteq> [] \<or> sanitized \<noteq> t, detected, jreplace ''text'' (JStr sanitized) b)))"

lemma sanitize_blocks_map:
  "sanitize_blocks E i idx bs modf det out =
     (let rs = map (\<lambda>(k, b). block_result E i k b) (List.enumerate idx bs)
      in (modf \<or> list_ex fst rs, det @ concat (map (fst \<circ> snd) rs), out @ map (snd \<circ> snd) rs))"
  by (induction bs arbitrary: idx modf det out)
    (auto simp: block_result_def Let_def split: option.split prod.split)

lemma inspect_patterns_detected:
  "fst (inspect_patterns E repl text idx ps det s) =
     det @ concat (map (\<lambda>(ty, r). map (detection idx text ty) (find_iter E r text)) ps)"
  by (induction ps arbitrary: det s) (auto simp: Let_def)

lemma inspect_patterns_clean:
  "\<forall>(ty, r) \<in> set ps. find_iter E r text = [] \<Longrightarrow>
     inspect_patterns E repl text idx ps det s = (det, s)"
  by (induction ps arbitrary: det s) (auto simp: Let_def)

text \<open>A text is suspicious when some pattern matches in it.\<close>

definition suspicious :: "'r regex_engine \<Rightarrow> 'r pattern_inspector \<Rightarrow> string \<Rightarrow> bool" where
  "suspicious E i t \<longleftrightarrow> (\<exists>(ty, r) \<in> set (patterns i). find_iter E r t \<noteq> [])"

lemma inspect_text_detected: "fst (inspect_text E i t idx) \<noteq> [] \<longleftrightarrow> suspicious E i t"
  by (simp add: inspect_text_def inspect_patterns_detected suspicious_def case_prod_beta)

lemma inspect_text_clean: "\<not> suspicious E i t \<Longrightarrow> inspect_text E i t idx = ([], t)"
  unfolding inspect_text_def by (rule inspect_patterns_clean) (auto simp: suspicious_def)

lemma jreplace_same: "jget b k = Some v \<Longrightarrow> jreplace k v b = b"
  by (cases b) (auto simp: jreplace_def AList.update_triv)

lemma jreplace_absent: "jget b k = None \<Longrightarrow> jreplace k v b = b"
  by (simp add: jreplace_def)

lemma block_text_cases:
  assumes "block_text b = Some t"
  obtains (member) "jget b ''text'' = Some (JStr t)" | (plain) "b = JStr t"
proof (cases "Option.bind (jget b ''text'') as_str")
  case None
  then show ?thesis using assms plain by (simp add: block_text_def)
next
  case (Some s)
  then have "jget b ''text'' = Some (JStr t)"
    using assms by (cases "jget b ''text''") (simp_all add: block_text_def)
  then show ?thesis by (rule member)
qed

lemma block_result_Some:
  "block_text b = Some t \<Longrightarrow>
     block_result E i idx b =
       (suspicious E i t \<or> snd (inspect_text E i t idx) \<noteq> t, fst (inspect_text E i t idx),
        jreplace ''text'' (JStr (snd (inspect_text E i t idx))) b)"
  using inspect_text_detected [of E i t idx] by (auto simp: block_result_def Let_def case_prod_beta)

lemma block_result_None: "block_text b = None \<Longrightarrow> block_result E i idx b = (False, [], b)"
  by (simp add: block_result_def)

lemma block_result_clean:
  assumes "\<nexists>t. block_text b = Some t \<and> suspicious E i t"
  shows "block_result E i idx b = (False, [], b)"
proof (cases "block_text b")
  case (Some t)
  then have "jreplace ''text'' (JStr t) b = b"
    by (cases rule: block_text_cases) (simp_all add: jreplace_same jreplace_absent)
  with Some assms show ?thesis by (simp add: block_result_Some inspect_text_clean)
qed (simp add: block_result_None)

lemma block_result_modified:
  "fst (block_result E i idx b) \<longleftrightarrow> (\<exists>t. block_text b = Some t \<and> suspicious E i t)"
  using block_result_clean [of b E i idx] by (cases "block_text b") (auto simp: block_result_Some)

lemma block_result_detected:
  "fst (snd (block_result E i idx b)) \<noteq> [] \<longleftrightarrow> (\<exists>t. block_text b = Some t \<and> suspicious E i t)"
  by (cases "block_text b") (simp_all add: block_result_Some block_result_None inspect_text_detected)

text \<open>Only the member \<open>text\<close> of a block is ever changed, and only to a string.\<close>

definition same_but_text :: "json \<Rightarrow> json \<Rightarrow> bool" where
  "same_but_text b b' \<longleftrightarrow>
     b' = b \<or> (\<exists>s s'. jget b ''text'' = Some (JStr s) \<and> b' = jset ''text'' (JStr s') b)"

lemma block_result_same_but_text: "same_but_text b (snd (snd (block_result E i idx b)))"
proof (cases "block_text b")
  case (Some t)
  then show ?thesis
    by (cases rule: block_text_cases)
      (use Some in \<open>auto simp: block_result_Some same_but_text_def jreplace_def\<close>)
qed (simp add: block_result_None same_but_text_def)

lemma sanitize_pattern:
  "sanitize_response E (PatternInspector i) x =
     Ok \<lparr>modified = list_ex (\<lambda>b. \<exists>t. block_text b = Some t \<and> suspicious E i t) (ins_content x),
         sanitized_content =
           map (\<lambda>(k, b). snd (snd (block_result E i k b))) (List.enumerate 0 (ins_content x)),
         detected_patterns =
           concat (map (\<lambda>(k, b). fst (snd (block_result E i k b))) (List.enumerate 0 (ins_content x)))\<rparr>"
proof -
  have "list_ex fst (map (\<lambda>(k, b). block_result E i k b) (List.enumerate n bs)) =
      list_ex (\<lambda>b. \<exists>t. block_text b = Some t \<and> suspicious E i t) bs" for n bs
    by (induction bs arbitrary: n) (auto simp: block_result_modified)
  then show ?thesis
    by (simp add: sanitize_blocks_map Let_def comp_def split_def)
qed

lemma sanitize_report:
  assumes "sanitize_response E (PatternInspector i) x = Ok r"
  shows "modified r \<longleftrightarrow> (\<exists>b \<in> set (ins_content x). \<exists>t. block_text b = Some t \<and> suspicious E i t)"
    and "detected_patterns r =
           concat (map (\<lambda>(k, b). fst (snd (block_result E i k b))) (List.enumerate 0 (ins_content x)))"
  using assms [unfolded sanitize_pattern result.inject, symmetric] by (simp_all only: inspection.simps list_ex_iff)

section \<open>The trait\<close>

text \<open>
  What the router relies on: an inspection does not fail, an unmodified result is the content as
  it was, and a modified one has the same blocks but for their texts.
\<close>

locale egress_inspector =
  fixes sanitize :: "inspectable \<Rightarrow> (inspection, guardrail_error) result"
  assumes total: "\<exists>r. sanitize x = Ok r"
    and unmodified: "sanitize x = Ok r \<Longrightarrow> \<not> modified r \<Longrightarrow> sanitized_content r = ins_content x"
    and blockwise: "sanitize x = Ok r \<Longrightarrow> list_all2 same_but_text (ins_content x) (sanitized_content r)"
begin

lemma same_count: "sanitize x = Ok r \<Longrightarrow> length (sanitized_content r) = length (ins_content x)"
  using blockwise list_all2_lengthD by metis

lemma other_members_kept:
  assumes "sanitize x = Ok r" "n < length (ins_content x)" "k \<noteq> ''text''"
  shows "jget (sanitized_content r ! n) k = jget (ins_content x ! n) k"
proof -
  have "same_but_text (ins_content x ! n) (sanitized_content r ! n)"
    using blockwise [OF assms(1)] assms(2) by (simp add: list_all2_conv_all_nth)
  then show ?thesis
    using assms(3) jget_Some_object by (auto simp: same_but_text_def jget_jset)
qed

lemma no_text_kept:
  assumes "sanitize x = Ok r" "n < length (ins_content x)"
    and "\<nexists>s. jget (ins_content x ! n) ''text'' = Some (JStr s)"
  shows "sanitized_content r ! n = ins_content x ! n"
  using blockwise [OF assms(1)] assms(2,3) by (auto simp: list_all2_conv_all_nth same_but_text_def)

end

interpretation egress: egress_inspector "sanitize_response E i"
proof
  show "\<exists>r. sanitize_response E i x = Ok r" for x
    by (cases i) (simp_all add: sanitize_blocks_map Let_def)
next
  fix x r
  assume r: "sanitize_response E i x = Ok r"
  show "sanitized_content r = ins_content x" if "\<not> modified r"
  proof (cases i)
    case (PatternInspector p)
    have "map (\<lambda>(k, b). snd (snd (block_result E p k b))) (List.enumerate n bs) = bs"
      if "\<not> list_ex (\<lambda>b. \<exists>t. block_text b = Some t \<and> suspicious E p t) bs" for n bs
      using that by (induction bs arbitrary: n) (auto simp: block_result_clean)
    with PatternInspector r that show ?thesis
      by (auto simp: sanitize_pattern simp del: sanitize_response.simps(2))
  qed (use r in auto)
  show "list_all2 same_but_text (ins_content x) (sanitized_content r)"
  proof (cases i)
    case StubInspector
    then show ?thesis using r by (auto simp: same_but_text_def list_all2_conv_all_nth)
  next
    case (PatternInspector p)
    have "list_all2 same_but_text bs (map (\<lambda>(k, b). snd (snd (block_result E p k b))) (List.enumerate n bs))"
      for n bs
      by (induction bs arbitrary: n) (auto simp: block_result_same_but_text)
    with PatternInspector r show ?thesis
      by (auto simp: sanitize_pattern simp del: sanitize_response.simps(2))
  qed
qed

section \<open>Properties\<close>

text \<open>Inspection never fails and never drops, adds or reorders blocks: each block comes back
  as it was except for the string in its member \<open>text\<close>, and if nothing is reported as modified,
  the content is returned unchanged.\<close>

theorem sanitize_shape:
  "\<exists>r. sanitize_response E i x = Ok r \<and>
       list_all2 same_but_text (ins_content x) (sanitized_content r) \<and>
       (\<not> modified r \<longrightarrow> sanitized_content r = ins_content x)"
  using egress.total egress.blockwise egress.unmodified by blast

text \<open>An engine whose only pattern is the literal \<open>evil\<close>.\<close>

definition evil_regex :: "string regex_engine" where
  "evil_regex =
     \<lparr>regex_new = Ok, is_match = str_contains,
      find_iter = (\<lambda>r s. if s = r then [(0, length r)] else []),
      replace_all = (\<lambda>r s t. str_replace r t s), regex_escape = (\<lambda>s. s)\<rparr>"

definition evil_inspector :: "string pattern_inspector" where
  "evil_inspector = \<lparr>patterns = [(SystemOverride, ''evil'')], replacement = REDACTED\<rparr>"

lemma sanitize_shape_witness:
  "\<exists>r. sanitize_response evil_regex StubInspector
         \<lparr>ins_tool_name = ''t'', ins_content = [JStr ''a'', JNull], ins_server_id = ''s''\<rparr> = Ok r \<and>
       sanitized_content r = [JStr ''a'', JNull]"
  using sanitize_shape [of evil_regex StubInspector
      "\<lparr>ins_tool_name = ''t'', ins_content = [JStr ''a'', JNull], ins_server_id = ''s''\<rparr>"]
  by auto

text \<open>C26: The pattern inspector reports a modification exactly when one of its patterns matches in
  the text of some block, and then it lists at least one detection.\<close>

theorem modified_iff_suspicious:
  assumes "sanitize_response E (PatternInspector i) x = Ok r"
  shows "(modified r \<longleftrightarrow>
            (\<exists>b \<in> set (ins_content x). \<exists>t. block_text b = Some t \<and> suspicious E i t)) \<and>
         (modified r \<longleftrightarrow> detected_patterns r \<noteq> [])"
proof -
  have "concat (map (\<lambda>(k, b). fst (snd (block_result E i k b))) (List.enumerate n bs)) \<noteq> [] \<longleftrightarrow>
      (\<exists>b \<in> set bs. \<exists>t. block_text b = Some t \<and> suspicious E i t)" for n bs
    by (induction bs arbitrary: n)
      (simp_all add: block_result_detected de_Morgan_conj del: concat_eq_Nil_conv)
  then show ?thesis
    unfolding sanitize_report [OF assms] by blast
qed

lemma modified_iff_suspicious_witness:
  "\<exists>r. sanitize_response evil_regex (PatternInspector evil_inspector)
         \<lparr>ins_tool_name = ''t'', ins_content = [JObj [(''text'', JStr ''evil'')]], ins_server_id = ''s''\<rparr> = Ok r \<and>
       modified r"
proof -
  let ?x = "\<lparr>ins_tool_name = ''t'', ins_content = [JObj [(''text'', JStr ''evil'')]], ins_server_id = ''s''\<rparr>"
  obtain r where r: "sanitize_response evil_regex (PatternInspector evil_inspector) ?x = Ok r"
    using egress.total by blast
  moreover have "suspicious evil_regex evil_inspector ''evil''"
    by (simp add: suspicious_def evil_regex_def evil_inspector_def)
  ultimately show ?thesis
    using modified_iff_suspicious [OF r] by (auto simp: block_text_def)
qed

text \<open>A content block that is a plain JSON string is inspected but never rewritten: it comes
  back unchanged even when a pattern matches in it and the result is reported as modified.\<close>

theorem string_block_not_sanitized:
  assumes "sanitize_response E (PatternInspector i) x = Ok r"
    and "n < length (ins_content x)" "ins_content x ! n = JStr t"
  shows "sanitized_content r ! n = JStr t \<and> (suspicious E i t \<longrightarrow> modified r)"
proof
  show "sanitized_content r ! n = JStr t"
    using egress.no_text_kept [OF assms(1,2)] assms(3) by simp
  have "block_text (ins_content x ! n) = Some t" "ins_content x ! n \<in> set (ins_content x)"
    using assms(2,3) nth_mem [OF assms(2)] by (simp_all add: block_text_def)
  then show "suspicious E i t \<longrightarrow> modified r"
    unfolding sanitize_report(1) [OF assms(1)] by blast
qed

lemma string_block_not_sanitized_witness:
  "\<exists>r. sanitize_response evil_regex (PatternInspector evil_inspector)
         \<lparr>ins_tool_name = ''t'', ins_content = [JStr ''evil''], ins_server_id = ''s''\<rparr> = Ok r \<and>
       modified r \<and> sanitized_content r ! 0 = JStr ''evil''"
proof -
  let ?x = "\<lparr>ins_tool_name = ''t'', ins_content = [JStr ''evil''], ins_server_id = ''s''\<rparr>"
  obtain r where r: "sanitize_response evil_regex (PatternInspector evil_inspector) ?x = Ok r"
    using egress.total by blast
  moreover have "suspicious evil_regex evil_inspector ''evil''"
    by (simp add: suspicious_def evil_regex_def evil_inspector_def)
  ultimately show ?thesis
    using string_block_not_sanitized [OF r, of 0 "''evil''"] by simp
qed

end
