(* ===== verification/Cedar.thy ===== *)
theory Cedar
  imports Json
begin

text \<open>
  \<open>src/policy/cedar.rs\<close>: the policy authorizer. The crate \<open>cedar-policy\<close> is a parameter: its
  parsers, its entity and request constructors and its decision procedure. What the code does
  around it is the model: the entities it builds from a request, the entity identifiers and the
  set expression it prints for the parsers, and the policy set it keeps.
\<close>

section \<open>Requests and responses\<close>

datatype cedar_decision = CedarAllow | CedarDeny

record auth_request =
  principal :: string
  action :: string
  resource :: string
  context_attrs :: "json hmap"

record auth_response =
  ar_decision :: cedar_decision
  deciding_policies :: "string list"
  diagnostics :: "string list"

datatype cedar_error =
  CedarParseError string
| CedarValidationError string
| CedarEvaluationError string
| CedarIoError string

fun cedar_error_text :: "cedar_error \<Rightarrow> string" where
  "cedar_error_text (CedarParseError m) = fmt [''Policy parse error: '', m]"
| "cedar_error_text (CedarValidationError m) = fmt [''Policy validation error: '', m]"
| "cedar_error_text (CedarEvaluationError m) = fmt [''Evaluation error: '', m]"
| "cedar_error_text (CedarIoError m) = fmt [''IO error: '', m]"

section \<open>The engine\<close>

text \<open>A parse error of a policy set has two texts, the alternate and the plain one. \<open>authorize\<close> gives
  the decision and the identifiers of the policies that are its reason.\<close>

record ('u, 'x, 'n, 'es, 'q, 'ps) cedar_engine =
  ce_parse_policies :: "string \<Rightarrow> ('ps, string \<times> string) result"
  ce_parse_uid :: "string \<Rightarrow> ('u, string) result"
  ce_parse_expr :: "string \<Rightarrow> ('x, string) result"
  ce_entity :: "'u \<Rightarrow> (string \<times> 'x) list \<Rightarrow> ('n, string) result"
  ce_entity_no_attrs :: "'u \<Rightarrow> 'n"
  ce_entities :: "'n list \<Rightarrow> ('es, string) result"
  ce_request :: "'u \<Rightarrow> 'u \<Rightarrow> 'u \<Rightarrow> ('q, string) result"
  ce_authorize :: "'q \<Rightarrow> 'ps \<Rightarrow> 'es \<Rightarrow> cedar_decision \<times> string list"

record 'ps policy_authorizer =
  policy_source :: string
  policy_set :: 'ps

definition parse_policies ::
  "('u, 'x, 'n, 'es, 'q, 'ps) cedar_engine \<Rightarrow> string \<Rightarrow> ('ps, cedar_error) result" where
  "parse_policies E source = map_err (\<lambda>(alt, _). CedarParseError alt) (ce_parse_policies E source)"

definition authorizer_new ::
  "('u, 'x, 'n, 'es, 'q, 'ps) cedar_engine \<Rightarrow> string \<Rightarrow> ('ps policy_authorizer, cedar_error) result" where
  "authorizer_new E source =
    (case parse_policies E source of
       Err e \<Rightarrow> Err e
     | Ok ps \<Rightarrow> Ok \<lparr>policy_source = source, policy_set = ps\<rparr>)"

text \<open>The outcome of reading the file is an argument.\<close>

definition authorizer_from_file ::
  "('u, 'x, 'n, 'es, 'q, 'ps) cedar_engine \<Rightarrow> (string, string) result \<Rightarrow>
     ('ps policy_authorizer, cedar_error) result" where
  "authorizer_from_file E content =
    (case content of
       Err e \<Rightarrow> Err (CedarIoError e)
     | Ok source \<Rightarrow> authorizer_new E source)"

definition parse_euid ::
  "('u, 'x, 'n, 'es, 'q, 'ps) cedar_engine \<Rightarrow> string \<Rightarrow> ('u, cedar_error) result" where
  "parse_euid E s =
     map_err (\<lambda>e. CedarEvaluationError (fmt [''Invalid entity UID '', quoted s, '': '', e])) (ce_parse_uid E s)"

definition euid_text :: "string \<Rightarrow> string \<Rightarrow> string" where
  "euid_text ty ident = fmt [ty, ''::'', dquoted ident]"

definition scopes_set_expr :: "string list \<Rightarrow> string" where
  "scopes_set_expr scopes = fmt [''['', join '','' (map dquoted scopes), '']'']"

text \<open>The entity comes with its identifier, which \<open>uid()\<close> reads back.\<close>

definition build_principal_entity ::
  "('u, 'x, 'n, 'es, 'q, 'ps) cedar_engine \<Rightarrow> string \<Rightarrow> string list \<Rightarrow> ('u \<times> 'n, cedar_error) result" where
  "build_principal_entity E ident scopes =
    (case parse_euid E (euid_text ''Client'' ident) of
       Err e \<Rightarrow> Err e
     | Ok u \<Rightarrow>
         (case ce_parse_expr E (scopes_set_expr scopes) of
            Err e \<Rightarrow> Err (CedarEvaluationError e)
          | Ok x \<Rightarrow>
              (case ce_entity E u [(''scopes'', x)] of
                 Err e \<Rightarrow> Err (CedarEvaluationError e)
               | Ok n \<Rightarrow> Ok (u, n))))"

definition build_action_entity ::
  "('u, 'x, 'n, 'es, 'q, 'ps) cedar_engine \<Rightarrow> string \<Rightarrow> ('u \<times> 'n, cedar_error) result" where
  "build_action_entity E act =
    (case parse_euid E (euid_text ''Action'' act) of
       Err e \<Rightarrow> Err e
     | Ok u \<Rightarrow> Ok (u, ce_entity_no_attrs E u))"

definition build_resource_entity ::
  "('u, 'x, 'n, 'es, 'q, 'ps) cedar_engine \<Rightarrow> string \<Rightarrow> bool \<Rightarrow> ('u \<times> 'n, cedar_error) result" where
  "build_resource_entity E ident is_tool =
    (case parse_euid E (euid_text (if is_tool then ''Tool'' else ''Resource'') ident) of
       Err e \<Rightarrow> Err e
     | Ok u \<Rightarrow> Ok (u, ce_entity_no_attrs E u))"

definition request_scopes :: "auth_request \<Rightarrow> string list" where
  "request_scopes r =
    (case Option.bind (hm_get (context_attrs r) ''scopes'') as_array of
       Some arr \<Rightarrow> List.map_filter as_str arr
     | None \<Rightarrow> [])"

definition decision_word :: "cedar_decision \<Rightarrow> string" where
  "decision_word d = (case d of CedarAllow \<Rightarrow> ''ALLOW'' | CedarDeny \<Rightarrow> ''DENY'')"

definition policy_evaluate ::
  "('u, 'x, 'n, 'es, 'q, 'ps) cedar_engine \<Rightarrow> 'ps policy_authorizer \<Rightarrow> auth_request \<Rightarrow>
     (auth_response, cedar_error) result" where
  "policy_evaluate E a r =
     bind_result (build_principal_entity E (principal r) (request_scopes r)) (\<lambda>(pu, pn).
     bind_result (build_action_entity E (action r)) (\<lambda>(au, an).
     bind_result (build_resource_entity E (resource r) (action r = ''tools/call'')) (\<lambda>(ru, rn).
     bind_result (map_err CedarEvaluationError (ce_entities E [pn, an, rn])) (\<lambda>es.
     bind_result (map_err CedarEvaluationError (ce_request E pu au ru)) (\<lambda>q.
       let (d, reasons) = ce_authorize E q (policy_set a) es in
       Ok \<lparr>ar_decision = d, deciding_policies = reasons,
           diagnostics =
             map (\<lambda>i. fmt [''policy '', i, '' contributed to '', decision_word d]) reasons\<rparr>)))))"

section \<open>The authorizers\<close>

datatype 'ps authorizer = StubAuthorizer | CedarPolicyAuthorizer "'ps policy_authorizer"

definition stub_response :: auth_response where
  "stub_response =
     \<lparr>ar_decision = CedarAllow, deciding_policies = [''stub-permit-all''],
      diagnostics = [''Stub authorizer: all requests allowed'']\<rparr>"

fun authorizer_evaluate ::
  "('u, 'x, 'n, 'es, 'q, 'ps) cedar_engine \<Rightarrow> 'ps authorizer \<Rightarrow> auth_request \<Rightarrow>
     (auth_response, cedar_error) result" where
  "authorizer_evaluate E StubAuthorizer r = Ok stub_response"
| "authorizer_evaluate E (CedarPolicyAuthorizer a) r = policy_evaluate E a r"

fun reload_policies ::
  "('u, 'x, 'n, 'es, 'q, 'ps) cedar_engine \<Rightarrow> 'ps authorizer \<Rightarrow> (unit, cedar_error) result \<times> 'ps authorizer" where
  "reload_policies E StubAuthorizer = (Ok (), StubAuthorizer)"
| "reload_policies E (CedarPolicyAuthorizer a) =
    (case parse_policies E (policy_source a) of
       Err e \<Rightarrow> (Err e, CedarPolicyAuthorizer a)
     | Ok ps \<Rightarrow> (Ok (), CedarPolicyAuthorizer (a\<lparr>policy_set := ps\<rparr>)))"

fun validate_policy ::
  "('u, 'x, 'n, 'es, 'q, 'ps) cedar_engine \<Rightarrow> 'ps authorizer \<Rightarrow> string \<Rightarrow> (unit, cedar_error) result" where
  "validate_policy E StubAuthorizer t = Ok ()"
| "validate_policy E (CedarPolicyAuthorizer a) t =
    (case ce_parse_policies E t of
       Err (_, plain) \<Rightarrow> Err (CedarValidationError plain)
     | Ok _ \<Rightarrow> Ok ())"

section \<open>The trait\<close>

text \<open>The set an authorizer holds is what its source text parses to.\<close>

fun authorizer_inv :: "('u, 'x, 'n, 'es, 'q, 'ps) cedar_engine \<Rightarrow> 'ps authorizer \<Rightarrow> bool" where
  "authorizer_inv E StubAuthorizer = True"
| "authorizer_inv E (CedarPolicyAuthorizer a) = (parse_policies E (policy_source a) = Ok (policy_set a))"

text \<open>What a caller can rely on: an authorizer that was built stays well formed under reloads, a
  reload of a well-formed authorizer succeeds, and it changes no verdict.\<close>

locale cedar_authorizer =
  fixes evaluate :: "'a \<Rightarrow> auth_request \<Rightarrow> (auth_response, cedar_error) result"
    and reload :: "'a \<Rightarrow> (unit, cedar_error) result \<times> 'a"
    and wf :: "'a \<Rightarrow> bool"
  assumes reload_wf: "wf a \<Longrightarrow> wf (snd (reload a))"
    and reload_ok: "wf a \<Longrightarrow> fst (reload a) = Ok ()"
    and reload_same: "wf a \<Longrightarrow> evaluate (snd (reload a)) r = evaluate a r"
begin

lemma reloads_same:
  "wf a \<Longrightarrow> evaluate (((snd \<circ> reload) ^^ n) a) r = evaluate a r \<and> wf (((snd \<circ> reload) ^^ n) a)"
  by (induction n) (auto simp: reload_same reload_wf)

end

interpretation cedar: cedar_authorizer "authorizer_evaluate E" "reload_policies E" "authorizer_inv E"
proof
  fix a :: "'f authorizer" and r
  assume wf: "authorizer_inv E a"
  show "authorizer_inv E (snd (reload_policies E a))" "fst (reload_policies E a) = Ok ()"
    "authorizer_evaluate E (snd (reload_policies E a)) r = authorizer_evaluate E a r"
    using wf by (cases a; simp)+
qed

lemma authorizer_new_inv:
  "authorizer_new E source = Ok a \<Longrightarrow> authorizer_inv E (CedarPolicyAuthorizer a)"
  by (auto simp: authorizer_new_def split: result.splits)

section \<open>Properties\<close>

text \<open>Reloading never changes the verdicts of an authorizer: a reload parses the source text
  kept at construction again, so it succeeds and leaves every decision as it was, any number of
  times. (A policy file edited after start-up is not picked up.)\<close>

theorem reload_changes_no_verdict:
  assumes "authorizer_from_file E content = Ok a"
  shows "fst (reload_policies E (CedarPolicyAuthorizer a)) = Ok () \<and>
         authorizer_evaluate E (((snd \<circ> reload_policies E) ^^ n) (CedarPolicyAuthorizer a)) r =
         authorizer_evaluate E (CedarPolicyAuthorizer a) r"
proof -
  have "authorizer_inv E (CedarPolicyAuthorizer a)"
    using assms authorizer_new_inv by (auto simp: authorizer_from_file_def split: result.splits)
  then show ?thesis
    using cedar.reload_ok cedar.reloads_same by blast
qed

text \<open>An engine for the witnesses: everything parses to itself, and a request is allowed when the
  policy text occurs in the printed set of scopes.\<close>

definition sample_cedar ::
  "(string, string, string, string list, string list, string) cedar_engine" where
  "sample_cedar =
     \<lparr>ce_parse_policies = Ok, ce_parse_uid = Ok, ce_parse_expr = Ok,
      ce_entity = (\<lambda>u as. Ok (u @ concat (map snd as))), ce_entity_no_attrs = (\<lambda>u. u),
      ce_entities = Ok, ce_request = (\<lambda>p a r. Ok [p, a, r]),
      ce_authorize = (\<lambda>q ps es. if str_contains (hd es) ps then (CedarAllow, [''p0'']) else (CedarDeny, []))\<rparr>"

lemma reload_changes_no_verdict_witness:
  "\<exists>a. authorizer_evaluate sample_cedar (((snd \<circ> reload_policies sample_cedar) ^^ 3) (CedarPolicyAuthorizer a))
         \<lparr>principal = ''p'', action = ''ping'', resource = ''any'', context_attrs = []\<rparr> =
       authorizer_evaluate sample_cedar (CedarPolicyAuthorizer a)
         \<lparr>principal = ''p'', action = ''ping'', resource = ''any'', context_attrs = []\<rparr>"
proof -
  have "authorizer_from_file sample_cedar (Ok ''x'') = Ok \<lparr>policy_source = ''x'', policy_set = ''x''\<rparr>"
    by (simp add: authorizer_from_file_def authorizer_new_def parse_policies_def sample_cedar_def)
  from reload_changes_no_verdict [OF this, of 3] show ?thesis by blast
qed

text \<open>Scopes are put between quotation marks without escaping, so one scope that contains
  \<open>","\<close> is, for every engine and every policy, the same principal as one that holds the two
  scopes apart.\<close>

theorem scope_injection:
  "build_principal_entity E ident (pre @ [fmt [a, [CHR 0x22], '','', [CHR 0x22], b]] @ post) =
   build_principal_entity E ident (pre @ [a, b] @ post)"
proof -
  have "scopes_set_expr (pre @ [fmt [a, [CHR 0x22], '','', [CHR 0x22], b]] @ post) =
      scopes_set_expr (pre @ [a, b] @ post)"
    by (simp add: scopes_set_expr_def join_append join_Cons dquoted_def fmt_def)
  then show ?thesis by (simp only: build_principal_entity_def)
qed

end
