(* ===== verification/Metrics.thy ===== *)
theory Metrics
  imports Rust_Str
begin

text \<open>
  \<open>src/telemetry/metrics.rs\<close>: the metrics recorder. The crate \<open>metrics\<close> is a sink, so the model
  keeps what is sent to it, in order: the log of metric operations with names and labels.
\<close>

datatype metric =
  CounterIncrement string "(string \<times> string) list"
| HistogramRecord string "(string \<times> string) list" nat
| GaugeIncrement string
| GaugeDecrement string
| GaugeSet string int

type_synonym metrics_log = "metric list"

definition REQUESTS_TOTAL :: string where "REQUESTS_TOTAL = ''mcp_requests_total''"
definition REQUEST_DURATION :: string where "REQUEST_DURATION = ''mcp_request_duration_seconds''"
definition BLOCKED_TOTAL :: string where "BLOCKED_TOTAL = ''mcp_blocked_requests_total''"
definition VALIDATION_TOTAL :: string where "VALIDATION_TOTAL = ''mcp_validation_failures_total''"

text \<open>The duration is in nanoseconds; \<open>as_secs_f64\<close> only changes its unit.\<close>

definition record_request :: "string \<Rightarrow> string \<Rightarrow> string \<Rightarrow> nat \<Rightarrow> metrics_log \<Rightarrow> metrics_log" where
  "record_request method transport status duration l =
     l @ [CounterIncrement REQUESTS_TOTAL
            [(''method'', method), (''transport'', transport), (''status'', status)],
          HistogramRecord REQUEST_DURATION [(''method'', method)] duration]"

definition increment_active_sessions :: "metrics_log \<Rightarrow> metrics_log" where
  "increment_active_sessions l = l @ [GaugeIncrement ''mcp_active_sessions'']"

definition decrement_active_sessions :: "metrics_log \<Rightarrow> metrics_log" where
  "decrement_active_sessions l = l @ [GaugeDecrement ''mcp_active_sessions'']"

definition increment_auth_failure :: "string \<Rightarrow> metrics_log \<Rightarrow> metrics_log" where
  "increment_auth_failure reason l =
     l @ [CounterIncrement ''mcp_auth_failures_total'' [(''reason'', reason)]]"

definition increment_validation_failure :: "string \<Rightarrow> metrics_log \<Rightarrow> metrics_log" where
  "increment_validation_failure reason l =
     l @ [CounterIncrement VALIDATION_TOTAL [(''reason'', reason)]]"

definition increment_blocked_request :: "string \<Rightarrow> metrics_log \<Rightarrow> metrics_log" where
  "increment_blocked_request reason l =
     l @ [CounterIncrement BLOCKED_TOTAL [(''reason'', reason)]]"

definition record_tool_registration :: "string \<Rightarrow> metrics_log \<Rightarrow> metrics_log" where
  "record_tool_registration p l =
     l @ [CounterIncrement ''mcp_tool_registrations_total'' [(''prefix'', p)],
          GaugeIncrement ''mcp_registered_tools'']"

definition record_tool_deregistration :: "metrics_log \<Rightarrow> metrics_log" where
  "record_tool_deregistration l = l @ [GaugeDecrement ''mcp_registered_tools'']"

definition record_upstream_request :: "string \<Rightarrow> string \<Rightarrow> metrics_log \<Rightarrow> metrics_log" where
  "record_upstream_request srv status l =
     l @ [CounterIncrement ''mcp_upstream_requests_total'' [(''server'', srv), (''status'', status)]]"

definition set_active_connections :: "int \<Rightarrow> metrics_log \<Rightarrow> metrics_log" where
  "set_active_connections n l = l @ [GaugeSet ''mcp_active_connections'' n]"

text \<open>How often a counter was incremented.\<close>

definition counted :: "string \<Rightarrow> metrics_log \<Rightarrow> nat" where
  "counted name l = length (filter (\<lambda>m. \<exists>ls. m = CounterIncrement name ls) l)"

lemma counted_append [simp]: "counted n (l @ l') = counted n l + counted n l'"
  by (simp add: counted_def)

lemma counted_simps [simp]:
  "counted n [] = 0"
  "counted n (m # l) = (if \<exists>ls. m = CounterIncrement n ls then 1 else 0) + counted n l"
  by (simp_all add: counted_def)

lemma metric_names_distinct:
  "REQUESTS_TOTAL \<noteq> BLOCKED_TOTAL" "BLOCKED_TOTAL \<noteq> REQUESTS_TOTAL"
  "REQUESTS_TOTAL \<noteq> VALIDATION_TOTAL" "VALIDATION_TOTAL \<noteq> REQUESTS_TOTAL"
  by (simp_all add: REQUESTS_TOTAL_def BLOCKED_TOTAL_def VALIDATION_TOTAL_def)

end
