(* ===== verification/Producer.thy ===== *)
theory Producer
  imports Json
begin

text \<open>
  \<open>src/telemetry/producer.rs\<close>: audit events and the producers that publish them. The trait
  \<open>EventProducer\<close> is the locale \<open>event_producer\<close>; its implementations are the constructors of
  \<open>producer\<close>. What a producer has taken on is its state: the lines the logging producer wrote,
  the buffer of the buffering producer. A Kafka producer (a feature that is off by default) keeps
  what it handed to its client; whether a delivery fails is decided by an outcome it carries.
\<close>

section \<open>Events\<close>

datatype auth_decision = DecAllow | DecDeny | DecDenyPolicy | DecBlock

record audit_event =
  event_id :: string
  timestamp :: string
  ev_method :: string
  ev_request_id :: "string option"
  ev_session_id :: "string option"
  ev_principal :: "string option"
  ev_scopes :: "string list"
  decision :: auth_decision
  request_payload :: "json option"
  response_payload :: "json option"
  ev_error_code :: "i64 option"
  duration_ms :: u64
  transport :: string

fun auth_decision_to_json :: "auth_decision \<Rightarrow> json" where
  "auth_decision_to_json DecAllow = JStr ''allow''"
| "auth_decision_to_json DecDeny = JStr ''deny''"
| "auth_decision_to_json DecDenyPolicy = JStr ''denypolicy''"
| "auth_decision_to_json DecBlock = JStr ''block''"

definition opt_json :: "('a \<Rightarrow> json) \<Rightarrow> 'a option \<Rightarrow> json" where
  "opt_json f x = (case x of None \<Rightarrow> JNull | Some a \<Rightarrow> f a)"

definition audit_event_to_json :: "audit_event \<Rightarrow> json" where
  "audit_event_to_json e =
     JObj [(''event_id'', JStr (event_id e)), (''timestamp'', JStr (timestamp e)),
           (''method'', JStr (ev_method e)), (''request_id'', opt_json JStr (ev_request_id e)),
           (''session_id'', opt_json JStr (ev_session_id e)),
           (''principal'', opt_json JStr (ev_principal e)),
           (''scopes'', JArr (map JStr (ev_scopes e))),
           (''decision'', auth_decision_to_json (decision e)),
           (''request_payload'', opt_json id (request_payload e)),
           (''response_payload'', opt_json id (response_payload e)),
           (''error_code'', opt_json of_i64 (ev_error_code e)),
           (''duration_ms'', JNum (PosInt (duration_ms e))), (''transport'', JStr (transport e))]"

datatype producer_error =
  PeKafka string | PeSerialization string | PeChannelFull | PeNotConnected

fun producer_error_text :: "producer_error \<Rightarrow> string" where
  "producer_error_text (PeKafka m) = fmt [''Kafka error: '', m]"
| "producer_error_text (PeSerialization m) = fmt [''Serialization error: '', m]"
| "producer_error_text PeChannelFull = ''Channel full: events are being dropped''"
| "producer_error_text PeNotConnected = ''Producer not connected''"

section \<open>Producers\<close>

text \<open>A Kafka record: its key and its payload. \<open>kafka_outcomes\<close> are the answers of the client
  to the sends to come, \<open>None\<close> for a delivery (no more answers: delivered).\<close>

record kafka_state =
  kafka_topic :: string
  kafka_sent :: "(string \<times> string) list"
  kafka_outcomes :: "string option list"

datatype producer =
  NoopProducer
| LoggingProducer "string list"
| BufferingProducer "audit_event list"
| KafkaProducer kafka_state
| FanoutProducer "producer list"

definition kafka_key :: "audit_event \<Rightarrow> string" where
  "kafka_key e = (case ev_session_id e of Some s \<Rightarrow> s | None \<Rightarrow> event_id e)"

definition kafka_publish ::
  "json_codec \<Rightarrow> audit_event \<Rightarrow> kafka_state \<Rightarrow> (unit, producer_error) result \<times> kafka_state" where
  "kafka_publish C e k =
    (let k' = k\<lparr>kafka_sent := kafka_sent k @ [(kafka_key e, to_text C (audit_event_to_json e))],
                kafka_outcomes := tl (kafka_outcomes k)\<rparr>
     in case kafka_outcomes k of
          Some err # _ \<Rightarrow> (Err (PeKafka (fmt [''Kafka send failed: '', err])), k')
        | _ \<Rightarrow> (Ok (), k'))"

text \<open>The producer that logs and the one that buffers. Serialising the event's JSON value cannot fail.\<close>

definition logging_publish ::
  "json_codec \<Rightarrow> audit_event \<Rightarrow> string list \<Rightarrow> (unit, producer_error) result \<times> string list" where
  "logging_publish C e lines = (Ok (), lines @ [to_text C (audit_event_to_json e)])"

definition buffering_publish ::
  "audit_event \<Rightarrow> audit_event list \<Rightarrow> (unit, producer_error) result \<times> audit_event list" where
  "buffering_publish e buf = (Ok (), buf @ [e])"

text \<open>The call through the trait. The fan-out tries every member and reports the last error.\<close>

fun publish_audit_event ::
  "json_codec \<Rightarrow> audit_event \<Rightarrow> producer \<Rightarrow> (unit, producer_error) result \<times> producer"
and publish_all ::
  "json_codec \<Rightarrow> audit_event \<Rightarrow> producer list \<Rightarrow> producer_error option \<Rightarrow>
     producer_error option \<times> producer list" where
  "publish_audit_event C e NoopProducer = (Ok (), NoopProducer)"
| "publish_audit_event C e (LoggingProducer lines) =
     (let (res, lines') = logging_publish C e lines in (res, LoggingProducer lines'))"
| "publish_audit_event C e (BufferingProducer buf) =
     (let (res, buf') = buffering_publish e buf in (res, BufferingProducer buf'))"
| "publish_audit_event C e (KafkaProducer k) =
     (let (res, k') = kafka_publish C e k in (res, KafkaProducer k'))"
| "publish_audit_event C e (FanoutProducer ps) =
     (let (last_err, ps') = publish_all C e ps None
      in (case last_err of None \<Rightarrow> Ok () | Some err \<Rightarrow> Err err, FanoutProducer ps'))"
| "publish_all C e [] last_err = (last_err, [])"
| "publish_all C e (p # ps) last_err =
     (case publish_audit_event C e p of
        (res, p') \<Rightarrow>
          (let last' = (case res of Err err \<Rightarrow> Some err | Ok _ \<Rightarrow> last_err);
               (final, ps') = publish_all C e ps last'
           in (final, p' # ps')))"

lemmas publish_defs [simp] = logging_publish_def buffering_publish_def

text \<open>Flushing. The Kafka client's own answer is dropped, and the fan-out only warns of an error.\<close>

fun flush :: "producer \<Rightarrow> (unit, producer_error) result"
and flush_all :: "producer list \<Rightarrow> (unit, producer_error) result" where
  "flush NoopProducer = Ok ()"
| "flush (LoggingProducer lines) = Ok ()"
| "flush (BufferingProducer buf) = Ok ()"
| "flush (KafkaProducer k) = Ok ()"
| "flush (FanoutProducer ps) = flush_all ps"
| "flush_all [] = Ok ()"
| "flush_all (p # ps) = (case flush p of Err _ \<Rightarrow> flush_all ps | Ok _ \<Rightarrow> flush_all ps)"

section \<open>Making producers\<close>

record kafka_config =
  kc_bootstrap_servers :: "string list"
  kc_topic :: string
  kc_client_id :: string
  kc_acks :: string
  kc_retries :: "32 word"
  kc_max_in_flight :: "32 word"
  kc_compression_type :: string
  kc_linger_ms :: "32 word"
  kc_batch_size :: "32 word"

definition kafka_config_default :: kafka_config where
  "kafka_config_default =
     \<lparr>kc_bootstrap_servers = [''localhost:9092''], kc_topic = ''mcp-shield-audit'',
      kc_client_id = ''mcp-shield'', kc_acks = ''all'', kc_retries = 3, kc_max_in_flight = 5,
      kc_compression_type = ''snappy'', kc_linger_ms = 5, kc_batch_size = 16384\<rparr>"

definition kafka_settings :: "kafka_config \<Rightarrow> (string \<times> string) list" where
  "kafka_settings c =
     [(''bootstrap.servers'', join '','' (kc_bootstrap_servers c)),
      (''client.id'', kc_client_id c), (''acks'', kc_acks c),
      (''retries'', show_int (sint (kc_retries c))),
      (''max.in.flight.requests.per.connection'', show_int (sint (kc_max_in_flight c))),
      (''compression.type'', kc_compression_type c),
      (''linger.ms'', show_int (sint (kc_linger_ms c))),
      (''batch.size'', show_int (sint (kc_batch_size c))),
      (''message.timeout.ms'', ''30000''), (''enable.idempotence'', ''true'')]"

text \<open>Making the client from its settings is the library's business: \<open>create\<close> tells the error, if
  there is one, and the answers the client will give.\<close>

definition kafka_new ::
  "((string \<times> string) list \<Rightarrow> (string option list, string) result) \<Rightarrow> kafka_config \<Rightarrow>
     (producer, producer_error) result" where
  "kafka_new create c =
    (case create (kafka_settings c) of
       Err e \<Rightarrow> Err (PeKafka (fmt [''Failed to create Kafka producer: '', e]))
     | Ok outcomes \<Rightarrow>
         Ok (KafkaProducer \<lparr>kafka_topic = kc_topic c, kafka_sent = [], kafka_outcomes = outcomes\<rparr>))"

definition check_connection :: "kafka_state \<Rightarrow> bool" where
  "check_connection k = True"

definition buffering_new :: producer where
  "buffering_new = BufferingProducer []"

definition fanout_new :: "producer list \<Rightarrow> producer" where
  "fanout_new ps = FanoutProducer ps"

fun buffered :: "producer \<Rightarrow> nat" where
  "buffered (BufferingProducer buf) = length buf"
| "buffered p = 0"

fun drain :: "producer \<Rightarrow> audit_event list \<times> producer" where
  "drain (BufferingProducer buf) = (buf, BufferingProducer [])"
| "drain p = ([], p)"

fun add_producer :: "producer \<Rightarrow> producer \<Rightarrow> producer" where
  "add_producer q (FanoutProducer ps) = FanoutProducer (ps @ [q])"
| "add_producer q p = p"

section \<open>What producers promise\<close>

text \<open>A producer that has taken on the events \<open>es\<close>: at every sink, and in order, a line of JSON, the event
  itself, or a record under its session (its own identifier when it has none).\<close>

definition event_line :: "json_codec \<Rightarrow> audit_event \<Rightarrow> string" where
  "event_line C e = to_text C (audit_event_to_json e)"

fun after_events :: "json_codec \<Rightarrow> audit_event list \<Rightarrow> producer \<Rightarrow> producer" where
  "after_events C es NoopProducer = NoopProducer"
| "after_events C es (LoggingProducer lines) = LoggingProducer (lines @ map (event_line C) es)"
| "after_events C es (BufferingProducer buf) = BufferingProducer (buf @ es)"
| "after_events C es (KafkaProducer k) =
     KafkaProducer (k\<lparr>kafka_sent := kafka_sent k @
         map (\<lambda>e. (case ev_session_id e of Some i \<Rightarrow> i | None \<Rightarrow> event_id e, event_line C e)) es,
       kafka_outcomes := drop (length es) (kafka_outcomes k)\<rparr>)"
| "after_events C es (FanoutProducer ps) = FanoutProducer (map (after_events C es) ps)"

text \<open>What the \<open>n\<close>-th publication to come answers: the failed delivery of a Kafka client, and of a fan-out
  the last of its members' errors.\<close>

fun nth_error :: "nat \<Rightarrow> producer \<Rightarrow> producer_error option" where
  "nth_error n (KafkaProducer k) =
    (if n < length (kafka_outcomes k)
     then map_option (\<lambda>err. PeKafka (fmt [''Kafka send failed: '', err])) (kafka_outcomes k ! n) else None)"
| "nth_error n (FanoutProducer ps) =
    (case filter (\<lambda>x. x \<noteq> None) (map (nth_error n) ps) of [] \<Rightarrow> None | errs \<Rightarrow> last errs)"
| "nth_error n p = None"

definition answer_of :: "producer_error option \<Rightarrow> (unit, producer_error) result" where
  "answer_of err = (case err of None \<Rightarrow> Ok () | Some x \<Rightarrow> Err x)"

lemma after_events_Nil: "after_events C [] p = p"
  by (induction C "[] :: audit_event list" p rule: after_events.induct) (simp_all add: map_idI)

lemma after_events_append: "after_events C (es @ fs) p = after_events C fs (after_events C es p)"
  by (induction C es p rule: after_events.induct) (simp_all add: add.commute)

lemma nth_error_after: "nth_error n (after_events C es p) = nth_error (length es + n) p"
proof (induction C es p rule: after_events.induct)
  case (5 C es ps)
  then have "map (nth_error n) (map (after_events C es) ps) = map (nth_error (length es + n)) ps" by simp
  then show ?case by (simp only: after_events.simps nth_error.simps)
qed auto

definition last_error :: "producer_error option \<Rightarrow> producer_error option list \<Rightarrow> producer_error option" where
  "last_error err errs = (case filter (\<lambda>x. x \<noteq> None) errs of [] \<Rightarrow> err | es \<Rightarrow> last es)"

lemma last_error_simps [simp]:
  "last_error err [] = err" "last_error err (None # errs) = last_error err errs"
  "last_error err (Some x # errs) = last_error (Some x) errs"
  by (auto simp: last_error_def split: list.split)

lemma publish_is:
  "publish_audit_event C e p = (answer_of (nth_error 0 p), after_events C [e] p)"
  "publish_all C e ps err = (last_error err (map (nth_error 0) ps), map (after_events C [e]) ps)"
proof (induction p and ps err rule: publish_audit_event_publish_all.induct)
  case (4 C e k)
  then show ?case
    by (cases "kafka_outcomes k")
      (auto simp: kafka_publish_def kafka_key_def event_line_def answer_of_def Let_def drop_Suc split: option.split)
next
  case (5 C e ps)
  then show ?case by (simp add: answer_of_def last_error_def split: option.split)
next
  case (7 C e p ps err)
  then show ?case by (cases "nth_error 0 p") (simp_all add: answer_of_def)
qed (simp_all add: answer_of_def event_line_def)

lemma flush_Ok: "flush p = Ok ()" "flush_all ps = Ok ()"
  by (induction p and ps rule: flush_flush_all.induct) simp_all

section \<open>The trait\<close>

text \<open>An implementation takes on what it is given, whatever it answers.\<close>

locale event_producer =
  fixes publish :: "audit_event \<Rightarrow> 'p \<Rightarrow> (unit, producer_error) result \<times> 'p"
    and after :: "audit_event list \<Rightarrow> 'p \<Rightarrow> 'p"
    and nth_failure :: "nat \<Rightarrow> 'p \<Rightarrow> producer_error option"
  assumes publish_law: "publish e p = (answer_of (nth_failure 0 p), after [e] p)"
    and after_Nil: "after [] p = p"
    and after_append: "after (es @ fs) p = after fs (after es p)"
    and nth_failure_after: "nth_failure n (after es p) = nth_failure (length es + n) p"
begin

lemma publish_run: "run (\<lambda>e p. snd (publish e p)) es p = after es p"
proof (induction es arbitrary: p)
  case (Cons e es)
  then show ?case using after_append [of "[e]" es p] by (simp add: publish_law)
qed (simp add: after_Nil)

lemma publish_answer:
  "fst (publish e (run (\<lambda>e p. snd (publish e p)) es p)) = answer_of (nth_failure (length es) p)"
  unfolding publish_run using nth_failure_after [of 0 es p] by (simp add: publish_law)

end

interpretation prod: event_producer "publish_audit_event C" "after_events C" nth_error
  by unfold_locales (simp_all only: publish_is after_events_Nil after_events_append nth_error_after)

section \<open>Properties\<close>

text \<open>C23: However many events are published, and whichever deliveries fail, every sink of a producer (a
  logger, a buffer, a Kafka client, however deep in fan-outs) has taken on every event, once and in order:
  as its JSON text, as the event, as a record keyed by its session. The next publication answers with
  the failure of the Kafka client's delivery, a fan-out with the last failure among its members, and
  anything else with success. Flushing always succeeds, and draining a buffer gives its events and
  leaves it empty.\<close>

theorem audit_events_reach_every_sink:
  "run (\<lambda>e p. snd (publish_audit_event C e p)) es p = after_events C es p \<and>
   fst (publish_audit_event C e (run (\<lambda>e p. snd (publish_audit_event C e p)) es p)) =
     (case nth_error (length es) p of None \<Rightarrow> Ok () | Some x \<Rightarrow> Err x) \<and>
   flush p = Ok () \<and>
   drain (run (\<lambda>e p. snd (publish_audit_event C e p)) es buffering_new) = (es, buffering_new)"
  using prod.publish_run prod.publish_answer flush_Ok(1) by (simp add: answer_of_def buffering_new_def)

end
