(* ===== verification/Proxy.thy ===== *)
theory Proxy
  imports Jsonrpc Message Sample_Codec
begin

text \<open>
  \<open>src/gateway/proxy.rs\<close>: the upstream proxy and its built-in echo server. The answer of an
  HTTP upstream to one request is a parameter of the call. The proxy keeps, besides its table of
  servers, a trace of what it sent upstream: this is not in the code, it is how the properties
  say that nothing was sent. The semaphore hands out a slot at once unless it was made with no
  slots; then the call waits for ever, which is \<open>None\<close>.
\<close>

section \<open>State\<close>

datatype upstream_transport = StreamableHttp | SseTransport | StdioTransport

record upstream_server =
  us_id :: string
  us_transport :: upstream_transport
  us_url :: "string option"
  us_is_echo :: bool

datatype upstream_call = EchoCall message | HttpCall string string

record proxy =
  servers :: "upstream_server hmap"
  max_concurrent :: nat
  sent :: "upstream_call list"

text \<open>What comes back from an HTTP request: the client's error text, or a status with its text and
  the outcome of reading the body.\<close>

datatype http_outcome = SendFailed string | HttpResponse nat string "(string, string) result"

record proxy_env =
  pe_codec :: json_codec
  pe_serde :: serde_msg
  pe_http :: "string \<Rightarrow> string \<Rightarrow> http_outcome"
  pe_now :: string

definition proxy_new :: "nat \<Rightarrow> proxy" where
  "proxy_new n = \<lparr>servers = [], max_concurrent = n, sent = []\<rparr>"

definition register_server :: "upstream_server \<Rightarrow> proxy \<Rightarrow> proxy" where
  "register_server s p = p\<lparr>servers := hm_insert (us_id s) s (servers p)\<rparr>"

definition list_servers :: "hash_order \<Rightarrow> proxy \<Rightarrow> string list" where
  "list_servers \<pi> p = \<pi> (hm_keys (servers p))"

definition default_server_id :: "hash_order \<Rightarrow> proxy \<Rightarrow> string option" where
  "default_server_id \<pi> p = (case \<pi> (hm_keys (servers p)) of [] \<Rightarrow> None | k # _ \<Rightarrow> Some k)"

section \<open>HTTP\<close>

definition is_success :: "nat \<Rightarrow> bool" where
  "is_success status = (status \<in> {200..299})"

definition forward_to_http :: "proxy_env \<Rightarrow> string \<Rightarrow> message \<Rightarrow> (message, mcp_error) result" where
  "forward_to_http V url m =
    (case pe_http V url (to_json_string (pe_codec V) m) of
       SendFailed e \<Rightarrow> Err (UpstreamError (fmt [''Upstream HTTP request failed: '', e]))
     | HttpResponse status status_text body \<Rightarrow>
         (case body of
            Err e \<Rightarrow> Err (UpstreamError (fmt [''Failed to read upstream response: '', e]))
          | Ok text \<Rightarrow>
              if \<not> is_success status \<and> status \<noteq> 202 then
                Err (UpstreamError (fmt [''Upstream returned HTTP '', status_text, '': '', text]))
              else
                (case from_text (pe_codec V) text of
                   Err e \<Rightarrow> Err (ParseError (fmt [''Invalid JSON from upstream: '', e]))
                 | Ok raw \<Rightarrow>
                     map_err (\<lambda>e. UpstreamError (fmt [''Invalid JSON-RPC from upstream: '', error_text e]))
                       (parse (pe_serde V) raw))))"

section \<open>The echo server\<close>

definition text_content :: "string \<Rightarrow> json" where
  "text_content t =
     JObj [(''content'', JArr [JObj [(''type'', JStr ''text''), (''text'', JStr t)]])]"

definition echo_capabilities :: json where
  "echo_capabilities =
     JObj [(''tools'', JObj [(''listChanged'', JBool True)]), (''resources'', JObj []),
           (''prompts'', JObj [])]"

definition typed :: "string \<Rightarrow> json" where
  "typed ty = JObj [(''type'', JStr ty)]"

definition echo_tools :: json where
  "echo_tools =
     JArr [
       JObj [(''name'', JStr ''com.echo:echo''),
             (''description'', JStr ''Echoes back the input message''),
             (''inputSchema'', JObj [(''type'', JStr ''object''),
               (''properties'', JObj [(''message'',
                  JObj [(''type'', JStr ''string''), (''description'', JStr ''Message to echo'')])]),
               (''required'', JArr [JStr ''message''])])],
       JObj [(''name'', JStr ''com.echo:add''),
             (''description'', JStr ''Adds two numbers together''),
             (''inputSchema'', JObj [(''type'', JStr ''object''),
               (''properties'', JObj [(''a'', typed ''integer''), (''b'', typed ''integer'')]),
               (''required'', JArr [JStr ''a'', JStr ''b''])])],
       JObj [(''name'', JStr ''com.echo:get_time''),
             (''description'', JStr ''Returns the current server time''),
             (''inputSchema'', JObj [(''type'', JStr ''object''), (''properties'', JObj [])])]]"

definition i64_arg :: "json \<Rightarrow> string \<Rightarrow> i64" where
  "i64_arg args k = (case Option.bind (jget args k) as_i64 of Some n \<Rightarrow> n | None \<Rightarrow> 0)"

text \<open>\<open>a + b\<close> on \<open>i64\<close>: the release profile leaves overflow checks off, so it wraps.\<close>

definition add_text :: "i64 \<Rightarrow> i64 \<Rightarrow> string" where
  "add_text a b =
     fmt [show_int (sint a), '' + '', show_int (sint b), '' = '', show_int (sint (a + b))]"

definition str_member :: "json \<Rightarrow> string \<Rightarrow> string \<Rightarrow> string" where
  "str_member v k d = (case Option.bind (jget v k) as_str of Some s \<Rightarrow> s | None \<Rightarrow> d)"

definition echo_call :: "string \<Rightarrow> json \<Rightarrow> (json, mcp_error) result" where
  "echo_call now params =
    (let tool_name = str_member params ''name'' ''unknown'';
         arguments = (case jget params ''arguments'' of Some a \<Rightarrow> a | None \<Rightarrow> JNull)
     in
     if tool_name = ''com.echo:echo'' then
       Ok (text_content (fmt [''Echo: '', str_member arguments ''message'' ''no message'']))
     else if tool_name = ''com.echo:add'' then
       Ok (text_content (add_text (i64_arg arguments ''a'') (i64_arg arguments ''b'')))
     else if tool_name = ''com.echo:get_time'' then Ok (text_content now)
     else Err (MethodNotFound (fmt [''Echo server: unknown tool '', quoted tool_name])))"

definition echo_result :: "string \<Rightarrow> string \<Rightarrow> json \<Rightarrow> (json, mcp_error) result" where
  "echo_result now method params =
    (if method = METHOD_INITIALIZE then
       Ok (JObj [(''protocolVersion'', JStr (str_member params ''protocolVersion'' ''2025-03-26'')),
                 (''capabilities'', echo_capabilities),
                 (''serverInfo'', JObj [(''name'', JStr ''mcp-shield-echo''), (''version'', JStr ''0.1.0'')])])
     else if method = METHOD_TOOLS_LIST then Ok (JObj [(''tools'', echo_tools)])
     else if method = METHOD_TOOLS_CALL then echo_call now params
     else if method = METHOD_PING then Ok (JObj [])
     else if method = METHOD_RESOURCES_LIST then Ok (JObj [(''resources'', JArr [])])
     else if method = METHOD_PROMPTS_LIST then Ok (JObj [(''prompts'', JArr [])])
     else Err (MethodNotFound (fmt [''Echo server: unknown method '', quoted method])))"

definition forward_to_echo :: "proxy_env \<Rightarrow> message \<Rightarrow> (message, mcp_error) result" where
  "forward_to_echo V m =
    (let method = (case msg_method m of Some s \<Rightarrow> s | None \<Rightarrow> []);
         ident = (case msg_id m of Some i \<Rightarrow> i | None \<Rightarrow> IdNull);
         params = (case msg_params m of Some p \<Rightarrow> p | None \<Rightarrow> JNull)
     in case echo_result (pe_now V) method params of
          Err e \<Rightarrow> Err e
        | Ok r \<Rightarrow> Ok (success_response ident r))"

section \<open>Forwarding\<close>

definition no_url :: "string \<Rightarrow> mcp_error" where
  "no_url srv = UpstreamError (fmt [''No URL configured for server '', srv])"

definition unknown_upstream :: "string \<Rightarrow> mcp_error" where
  "unknown_upstream srv = UpstreamError (fmt [''Unknown upstream server: '', srv])"

definition forward_request ::
  "proxy_env \<Rightarrow> string \<Rightarrow> message \<Rightarrow> proxy \<Rightarrow> ((message, mcp_error) result \<times> proxy) option" where
  "forward_request V srv m p =
    (if max_concurrent p = 0 then None
     else Some
       (case hm_get (servers p) srv of
          None \<Rightarrow> (Err (unknown_upstream srv), p)
        | Some s \<Rightarrow>
            if us_is_echo s then (forward_to_echo V m, p\<lparr>sent := sent p @ [EchoCall m]\<rparr>)
            else
              (case us_transport s of
                 StdioTransport \<Rightarrow>
                   (Err (UpstreamError ''Stdio upstream transport not yet implemented''), p)
               | _ \<Rightarrow>
                   (case us_url s of
                      None \<Rightarrow> (Err (no_url srv), p)
                    | Some url \<Rightarrow>
                        (forward_to_http V url m,
                         p\<lparr>sent := sent p @ [HttpCall url (to_json_string (pe_codec V) m)]\<rparr>)))))"

section \<open>Lemmas\<close>

text \<open>What one call can send: nothing, or one call to the server it names.\<close>

definition sends_to :: "proxy_env \<Rightarrow> proxy \<Rightarrow> string \<Rightarrow> message \<Rightarrow> upstream_call \<Rightarrow> bool" where
  "sends_to V p srv m c \<longleftrightarrow>
    (\<exists>s. hm_get (servers p) srv = Some s \<and>
       (us_is_echo s \<and> c = EchoCall m \<or>
        \<not> us_is_echo s \<and> us_transport s \<noteq> StdioTransport \<and>
        (\<exists>url. us_url s = Some url \<and> c = HttpCall url (to_json_string (pe_codec V) m))))"

lemma forward_request_frame:
  assumes "forward_request V srv m p = Some (res, p')"
  shows "servers p' = servers p" "max_concurrent p' = max_concurrent p"
    and "sent p' = sent p \<or> (\<exists>c. sent p' = sent p @ [c] \<and> sends_to V p srv m c)"
    and "is_ok res \<Longrightarrow> \<exists>c. sent p' = sent p @ [c] \<and> sends_to V p srv m c"
  using assms
  by (auto simp: forward_request_def sends_to_def
      split: if_splits option.splits upstream_transport.splits)

lemma forward_to_echo_id:
  "forward_to_echo V m = Ok r \<Longrightarrow> \<exists>v. r = Success (case msg_id m of Some i \<Rightarrow> i | None \<Rightarrow> IdNull) v"
  by (auto simp: forward_to_echo_def success_response_def Let_def split: result.splits)

lemma default_server_id_cases:
  assumes "hash_order_ok \<pi>"
  shows "case default_server_id \<pi> p of
           None \<Rightarrow> servers p = []
         | Some k \<Rightarrow> \<exists>s. hm_get (servers p) k = Some s"
proof -
  have "set (\<pi> (hm_keys (servers p))) = set (hm_keys (servers p))"
    by (rule hm_order_set [OF assms])
  then show ?thesis
    using hm_contains_iff [of "servers p"]
    by (cases "\<pi> (hm_keys (servers p))") (auto simp: default_server_id_def hm_keys_def hm_contains_def)
qed

section \<open>Properties\<close>

text \<open>A forwarded request causes at most one upstream call, to the registered server it names
  and to no other URL; a result that is \<open>Ok\<close> means exactly one; and an unknown server is an error
  with no call at all.\<close>

theorem forward_request_confined:
  assumes "forward_request V srv m p = Some (res, p')"
  shows "(sent p' = sent p \<or> (\<exists>c. sent p' = sent p @ [c] \<and> sends_to V p srv m c)) \<and>
         (is_ok res \<longrightarrow> (\<exists>c. sent p' = sent p @ [c] \<and> sends_to V p srv m c)) \<and>
         (hm_get (servers p) srv = None \<longrightarrow> sent p' = sent p \<and> \<not> is_ok res)"
  using forward_request_frame [OF assms] by (fastforce simp: sends_to_def)

text \<open>The echo server and a proxy that knows it, for the witnesses.\<close>

definition echo_server :: upstream_server where
  "echo_server = \<lparr>us_id = ''echo'', us_transport = StreamableHttp, us_url = None, us_is_echo = True\<rparr>"

definition web_server :: upstream_server where
  "web_server =
     \<lparr>us_id = ''web'', us_transport = StreamableHttp, us_url = Some ''http://web/'', us_is_echo = False\<rparr>"

definition sample_proxy :: proxy where
  "sample_proxy = register_server web_server (register_server echo_server (proxy_new 4))"

lemma forward_request_confined_witness:
  "\<exists>V res p'. forward_request V ''echo'' (Request (IdInteger 1) METHOD_PING None) sample_proxy = Some (res, p') \<and>
     (sent p' = [] \<or> (\<exists>c. sent p' = [c] \<and>
        sends_to V sample_proxy ''echo'' (Request (IdInteger 1) METHOD_PING None) c))"
proof -
  define V where "V = \<lparr>pe_codec = sample_codec, pe_serde = (\<lambda>_ _. []),
    pe_http = (\<lambda>_ _. SendFailed ''refused''), pe_now = ''now''\<rparr>"
  have "max_concurrent sample_proxy \<noteq> 0" "sent sample_proxy = []"
    by (simp_all add: sample_proxy_def register_server_def proxy_new_def)
  moreover from this obtain x where
    x: "forward_request V ''echo'' (Request (IdInteger 1) METHOD_PING None) sample_proxy = Some x"
    by (simp add: forward_request_def)
  moreover obtain res p' where "x = (res, p')" by force
  ultimately have R: "forward_request V ''echo'' (Request (IdInteger 1) METHOD_PING None) sample_proxy =
      Some (res, p')" and "sent sample_proxy = []"
    by simp_all
  then show ?thesis
    using forward_request_confined [OF R] by auto
qed

text \<open>The proxy does not compare the identifier of an upstream's answer with the request's: an
  HTTP upstream that answers a request with any well-formed message (a response to another
  identifier, a request, a notification, a batch) has that message returned as the answer. The
  comment promises the original request identifier.\<close>

theorem upstream_answer_taken_as_is:
  assumes "from_str (pe_codec V) (pe_serde V) body = Ok answer" "max_concurrent p \<noteq> 0"
    and "hm_get (servers p) srv = Some s" "\<not> us_is_echo s" "us_transport s \<noteq> StdioTransport"
    and "us_url s = Some url"
    and "pe_http V url (to_json_string (pe_codec V) m) =
           HttpResponse 200 ''200 OK'' (Ok body)"
  shows "map_option fst (forward_request V srv m p) = Some (Ok answer)"
  using assms
  by (auto simp: forward_request_def forward_to_http_def is_success_def from_str_def
      split: upstream_transport.splits result.splits)

lemma upstream_answer_taken_as_is_witness:
  "\<exists>V. map_option fst (forward_request V ''web'' (Request (IdInteger 1) METHOD_PING None) sample_proxy) =
         Some (Ok (Success (IdInteger 2) JNull))"
proof -
  let ?V = "\<lparr>pe_codec = sample_codec, pe_serde = (\<lambda>_ _. []),
    pe_http = (\<lambda>_ _. HttpResponse 200 ''200 OK'' (Ok (to_json_string sample_codec (Success (IdInteger 2) JNull)))),
    pe_now = []\<rparr>"
  have "map_option fst (forward_request ?V ''web'' (Request (IdInteger 1) METHOD_PING None) sample_proxy) =
      Some (Ok (Success (IdInteger 2) JNull))"
    by (rule upstream_answer_taken_as_is [where s = web_server and url = "''http://web/''"
          and body = "to_json_string sample_codec (Success (IdInteger 2) JNull)"])
      (simp_all add: from_str_def to_json_string_def sample_codec_roundtrip parse_to_value
        wf_message_def sample_proxy_def register_server_def proxy_new_def
        web_server_def echo_server_def del: to_value.simps)
  then show ?thesis by blast
qed

text \<open>The default upstream is the first key in the hash map's own order, so with several servers
  each of them can be it: it is always a registered server, and for every registered server there
  is an order that selects it.\<close>

theorem default_upstream_arbitrary:
  "(\<forall>\<pi>. hash_order_ok \<pi> \<longrightarrow>
      (case default_server_id \<pi> p of None \<Rightarrow> servers p = [] | Some k \<Rightarrow> \<exists>s. hm_get (servers p) k = Some s)) \<and>
   (\<forall>k s. hm_get (servers p) k = Some s \<longrightarrow>
      (\<exists>\<pi>. hash_order_ok \<pi> \<and> default_server_id \<pi> p = Some k))"
proof (intro conjI allI impI)
  fix \<pi> :: hash_order
  assume "hash_order_ok \<pi>"
  then show "case default_server_id \<pi> p of None \<Rightarrow> servers p = []
      | Some k \<Rightarrow> \<exists>s. hm_get (servers p) k = Some s"
    by (rule default_server_id_cases)
next
  fix k s
  assume "hm_get (servers p) k = Some s"
  then have k: "k \<in> set (hm_keys (servers p))" by (rule hm_get_Some_keys)
  define \<pi> :: hash_order where "\<pi> = (\<lambda>xs. if k \<in> set xs then k # remove1 k xs else xs)"
  have "hash_order_ok \<pi>"
    by (auto simp: hash_order_ok_def \<pi>_def)
  moreover have "default_server_id \<pi> p = Some k"
    using k by (simp add: default_server_id_def \<pi>_def)
  ultimately show "\<exists>\<pi>. hash_order_ok \<pi> \<and> default_server_id \<pi> p = Some k" by blast
qed

lemma default_upstream_arbitrary_witness:
  "\<exists>\<pi> \<pi>'. default_server_id \<pi> sample_proxy = Some ''echo'' \<and> default_server_id \<pi>' sample_proxy = Some ''web''"
proof -
  have "hm_get (servers sample_proxy) ''echo'' = Some echo_server"
    "hm_get (servers sample_proxy) ''web'' = Some web_server"
    by (simp_all add: sample_proxy_def register_server_def proxy_new_def web_server_def echo_server_def)
  then show ?thesis
    using default_upstream_arbitrary [of sample_proxy] by blast
qed

text \<open>The echo server answers a request under the request's own identifier, with \<open>a + b\<close> taken
  modulo 2^64: the sum it prints is the true one exactly when that fits in an \<open>i64\<close>.\<close>

theorem echo_add_wraps:
  fixes a b :: i64
  assumes "params = JObj [(''name'', JStr ''com.echo:add''),
             (''arguments'', JObj [(''a'', of_i64 a), (''b'', of_i64 b)])]"
  shows "\<exists>c :: i64. forward_to_echo V (Request i METHOD_TOOLS_CALL (Some params)) =
           Ok (Success i (text_content (fmt [show_int (sint a), '' + '', show_int (sint b), '' = '',
             show_int (sint c)]))) \<and>
         (sint c = sint a + sint b \<longleftrightarrow> - (2 ^ 63) \<le> sint a + sint b \<and> sint a + sint b < 2 ^ 63)"
proof (intro exI conjI)
  show "forward_to_echo V (Request i METHOD_TOOLS_CALL (Some params)) =
      Ok (Success i (text_content (fmt [show_int (sint a), '' + '', show_int (sint b), '' = '',
        show_int (sint (a + b))])))"
    by (simp add: assms forward_to_echo_def echo_result_def method_defs echo_call_def str_member_def
        i64_arg_def add_text_def success_response_def Let_def)
  have range: "- (2 ^ 63) \<le> sint (a + b)" "sint (a + b) < 2 ^ 63"
    using sint_ge [of "a + b"] sint_lt [of "a + b"] by simp_all
  have "sint (a + b) = signed_take_bit 63 (sint a + sint b)"
    by (simp add: sint_word_ariths)
  then show "sint (a + b) = sint a + sint b \<longleftrightarrow>
      - (2 ^ 63) \<le> sint a + sint b \<and> sint a + sint b < 2 ^ 63"
    using range by (metis signed_take_bit_int_eq_self)
qed

lemma echo_add_wraps_witness:
  "\<forall>V. \<exists>c :: i64. forward_to_echo V (Request (IdInteger 7) METHOD_TOOLS_CALL
        (Some (JObj [(''name'', JStr ''com.echo:add''),
           (''arguments'', JObj [(''a'', of_i64 (2 ^ 63 - 1)), (''b'', of_i64 1)])]))) =
      Ok (Success (IdInteger 7) (text_content (fmt [show_int (sint (2 ^ 63 - 1 :: i64)), '' + '',
        show_int (sint (1 :: i64)), '' = '', show_int (sint c)])))"
  using echo_add_wraps [OF refl, of _ "IdInteger 7" "2 ^ 63 - 1" 1] by blast

end
