(* ===== verification/Router.thy ===== *)
theory Router
  imports Scope Registry Session Schema Ecpa Egress Cedar Metrics Producer Proxy
begin

text \<open>
  \<open>src/gateway/router.rs\<close>: the request pipeline. A handler is a step on the router's state that
  answers, fails with an error or (\<open>None\<close>) gives no answer at all: the schema cache's key
  computation panicked, or the proxy has no slot to wait for. The optional trait objects that keep
  no state of their own during a request (authorizer, guardrail, inspector) are the functions
  their \<open>evaluate\<close> methods are; sessions, audit producer, metrics, schema cache and proxy are
  threaded as state.
\<close>

section \<open>Steps\<close>

type_synonym ('s, 'a) step = "'s \<Rightarrow> (('a, mcp_error) result \<times> 's) option"

definition step_lift :: "('a, mcp_error) result \<Rightarrow> ('s, 'a) step" where
  "step_lift r = (\<lambda>s. Some (r, s))"

definition step_bind :: "('s, 'a) step \<Rightarrow> ('a \<Rightarrow> ('s, 'b) step) \<Rightarrow> ('s, 'b) step" where
  "step_bind m f =
    (\<lambda>s. case m s of
       None \<Rightarrow> None
     | Some (Err e, s') \<Rightarrow> Some (Err e, s')
     | Some (Ok a, s') \<Rightarrow> f a s')"

section \<open>State and environment\<close>

record 'v router =
  registry :: registry
  proxy :: proxy
  schema_cache :: "'v schema_cache"
  metrics :: metrics_log
  server_name :: string
  server_version :: string
  authorizer :: "(auth_request \<Rightarrow> (auth_response, cedar_error) result) option"
  sessions :: "sessions option"
  audit_producer :: "producer option"
  ecpa_guardrail :: "(string \<Rightarrow> json \<Rightarrow> (constraint_result, ecpa_error) result) option"
  egress_inspector :: "(inspectable \<Rightarrow> (inspection, guardrail_error) result) option"

text \<open>What a message's handling takes from outside: the libraries, the hash orders, the upstream's
  answer (in the proxy's environment), a fresh identifier, the clock and the elapsed times.\<close>

record 'v env =
  proxy_env :: proxy_env
  schema_engine :: "'v schema_engine"
  scope_order :: hash_order
  tool_order :: hash_order
  server_order :: hash_order
  uuid :: string
  now_rfc3339 :: string
  now_ts :: int
  elapsed_ns :: nat
  elapsed_ms :: u64

definition env_codec :: "'v env \<Rightarrow> json_codec" where
  "env_codec V = pe_codec (proxy_env V)"

definition with_guardrails ::
  "registry \<Rightarrow> proxy \<Rightarrow> metrics_log \<Rightarrow> string \<Rightarrow> string \<Rightarrow>
     (auth_request \<Rightarrow> (auth_response, cedar_error) result) option \<Rightarrow> sessions option \<Rightarrow>
     producer option \<Rightarrow> (string \<Rightarrow> json \<Rightarrow> (constraint_result, ecpa_error) result) option \<Rightarrow>
     (inspectable \<Rightarrow> (inspection, guardrail_error) result) option \<Rightarrow> 'v router" where
  "with_guardrails reg p mt n v au ss pr ec eg =
     \<lparr>registry = reg, proxy = p, schema_cache = [], metrics = mt, server_name = n,
      server_version = v, authorizer = au, sessions = ss, audit_producer = pr,
      ecpa_guardrail = ec, egress_inspector = eg\<rparr>"

definition with_full_config ::
  "registry \<Rightarrow> proxy \<Rightarrow> metrics_log \<Rightarrow> string \<Rightarrow> string \<Rightarrow>
     (auth_request \<Rightarrow> (auth_response, cedar_error) result) option \<Rightarrow> sessions option \<Rightarrow>
     producer option \<Rightarrow> 'v router" where
  "with_full_config reg p mt n v au ss pr =
     \<lparr>registry = reg, proxy = p, schema_cache = [], metrics = mt, server_name = n,
      server_version = v, authorizer = au, sessions = ss, audit_producer = pr,
      ecpa_guardrail = None, egress_inspector = None\<rparr>"

definition with_policy ::
  "registry \<Rightarrow> proxy \<Rightarrow> metrics_log \<Rightarrow> string \<Rightarrow> string \<Rightarrow>
     (auth_request \<Rightarrow> (auth_response, cedar_error) result) option \<Rightarrow> sessions option \<Rightarrow> 'v router" where
  "with_policy reg p mt n v au ss =
     \<lparr>registry = reg, proxy = p, schema_cache = [], metrics = mt, server_name = n,
      server_version = v, authorizer = au, sessions = ss, audit_producer = None,
      ecpa_guardrail = None, egress_inspector = None\<rparr>"

definition router_new ::
  "registry \<Rightarrow> proxy \<Rightarrow> metrics_log \<Rightarrow> string \<Rightarrow> string \<Rightarrow> 'v router" where
  "router_new reg p mt n v =
     \<lparr>registry = reg, proxy = p, schema_cache = [], metrics = mt, server_name = n,
      server_version = v, authorizer = None, sessions = None, audit_producer = None,
      ecpa_guardrail = None, egress_inspector = None\<rparr>"

definition blocked :: "string \<Rightarrow> 'v router \<Rightarrow> 'v router" where
  "blocked reason s = s\<lparr>metrics := increment_blocked_request reason (metrics s)\<rparr>"

section \<open>Forwarding\<close>

definition proxy_forward :: "'v env \<Rightarrow> string \<Rightarrow> message \<Rightarrow> ('v router, message) step" where
  "proxy_forward V srv m s =
    (case forward_request (proxy_env V) srv m (proxy s) of
       None \<Rightarrow> None
     | Some (res, p) \<Rightarrow> Some (res, s\<lparr>proxy := p\<rparr>))"

definition NO_UPSTREAM :: mcp_error where
  "NO_UPSTREAM = UpstreamError ''No upstream servers configured''"

definition proxy_to_upstream ::
  "'v env \<Rightarrow> request_id \<Rightarrow> string \<Rightarrow> json option \<Rightarrow> ('v router, message) step" where
  "proxy_to_upstream V i method params s =
    (case default_server_id (server_order V) (proxy s) of
       None \<Rightarrow> Some (Err NO_UPSTREAM, s)
     | Some srv \<Rightarrow> proxy_forward V srv (Request i method params) s)"

section \<open>The stages of a tool call\<close>

definition NAME_REQUIRED :: mcp_error where
  "NAME_REQUIRED = InvalidParams (fmt [''tools/call requires a '', quoted ''name'', '' parameter''])"

definition tool_not_found :: "string \<Rightarrow> mcp_error" where
  "tool_not_found name = MethodNotFound (fmt [''Tool '', quoted name, '' not found in registry''])"

definition find_tool :: "string \<Rightarrow> ('v router, registered_tool) step" where
  "find_tool name s =
    (case lookup_any (registry s) name of
       Err e \<Rightarrow> Some (Err e, s)
     | Ok None \<Rightarrow> Some (Err (tool_not_found name), s)
     | Ok (Some t) \<Rightarrow> Some (Ok t, s))"

definition schema_stage :: "'v env \<Rightarrow> registered_tool \<Rightarrow> json \<Rightarrow> ('v router, unit) step" where
  "schema_stage V t args s =
    (if args = JNull then Some (Ok (), s)
     else
       (case validate (env_codec V) (schema_engine V) (t_input_schema (rt_tool t)) args (schema_cache s) of
          None \<Rightarrow> None
        | Some (Ok _, c) \<Rightarrow> Some (Ok (), s\<lparr>schema_cache := c\<rparr>)
        | Some (Err e, c) \<Rightarrow>
            Some (Err e, s\<lparr>schema_cache := c,
              metrics := increment_validation_failure ''schema_mismatch'' (metrics s)\<rparr>)))"

definition ecpa_violated :: "constraint_result \<Rightarrow> mcp_error" where
  "ecpa_violated r =
     EcpaViolation (fmt [''ePCA constraint violated: '',
       join ''; '' (map e_explanation (filter (\<lambda>e. \<not> e_satisfied e) (evaluations r)))])"

definition ecpa_failed :: "ecpa_error \<Rightarrow> mcp_error" where
  "ecpa_failed e = EcpaViolation (fmt [''ePCA evaluation failed: '', ecpa_error_text e])"

definition ecpa_stage :: "string \<Rightarrow> json \<Rightarrow> ('v router, unit) step" where
  "ecpa_stage tool args s =
    (case ecpa_guardrail s of
       None \<Rightarrow> Some (Ok (), s)
     | Some evaluate \<Rightarrow>
         (case evaluate tool args of
            Ok r \<Rightarrow>
              if \<not> satisfied r then Some (Err (ecpa_violated r), blocked ''ecpa_violation'' s)
              else Some (Ok (), s)
          | Err e \<Rightarrow> Some (Err (ecpa_failed e), blocked ''ecpa_error'' s)))"

definition tool_context :: "string \<Rightarrow> context_scope" where
  "tool_context tool =
     \<lparr>context_type = ''mcp_tool'',
      cs_identifier = hd (split_on (CHR '':'') tool), cs_visibility = VPrivate\<rparr>"

definition session_locked :: "context_scope \<Rightarrow> string \<Rightarrow> mcp_error" where
  "session_locked l reason =
     SessionLocked (fmt [''Session locked to '', visibility_as_str (cs_visibility l), '' context '',
       quoted (cs_identifier l), ''. '', reason])"

text \<open>An error of the check is only logged; the result of \<open>log_tool_call\<close> is dropped.\<close>

definition session_stage ::
  "'v env \<Rightarrow> string \<Rightarrow> json \<Rightarrow> string option \<Rightarrow> ('v router, unit) step" where
  "session_stage V tool args sid s =
    (case (sessions s, sid) of
       (Some ss, Some i) \<Rightarrow>
         (let record_call =
                s\<lparr>sessions := Some (snd (log_tool_call i
                   \<lparr>tc_tool_name = tool, tc_arguments = args, tc_timestamp = now_ts V\<rparr> (now_ts V) ss))\<rparr>
          in case check_context_access ss i (tool_context tool) of
               Ok (Deny reason l) \<Rightarrow> Some (Err (session_locked l reason), blocked ''session_lock'' s)
             | _ \<Rightarrow> Some (Ok (), record_call))
     | _ \<Rightarrow> Some (Ok (), s))"

section \<open>Egress\<close>

definition egress_content :: "message \<Rightarrow> json list" where
  "egress_content m =
    (case m of
       Success _ r \<Rightarrow> (case Option.bind (jget r ''content'') as_array of Some xs \<Rightarrow> xs | None \<Rightarrow> [r])
     | _ \<Rightarrow> [])"

definition egress_filter ::
  "(inspectable \<Rightarrow> (inspection, guardrail_error) result) option \<Rightarrow> string \<Rightarrow> string \<Rightarrow> message \<Rightarrow> message" where
  "egress_filter inspector tool srv m =
    (case inspector of
       None \<Rightarrow> m
     | Some sanitize \<Rightarrow>
         if egress_content m = [] then m
         else
           (case sanitize \<lparr>ins_tool_name = tool, ins_content = egress_content m, ins_server_id = srv\<rparr> of
              Err _ \<Rightarrow> m
            | Ok r \<Rightarrow>
                if modified r then
                  (case m of
                     Success i v \<Rightarrow> Success i (jreplace ''content'' (JArr (sanitized_content r)) v)
                   | _ \<Rightarrow> m)
                else m))"

definition forward_stage ::
  "'v env \<Rightarrow> request_id \<Rightarrow> string \<Rightarrow> string \<Rightarrow> json \<Rightarrow> ('v router, message) step" where
  "forward_stage V i tool srv params s =
     step_bind (proxy_forward V srv (Request i METHOD_TOOLS_CALL (Some params)))
       (\<lambda>response s'. Some (Ok (egress_filter (egress_inspector s) tool srv response), s')) s"

section \<open>Handlers\<close>

definition call_params :: "json option \<Rightarrow> json" where
  "call_params params = (case params of Some p \<Rightarrow> p | None \<Rightarrow> JObj [])"

definition call_arguments :: "json \<Rightarrow> json" where
  "call_arguments params = (case jget params ''arguments'' of Some a \<Rightarrow> a | None \<Rightarrow> JObj [])"

definition handle_tools_call ::
  "'v env \<Rightarrow> request_id \<Rightarrow> json option \<Rightarrow> scope_enforcer \<Rightarrow> string option \<Rightarrow> ('v router, message) step" where
  "handle_tools_call V i params0 e sid =
    (let params = call_params params0; args = call_arguments params in
     step_bind (step_lift (ok_or NAME_REQUIRED (Option.bind (jget params ''name'') as_str))) (\<lambda>tool.
     step_bind (step_lift (check_tool_access e tool)) (\<lambda>_.
     step_bind (find_tool tool) (\<lambda>t.
     step_bind (schema_stage V t args) (\<lambda>_.
     step_bind (ecpa_stage tool args) (\<lambda>_.
     step_bind (session_stage V tool args sid) (\<lambda>_.
     forward_stage V i tool (server_id t) params)))))))"

definition INSTRUCTIONS :: string where
  "INSTRUCTIONS =
     ''MCP-Shield security gateway. All requests are validated, authenticated, and authorized.''"

definition default_initialize_params :: json where
  "default_initialize_params =
     JObj [(''protocolVersion'', JStr MCP_PROTOCOL_VERSION), (''capabilities'', JObj []),
           (''clientInfo'', JObj [(''name'', JStr ''unknown''), (''version'', JStr ''0.0.0'')])]"

definition handle_initialize ::
  "'v env \<Rightarrow> request_id \<Rightarrow> json option \<Rightarrow> ('v router, message) step" where
  "handle_initialize V i params s =
    (let v = (case params of Some p \<Rightarrow> p | None \<Rightarrow> default_initialize_params)
     in case initialize_params_from_json v of
          None \<Rightarrow>
            Some (Err (InvalidParams (fmt [''Invalid initialize params: '',
                     pe_serde (proxy_env V) T_InitializeParams v])), s)
        | Some _ \<Rightarrow>
            Some (Ok (success_response i (JObj
              [(''protocolVersion'', JStr MCP_PROTOCOL_VERSION),
               (''capabilities'', echo_capabilities),
               (''serverInfo'', JObj [(''name'', JStr (server_name s)), (''version'', JStr (server_version s))]),
               (''instructions'', JStr INSTRUCTIONS)])), s))"

definition handle_tools_list :: "'v env \<Rightarrow> request_id \<Rightarrow> ('v router, message) step" where
  "handle_tools_list V i s =
     Some (Ok (success_response i (JObj
       [(''tools'', JArr (map tool_to_json (list_tools (tool_order V) (registry s))))])), s)"

section \<open>Authorization\<close>

definition method_stage :: "scope_enforcer \<Rightarrow> string \<Rightarrow> ('v router, unit) step" where
  "method_stage e method = step_lift (check_method e method)"

text \<open>The scopes of the request, as the hash set gives them.\<close>

definition scope_list :: "'v env \<Rightarrow> scope_enforcer \<Rightarrow> string list" where
  "scope_list V e = scope_order V (granted_scopes e)"

definition cedar_request :: "'v env \<Rightarrow> scope_enforcer \<Rightarrow> string \<Rightarrow> json option \<Rightarrow> auth_request" where
  "cedar_request V e method params =
     \<lparr>principal = (case scope_list V e of [] \<Rightarrow> ''anonymous'' | s # _ \<Rightarrow> s),
      action = method,
      resource = (case Option.bind (Option.bind params (\<lambda>p. jget p ''name'')) as_str of
                    Some n \<Rightarrow> n | None \<Rightarrow> ''any''),
      context_attrs = (if scope_list V e = [] then []
                       else hm_insert ''scopes'' (JArr (map JStr (scope_list V e))) [])\<rparr>"

definition cedar_denied :: "auth_response \<Rightarrow> mcp_error" where
  "cedar_denied r = ScopeDenied (fmt [''Cedar policy denied: '', join '', '' (diagnostics r)])"

definition cedar_failed :: "cedar_error \<Rightarrow> mcp_error" where
  "cedar_failed e = InternalError (fmt [''Policy evaluation failed: '', cedar_error_text e])"

definition cedar_stage ::
  "'v env \<Rightarrow> scope_enforcer \<Rightarrow> string \<Rightarrow> json option \<Rightarrow> ('v router, unit) step" where
  "cedar_stage V e method params s =
    (case authorizer s of
       None \<Rightarrow> Some (Ok (), s)
     | Some evaluate \<Rightarrow>
         (case evaluate (cedar_request V e method params) of
            Ok r \<Rightarrow>
              if ar_decision r = CedarDeny then Some (Err (cedar_denied r), blocked ''cedar_deny'' s)
              else Some (Ok (), s)
          | Err x \<Rightarrow> Some (Err (cedar_failed x), blocked ''cedar_error'' s)))"

section \<open>Requests\<close>

definition NOTIFICATIONS_PREFIX :: string where "NOTIFICATIONS_PREFIX = ''notifications/''"

definition SHOULD_BE_NOTIFICATION :: mcp_error where
  "SHOULD_BE_NOTIFICATION =
     InvalidRequest ''notifications/initialized should be a notification (no id)''"

definition dispatch ::
  "'v env \<Rightarrow> request_id \<Rightarrow> string \<Rightarrow> json option \<Rightarrow> scope_enforcer \<Rightarrow> string option \<Rightarrow>
     ('v router, message) step" where
  "dispatch V i method params e sid =
    (if method = METHOD_INITIALIZE then handle_initialize V i params
     else if method = METHOD_PING then step_lift (Ok (success_response i (JObj [])))
     else if method = METHOD_TOOLS_LIST then handle_tools_list V i
     else if method = METHOD_TOOLS_CALL then handle_tools_call V i params e sid
     else if method = METHOD_RESOURCES_LIST then proxy_to_upstream V i method params
     else if method = METHOD_PROMPTS_LIST then proxy_to_upstream V i method params
     else if method = METHOD_SHUTDOWN then step_lift (Ok (success_response i (JObj [])))
     else if method = METHOD_INITIALIZED then step_lift (Err SHOULD_BE_NOTIFICATION)
     else proxy_to_upstream V i method params)"

definition known_method :: "string \<Rightarrow> bool" where
  "known_method method = (is_valid_method method \<or> starts_with method NOTIFICATIONS_PREFIX)"

definition handle_request ::
  "'v env \<Rightarrow> request_id \<Rightarrow> string \<Rightarrow> json option \<Rightarrow> scope_enforcer \<Rightarrow> string option \<Rightarrow>
     ('v router, message) step" where
  "handle_request V i method params e sid =
    (if \<not> known_method method then step_lift (Ok (method_not_found_response i method))
     else
       step_bind (method_stage e method) (\<lambda>_.
       step_bind (cedar_stage V e method params) (\<lambda>_.
       dispatch V i method params e sid)))"

section \<open>Notifications\<close>

definition INITIALIZED_NO_RESPONSE :: string where
  "INITIALIZED_NO_RESPONSE =
     ''notifications/initialized is a notification and should not receive a response''"

definition EXITED_NO_RESPONSE :: string where
  "EXITED_NO_RESPONSE = ''notifications/exited is a notification and should not receive a response''"

definition NO_RESPONSE :: string where
  "NO_RESPONSE = ''Notification should not receive a response''"

definition handle_notification :: "string \<Rightarrow> (message, mcp_error) result" where
  "handle_notification method =
     Err (InvalidRequest
       (if method = METHOD_INITIALIZED then INITIALIZED_NO_RESPONSE
        else if method = METHOD_EXITED then EXITED_NO_RESPONSE
        else NO_RESPONSE))"

section \<open>Auditing\<close>

definition SCOPE_DENIED_TEXT :: string where "SCOPE_DENIED_TEXT = ''Scope denied''"

definition audit_decision :: "(message, mcp_error) result \<Rightarrow> auth_decision" where
  "audit_decision res =
    (case res of
       Ok _ \<Rightarrow> DecAllow
     | Err e \<Rightarrow>
         if error_code e = - 32005 then DecBlock
         else if error_code e = - 32006 then DecBlock
         else if error_code e = - 32002 then DecDenyPolicy
         else if error_code e = - 32002 \<or> str_contains (error_text e) SCOPE_DENIED_TEXT then DecDeny
         else DecDeny)"

definition the_method :: "message \<Rightarrow> string" where
  "the_method m = (case msg_method m of Some s \<Rightarrow> s | None \<Rightarrow> [])"

definition make_event ::
  "'v env \<Rightarrow> message \<Rightarrow> scope_enforcer \<Rightarrow> string option \<Rightarrow> (message, mcp_error) result \<Rightarrow> audit_event" where
  "make_event V m e sid res =
     \<lparr>event_id = uuid V, timestamp = now_rfc3339 V, ev_method = the_method m,
      ev_request_id = map_option request_id_text (msg_id m), ev_session_id = sid,
      ev_principal = (case scope_list V e of s # _ \<Rightarrow> Some s | [] \<Rightarrow> sid),
      ev_scopes = scope_list V e, decision = audit_decision res,
      request_payload = Some (to_value m),
      response_payload = (case res of Ok r \<Rightarrow> Some (to_value r) | Err _ \<Rightarrow> None),
      ev_error_code = (case res of Ok _ \<Rightarrow> None | Err x \<Rightarrow> Some (error_code x)),
      duration_ms = elapsed_ms V,
      transport = (if case sid of Some s \<Rightarrow> starts_with s ''stdio'' | None \<Rightarrow> False
                   then ''stdio'' else ''http'')\<rparr>"

definition GATEWAY :: string where "GATEWAY = ''gateway''"

definition status_of :: "(message, mcp_error) result \<Rightarrow> string" where
  "status_of res = (if is_ok res then ''success'' else ''error'')"

text \<open>What \<open>handle_message\<close> does once the message is handled: metrics, then the audit event.\<close>

definition finish ::
  "'v env \<Rightarrow> message \<Rightarrow> scope_enforcer \<Rightarrow> string option \<Rightarrow> (message, mcp_error) result \<Rightarrow>
     'v router \<Rightarrow> 'v router" where
  "finish V m e sid res s =
     s\<lparr>metrics := record_request (the_method m) GATEWAY (status_of res) (elapsed_ns V) (metrics s),
       audit_producer :=
         map_option (\<lambda>p. snd (publish_audit_event (env_codec V) (make_event V m e sid res) p))
           (audit_producer s)\<rparr>"

definition RESPONSE_RECEIVED :: mcp_error where
  "RESPONSE_RECEIVED =
     InvalidRequest
       ''Gateway received a response message. Only requests and notifications are expected.''"

definition EMPTY_BATCH :: mcp_error where "EMPTY_BATCH = InvalidRequest ''Empty batch''"

definition and_finish ::
  "'v env \<Rightarrow> message \<Rightarrow> scope_enforcer \<Rightarrow> string option \<Rightarrow> ('v router, message) step \<Rightarrow>
     ('v router, message) step" where
  "and_finish V m e sid step s =
     map_option (\<lambda>(res, s'). (res, finish V m e sid res s')) (step s)"

fun handle_message ::
  "'v env \<Rightarrow> message \<Rightarrow> scope_enforcer \<Rightarrow> string option \<Rightarrow> ('v router, message) step" where
  "handle_message V (Notification method params) e sid =
     and_finish V (Notification method params) e sid (step_lift (handle_notification method))"
| "handle_message V (Request i method params) e sid =
     and_finish V (Request i method params) e sid (handle_request V i method params e sid)"
| "handle_message V (Success i r) e sid =
     and_finish V (Success i r) e sid (step_lift (Err RESPONSE_RECEIVED))"
| "handle_message V (Error i x) e sid =
     and_finish V (Error i x) e sid (step_lift (Err RESPONSE_RECEIVED))"
| "handle_message V (Batch []) e sid =
     and_finish V (Batch []) e sid (step_lift (Err EMPTY_BATCH))"
| "handle_message V (Batch (m # ms)) e sid = handle_message V m e sid"

section \<open>Reasoning about steps\<close>

lemma step_bindE:
  assumes "step_bind m f s = Some (r, s')"
  obtains (failed) e where "m s = Some (Err e, s')" "r = Err e"
  | (continued) a s1 where "m s = Some (Ok a, s1)" "f a s1 = Some (r, s')"
  using assms by (auto simp: step_bind_def split: option.splits prod.splits result.splits)

lemma step_bind_Ok [simp]: "m s = Some (Ok a, s1) \<Longrightarrow> step_bind m f s = f a s1"
  by (simp add: step_bind_def)

lemma step_bind_Err [simp]: "m s = Some (Err e, s1) \<Longrightarrow> step_bind m f s = Some (Err e, s1)"
  by (simp add: step_bind_def)

lemma step_lift_simps [simp]:
  "step_lift r s = Some (r', s') \<longleftrightarrow> r = r' \<and> s' = s" "step_bind (step_lift (Ok a)) f = f a"
  by (auto simp: step_lift_def step_bind_def fun_eq_iff)

text \<open>A step is quiet when it touches neither the proxy nor anything that later decisions and the
  audit rest on.\<close>

definition quiet :: "'v router \<Rightarrow> 'v router \<Rightarrow> bool" where
  "quiet s s' \<longleftrightarrow>
     proxy s' = proxy s \<and> registry s' = registry s \<and> authorizer s' = authorizer s \<and>
     ecpa_guardrail s' = ecpa_guardrail s \<and> egress_inspector s' = egress_inspector s \<and>
     audit_producer s' = audit_producer s \<and>
     counted REQUESTS_TOTAL (metrics s') = counted REQUESTS_TOTAL (metrics s)"

lemma quiet_refl [simp]: "quiet s s"
  by (simp add: quiet_def)

lemma quiet_trans: "quiet s s' \<Longrightarrow> quiet s' s'' \<Longrightarrow> quiet s s''"
  by (simp add: quiet_def)

lemma quiet_blocked [simp]: "quiet s (blocked reason s)"
  by (simp add: quiet_def blocked_def increment_blocked_request_def metric_names_distinct)

lemma blocked_sessions [simp]: "sessions (blocked reason s) = sessions s"
  by (simp add: blocked_def)

lemma find_tool_quiet:
  "find_tool name s = Some (res, s') \<Longrightarrow>
     s' = s \<and> (case res of Ok t \<Rightarrow> lookup_any (registry s) name = Ok (Some t)
             | Err x \<Rightarrow> (\<exists>m. x = MethodNotFound m \<or> x = RegistryCollision m))"
  by (auto simp: find_tool_def tool_not_found_def lookup_any_def
      split: result.splits option.splits if_splits)

lemma schema_stage_quiet:
  "schema_stage V t args s = Some (res, s') \<Longrightarrow>
     quiet s s' \<and> sessions s' = sessions s \<and>
     (is_ok res \<longleftrightarrow> args = JNull \<or>
       (\<exists>c. validate (env_codec V) (schema_engine V) (t_input_schema (rt_tool t)) args (schema_cache s) =
          Some (Ok (), c)))"
  by (auto simp: schema_stage_def quiet_def increment_validation_failure_def metric_names_distinct
      split: if_splits option.splits prod.splits result.splits)

lemma schema_stage_Err:
  assumes "schema_stage V t args s = Some (Err x, s')"
  shows "\<exists>m. x = SchemaInvalid m \<or> x = InvalidParams m"
proof -
  from assms obtain c where
    "validate (env_codec V) (schema_engine V) (t_input_schema (rt_tool t)) args (schema_cache s) =
       Some (Err x, c)"
    by (auto simp: schema_stage_def split: if_splits option.splits prod.splits result.splits)
  then show ?thesis
    by (auto simp: validate_def check_dialect_def unsupported_dialect_def compile_schema_def
        map_err_Err validate_with_def split: result.splits option.splits if_splits)
qed

lemma ecpa_stage_quiet:
  "ecpa_stage tool args s = Some (res, s') \<Longrightarrow>
     quiet s s' \<and> sessions s' = sessions s \<and>
     (case res of
        Ok _ \<Rightarrow> (case ecpa_guardrail s of
                  None \<Rightarrow> True | Some ev \<Rightarrow> \<exists>r. ev tool args = Ok r \<and> satisfied r)
      | Err x \<Rightarrow> \<exists>m. x = EcpaViolation m)"
  by (auto simp: ecpa_stage_def ecpa_violated_def ecpa_failed_def
      split: option.splits result.splits if_splits)

text \<open>The session check denies a tool call.\<close>

definition session_denies :: "'v router \<Rightarrow> string option \<Rightarrow> string \<Rightarrow> bool" where
  "session_denies s sid tool \<longleftrightarrow>
    (\<exists>ss i r l. sessions s = Some ss \<and> sid = Some i \<and>
       check_context_access ss i (tool_context tool) = Ok (Deny r l))"

lemma session_stage_quiet:
  "session_stage V tool args sid s = Some (res, s') \<Longrightarrow>
     quiet s s' \<and> (is_ok res \<longleftrightarrow> \<not> session_denies s sid tool) \<and>
     (\<forall>x. res = Err x \<longrightarrow> (\<exists>m. x = SessionLocked m))"
  by (auto simp: session_stage_def session_denies_def session_locked_def quiet_def Let_def
      blocked_def increment_blocked_request_def metric_names_distinct
      split: option.splits result.splits access_check_result.splits)

lemma cedar_stage_quiet:
  "cedar_stage V e method params s = Some (res, s') \<Longrightarrow>
     quiet s s' \<and> sessions s' = sessions s \<and>
     (case res of
        Ok _ \<Rightarrow> s' = s \<and>
          (case authorizer s of
             None \<Rightarrow> True
           | Some ev \<Rightarrow> \<exists>r. ev (cedar_request V e method params) = Ok r \<and> ar_decision r = CedarAllow)
      | Err x \<Rightarrow> \<exists>m. x = ScopeDenied m \<or> x = InternalError m)"
  by (auto simp: cedar_stage_def cedar_denied_def cedar_failed_def
      intro: cedar_decision.exhaust split: option.splits result.splits if_splits)

section \<open>Forwarding\<close>

text \<open>What a forwarding step can have done.\<close>

definition forwarded :: "'v env \<Rightarrow> 'v router \<Rightarrow> string \<Rightarrow> message \<Rightarrow> 'v router \<Rightarrow> bool" where
  "forwarded V s srv m s' \<longleftrightarrow>
    (sent (proxy s') = sent (proxy s) \<or>
     (\<exists>c. sent (proxy s') = sent (proxy s) @ [c] \<and> sends_to (proxy_env V) (proxy s) srv m c)) \<and>
    servers (proxy s') = servers (proxy s) \<and> max_concurrent (proxy s') = max_concurrent (proxy s) \<and>
    registry s' = registry s \<and> sessions s' = sessions s \<and>
    authorizer s' = authorizer s \<and> ecpa_guardrail s' = ecpa_guardrail s \<and>
    egress_inspector s' = egress_inspector s \<and> audit_producer s' = audit_producer s \<and>
    metrics s' = metrics s"

text \<open>The errors a forwarding step can give.\<close>

fun upstream_error :: "mcp_error \<Rightarrow> bool" where
  "upstream_error (UpstreamError _) = True"
| "upstream_error (Errors.ParseError _) = True"
| "upstream_error (MethodNotFound _) = True"
| "upstream_error _ = False"

lemma forward_request_Err:
  assumes "forward_request E srv m p = Some (Err x, p')"
  shows "upstream_error x"
proof -
  have echo: "upstream_error x" if "forward_to_echo E m = Err x"
    using that
    by (auto simp: forward_to_echo_def echo_result_def echo_call_def Let_def
        split: result.splits if_splits)
  have http: "upstream_error x" if "forward_to_http E url m = Err x" for url
    using that
    by (auto simp: forward_to_http_def map_err_Err split: http_outcome.splits result.splits if_splits)
  show ?thesis
    using assms echo http
    by (auto simp: forward_request_def unknown_upstream_def no_url_def
        split: if_splits option.splits upstream_transport.splits)
qed

lemma proxy_forward_cases:
  assumes "proxy_forward V srv m s = Some (res, s')"
  shows "forwarded V s srv m s'"
    and "is_ok res \<Longrightarrow> \<exists>c. sent (proxy s') = sent (proxy s) @ [c] \<and>
           sends_to (proxy_env V) (proxy s) srv m c"
    and "res = Err x \<Longrightarrow> upstream_error x"
  using assms forward_request_frame [of "proxy_env V" srv m "proxy s"]
    forward_request_Err [of "proxy_env V" srv m "proxy s"]
  by (auto simp: proxy_forward_def forwarded_def split: option.splits)

lemma forward_stage_cases:
  assumes "forward_stage V i tool srv params s = Some (res, s')"
  shows "forwarded V s srv (Request i METHOD_TOOLS_CALL (Some params)) s'"
    and "res = Err x \<Longrightarrow> upstream_error x"
    and "res = Ok r \<Longrightarrow> \<exists>r0. r = egress_filter (egress_inspector s) tool srv r0 \<and>
           proxy_forward V srv (Request i METHOD_TOOLS_CALL (Some params)) s = Some (Ok r0, s')"
  using assms proxy_forward_cases
  unfolding forward_stage_def by (auto elim!: step_bindE)

lemma proxy_to_upstream_cases:
  assumes "proxy_to_upstream V i method params s = Some (res, s')"
  obtains (none) "res = Err NO_UPSTREAM" "s' = s"
  | (forwarded) srv where "default_server_id (server_order V) (proxy s) = Some srv"
      "proxy_forward V srv (Request i method params) s = Some (res, s')"
  using assms by (auto simp: proxy_to_upstream_def split: option.splits)

section \<open>What a forwarded tool call has passed\<close>

text \<open>The conditions of a tool call, each said about the state in which the call arrives.\<close>

definition tools_call_admitted ::
  "'v env \<Rightarrow> 'v router \<Rightarrow> json \<Rightarrow> scope_enforcer \<Rightarrow> string option \<Rightarrow> string \<Rightarrow> registered_tool \<Rightarrow> bool" where
  "tools_call_admitted V s params e sid tool t \<longleftrightarrow>
     jget params ''name'' = Some (JStr tool) \<and>
     check_tool_access e tool = Ok () \<and>
     lookup_any (registry s) tool = Ok (Some t) \<and>
     (call_arguments params = JNull \<or>
      (\<exists>c. validate (env_codec V) (schema_engine V) (t_input_schema (rt_tool t))
             (call_arguments params) (schema_cache s) = Some (Ok (), c))) \<and>
     (case ecpa_guardrail s of
        None \<Rightarrow> True
      | Some ev \<Rightarrow> \<exists>r. ev tool (call_arguments params) = Ok r \<and> satisfied r) \<and>
     \<not> session_denies s sid tool"

text \<open>The errors of a call that is refused before it is forwarded.\<close>

fun refusal :: "mcp_error \<Rightarrow> bool" where
  "refusal (InvalidParams _) = True"
| "refusal (ScopeDenied _) = True"
| "refusal (MethodNotFound _) = True"
| "refusal (RegistryCollision _) = True"
| "refusal (SchemaInvalid _) = True"
| "refusal (EcpaViolation _) = True"
| "refusal (SessionLocked _) = True"
| "refusal _ = False"

lemma bind_as_str: "Option.bind x as_str = Some t \<longleftrightarrow> x = Some (JStr t)"
  by (cases x) auto

lemma session_denies_cong: "sessions s' = sessions s \<Longrightarrow> session_denies s' sid tool = session_denies s sid tool"
  by (simp add: session_denies_def)

lemma tools_call_cases:
  assumes "handle_tools_call V i params0 e sid s = Some (res, s')"
  obtains (refused) x where "res = Err x" "refusal x" "quiet s s'"
  | (admitted) tool t s1 where "tools_call_admitted V s (call_params params0) e sid tool t"
      "quiet s s1" "forward_stage V i tool (server_id t) (call_params params0) s1 = Some (res, s')"
proof -
  let ?p = "call_params params0"
  from assms show thesis
    unfolding handle_tools_call_def Let_def
  proof (cases rule: step_bindE)
    case (failed x)
    then show ?thesis by (intro refused [of x]) (auto simp: NAME_REQUIRED_def)
  next
    case (continued tool s1)
    then have name: "jget ?p ''name'' = Some (JStr tool)" and [simp]: "s1 = s"
      by (auto simp: bind_as_str)
    from continued(2) show ?thesis
    proof (cases rule: step_bindE)
      case (failed x)
      then show ?thesis using check_tool_access_error [of e tool x] by (intro refused [of x]) auto
    next
      case (continued u s2)
      then have access: "check_tool_access e tool = Ok ()" and [simp]: "s2 = s" by auto
      from continued(2) show ?thesis
      proof (cases rule: step_bindE)
        case (failed x)
        then show ?thesis using find_tool_quiet [of tool s "Err x" s'] by (intro refused [of x]) auto
      next
        case (continued t s3)
        then have found: "lookup_any (registry s) tool = Ok (Some t)" and [simp]: "s3 = s"
          using find_tool_quiet [of tool s "Ok t" s3] by auto
        from continued(2) show ?thesis
        proof (cases rule: step_bindE)
          case (failed x)
          then show ?thesis
            using schema_stage_quiet [OF failed(1)] schema_stage_Err [OF failed(1)]
            by (intro refused [of x]) auto
        next
          case schema: (continued v s4)
          from schema(2) show ?thesis
          proof (cases rule: step_bindE)
            case (failed x)
            then show ?thesis
              using schema_stage_quiet [OF schema(1)] ecpa_stage_quiet [OF failed(1)] quiet_trans
              by (intro refused [of x]) auto
          next
            case ecpa: (continued w s5)
            have q5: "quiet s s5" "sessions s5 = sessions s" "ecpa_guardrail s4 = ecpa_guardrail s"
              using schema_stage_quiet [OF schema(1)] ecpa_stage_quiet [OF ecpa(1)] quiet_trans
              by (auto simp: quiet_def)
            from ecpa(2) show ?thesis
            proof (cases rule: step_bindE)
              case (failed x)
              then show ?thesis
                using q5 session_stage_quiet [OF failed(1)] quiet_trans by (intro refused [of x]) auto
            next
              case (continued y s6)
              have "tools_call_admitted V s ?p e sid tool t"
                using name access found schema_stage_quiet [OF schema(1)] ecpa_stage_quiet [OF ecpa(1)]
                  session_stage_quiet [OF continued(1)] q5 session_denies_cong [OF q5(2)]
                by (simp add: tools_call_admitted_def)
              moreover have "quiet s s6"
                using q5(1) session_stage_quiet [OF continued(1)] quiet_trans by auto
              ultimately show ?thesis using continued(2) by (rule admitted)
            qed
          qed
        qed
      qed
    qed
  qed
qed

section \<open>Requests and messages\<close>

text \<open>The authorizer, if there is one, allows the request.\<close>

definition cedar_allows :: "'v env \<Rightarrow> 'v router \<Rightarrow> scope_enforcer \<Rightarrow> string \<Rightarrow> json option \<Rightarrow> bool" where
  "cedar_allows V s e method params \<longleftrightarrow>
    (case authorizer s of
       None \<Rightarrow> True
     | Some ev \<Rightarrow> \<exists>r. ev (cedar_request V e method params) = Ok r \<and> ar_decision r = CedarAllow)"

lemma request_cases:
  assumes "handle_request V i method params e sid s = Some (res, s')"
  obtains (unknown) "\<not> known_method method" "res = Ok (method_not_found_response i method)" "s' = s"
  | (denied) x where "res = Err x" "check_method e method = Err x" "s' = s"
  | (policy) x where "res = Err x" "check_method e method = Ok ()"
      "\<exists>m. x = ScopeDenied m \<or> x = InternalError m" "quiet s s'" "sessions s' = sessions s"
  | (dispatched) "known_method method" "check_method e method = Ok ()" "cedar_allows V s e method params"
      "dispatch V i method params e sid s = Some (res, s')"
proof (cases "known_method method")
  case True
  with assms have "step_bind (method_stage e method) (\<lambda>_.
      step_bind (cedar_stage V e method params) (\<lambda>_. dispatch V i method params e sid)) s = Some (res, s')"
    by (simp add: handle_request_def)
  then show ?thesis
  proof (cases rule: step_bindE)
    case (failed x)
    then show ?thesis by (intro denied) (auto simp: method_stage_def)
  next
    case (continued u s1)
    then have m: "check_method e method = Ok ()" and [simp]: "s1 = s" by (auto simp: method_stage_def)
    from continued(2) show ?thesis
    proof (cases rule: step_bindE)
      case (failed x)
      then show ?thesis using m cedar_stage_quiet [OF failed(1)] by (intro policy) auto
    next
      case (continued v s2)
      then show ?thesis
        using m True cedar_stage_quiet [OF continued(1)] by (intro dispatched) (auto simp: cedar_allows_def)
    qed
  qed
qed (use assms unknown in \<open>auto simp: handle_request_def\<close>)

lemma dispatch_cases:
  assumes "dispatch V i method params e sid s = Some (res, s')"
  obtains (answered) "s' = s" "\<And>r. res = Ok r \<Longrightarrow> msg_id r = Some i"
      "\<And>x. res = Err x \<Longrightarrow> \<exists>m. x = InvalidParams m \<or> x = InvalidRequest m"
  | (call) "method = METHOD_TOOLS_CALL" "handle_tools_call V i params e sid s = Some (res, s')"
  | (upstream) "method \<noteq> METHOD_TOOLS_CALL" "proxy_to_upstream V i method params s = Some (res, s')"
proof -
  consider "method = METHOD_INITIALIZE" | "method = METHOD_TOOLS_LIST" | "method = METHOD_TOOLS_CALL"
    | "method \<noteq> METHOD_TOOLS_CALL" "method \<notin> {METHOD_INITIALIZE, METHOD_TOOLS_LIST}"
    by auto
  then show ?thesis
  proof cases
    case 1
    then have "handle_initialize V i params s = Some (res, s')"
      using assms by (simp add: dispatch_def)
    then show ?thesis
      by (intro answered) (auto simp: handle_initialize_def success_response_def Let_def split: option.splits)
  next
    case 2
    then have "handle_tools_list V i s = Some (res, s')"
      using assms by (simp add: dispatch_def method_defs)
    then show ?thesis by (intro answered) (auto simp: handle_tools_list_def success_response_def)
  next
    case 3
    then have "handle_tools_call V i params e sid s = Some (res, s')"
      using assms by (simp add: dispatch_def method_defs)
    with 3 show ?thesis by (rule call)
  next
    case 4
    then consider "step_lift (Ok (success_response i (JObj []))) s = Some (res, s')"
      | "step_lift (Err SHOULD_BE_NOTIFICATION) s = Some (res, s')"
      | "proxy_to_upstream V i method params s = Some (res, s')"
      using assms by (auto simp: dispatch_def split: if_splits)
    then show ?thesis
    proof cases
      case 3
      with 4(1) show ?thesis by (rule upstream)
    qed (intro answered; auto simp: success_response_def SHOULD_BE_NOTIFICATION_def)+
  qed
qed

text \<open>The message of a batch that is routed, and what is done for it before metrics and audit.\<close>

fun leaf :: "message \<Rightarrow> message" where
  "leaf (Batch (m # ms)) = leaf m"
| "leaf m = m"

fun core :: "'v env \<Rightarrow> message \<Rightarrow> scope_enforcer \<Rightarrow> string option \<Rightarrow> ('v router, message) step" where
  "core V (Notification method params) e sid = step_lift (handle_notification method)"
| "core V (Request i method params) e sid = handle_request V i method params e sid"
| "core V (Batch ms) e sid = step_lift (Err EMPTY_BATCH)"
| "core V m e sid = step_lift (Err RESPONSE_RECEIVED)"

lemma handle_message_core:
  "handle_message V m e sid s = and_finish V (leaf m) e sid (core V (leaf m) e sid) s"
  by (induction V m e sid rule: handle_message.induct) simp_all

lemma handle_message_Some:
  "handle_message V m e sid s = Some (res, s') \<longleftrightarrow>
     (\<exists>s1. core V (leaf m) e sid s = Some (res, s1) \<and> s' = finish V (leaf m) e sid res s1)"
  by (auto simp: handle_message_core and_finish_def)

lemma finish_simps [simp]:
  "proxy (finish V m e sid res s) = proxy s" "sessions (finish V m e sid res s) = sessions s"
  "registry (finish V m e sid res s) = registry s" "authorizer (finish V m e sid res s) = authorizer s"
  "ecpa_guardrail (finish V m e sid res s) = ecpa_guardrail s"
  "egress_inspector (finish V m e sid res s) = egress_inspector s"
  by (simp_all add: finish_def)

text \<open>What the handling before metrics and audit does to the state.\<close>

definition unaudited :: "'v router \<Rightarrow> 'v router \<Rightarrow> bool" where
  "unaudited s s' \<longleftrightarrow>
     registry s' = registry s \<and> authorizer s' = authorizer s \<and>
     ecpa_guardrail s' = ecpa_guardrail s \<and> egress_inspector s' = egress_inspector s \<and>
     audit_producer s' = audit_producer s \<and> servers (proxy s') = servers (proxy s) \<and>
     max_concurrent (proxy s') = max_concurrent (proxy s) \<and>
     counted REQUESTS_TOTAL (metrics s') = counted REQUESTS_TOTAL (metrics s) \<and>
     (sent (proxy s') = sent (proxy s) \<or> (\<exists>c. sent (proxy s') = sent (proxy s) @ [c]))"

lemma unaudited_quiet: "quiet s s' \<Longrightarrow> unaudited s s'"
  by (simp add: quiet_def unaudited_def)

lemma unaudited_forwarded: "quiet s s1 \<Longrightarrow> forwarded V s1 srv m s' \<Longrightarrow> unaudited s s'"
  by (auto simp: quiet_def unaudited_def forwarded_def)

lemma core_unaudited:
  assumes "core V m e sid s = Some (res, s')"
  shows "unaudited s s'"
proof (cases m)
  case (Request i meth ps)
  with assms have "handle_request V i meth ps e sid s = Some (res, s')" by simp
  then show ?thesis
  proof (cases rule: request_cases)
    case dispatched
    from dispatched(4) show ?thesis
    proof (cases rule: dispatch_cases)
      case call
      from call(2) show ?thesis
        by (cases rule: tools_call_cases)
          (auto intro: unaudited_quiet unaudited_forwarded dest: forward_stage_cases(1))
    next
      case upstream
      from upstream(2) show ?thesis
        by (cases rule: proxy_to_upstream_cases)
          (auto intro: unaudited_quiet unaudited_forwarded [OF quiet_refl] dest: proxy_forward_cases(1))
    qed (simp add: unaudited_quiet)
  qed (simp_all add: unaudited_quiet)
qed (use assms in \<open>auto simp: unaudited_quiet\<close>)

end
