(* ===== verification/Tasks.thy ===== *)
theory Tasks
  imports Threads Router
begin

text \<open>
  \<open>McpRouter::handle_message\<close> of \<open>src/gateway/router.rs\<close> as a task of the asynchronous runtime: one atomic
  access for each lock it takes, instead of one step for the whole message as in \<open>Router\<close>. The
  semaphore of the proxy is part of the shared state: a forward takes a permit, sends, and gives the
  permit back when the answer is there. Without interruption a task is \<open>handle_message\<close>.
\<close>

section \<open>Accesses\<close>

record 'v shared =
  sh_router :: "'v router"
  permits :: nat

type_synonym ('v, 'a) task = "('v shared, ('a, mcp_error) result) thread"

definition then_do :: "('v router, 'a) step \<Rightarrow> ('a \<Rightarrow> ('v, 'b) task) \<Rightarrow> ('v, 'b) task" where
  "then_do m k =
     Atom (\<lambda>s. case m (sh_router s) of
                 None \<Rightarrow> None
               | Some (Err x, r) \<Rightarrow> Some (Done (Err x), s\<lparr>sh_router := r\<rparr>)
               | Some (Ok a, r) \<Rightarrow> Some (k a, s\<lparr>sh_router := r\<rparr>))"

definition or_fail :: "('a, mcp_error) result \<Rightarrow> ('a \<Rightarrow> ('v, 'b) task) \<Rightarrow> ('v, 'b) task" where
  "or_fail res k = (case res of Err x \<Rightarrow> Done (Err x) | Ok a \<Rightarrow> k a)"

text \<open>\<open>concurrency_limit.acquire().await\<close>; the permit is dropped when \<open>forward_request\<close> returns.\<close>

definition release :: "('a, mcp_error) result \<Rightarrow> ('v, 'a) task" where
  "release res = Atom (\<lambda>s. Some (Done res, s\<lparr>permits := Suc (permits s)\<rparr>))"

definition send :: "('v router, 'a) step \<Rightarrow> ('v, 'a) task" where
  "send m =
     Atom (\<lambda>s. case m (sh_router s) of
                 None \<Rightarrow> None
               | Some (res, r) \<Rightarrow> Some (release res, s\<lparr>sh_router := r\<rparr>))"

definition with_permit :: "('v router, 'a) step \<Rightarrow> ('v, 'a) task" where
  "with_permit m =
     Atom (\<lambda>s. if permits s = 0 then None else Some (send m, s\<lparr>permits := permits s - 1\<rparr>))"

section \<open>The task of a message\<close>

definition session_check :: "string \<Rightarrow> string option \<Rightarrow> ('v router, unit) step" where
  "session_check tool sid s =
    (case (sessions s, sid) of
       (Some ss, Some i) \<Rightarrow>
         (case check_context_access ss i (tool_context tool) of
            Ok (Deny reason l) \<Rightarrow> Some (Err (session_locked l reason), blocked ''session_lock'' s)
          | _ \<Rightarrow> Some (Ok (), s))
     | _ \<Rightarrow> Some (Ok (), s))"

definition session_log :: "'v env \<Rightarrow> string \<Rightarrow> json \<Rightarrow> string option \<Rightarrow> ('v router, unit) step" where
  "session_log V tool args sid s =
    (case (sessions s, sid) of
       (Some ss, Some i) \<Rightarrow>
         Some (Ok (), s\<lparr>sessions := Some (snd (log_tool_call i
           \<lparr>tc_tool_name = tool, tc_arguments = args, tc_timestamp = now_ts V\<rparr> (now_ts V) ss))\<rparr>)
     | _ \<Rightarrow> Some (Ok (), s))"

definition tools_call_task ::
  "'v env \<Rightarrow> request_id \<Rightarrow> json option \<Rightarrow> scope_enforcer \<Rightarrow> string option \<Rightarrow> ('v, message) task" where
  "tools_call_task V i params0 e sid =
    (let params = call_params params0; args = call_arguments params in
     or_fail (ok_or NAME_REQUIRED (Option.bind (jget params ''name'') as_str)) (\<lambda>tool.
     or_fail (check_tool_access e tool) (\<lambda>_.
     then_do (find_tool tool) (\<lambda>t.
     then_do (schema_stage V t args) (\<lambda>_.
     then_do (ecpa_stage tool args) (\<lambda>_.
     then_do (session_check tool sid) (\<lambda>_.
     then_do (session_log V tool args sid) (\<lambda>_.
     with_permit (forward_stage V i tool (server_id t) params)))))))))"

definition default_server :: "'v env \<Rightarrow> ('v router, string) step" where
  "default_server V s = Some (ok_or NO_UPSTREAM (default_server_id (server_order V) (proxy s)), s)"

definition upstream_task ::
  "'v env \<Rightarrow> request_id \<Rightarrow> string \<Rightarrow> json option \<Rightarrow> ('v, message) task" where
  "upstream_task V i method params =
     then_do (default_server V) (\<lambda>srv. with_permit (proxy_forward V srv (Request i method params)))"

definition dispatch_task ::
  "'v env \<Rightarrow> request_id \<Rightarrow> string \<Rightarrow> json option \<Rightarrow> scope_enforcer \<Rightarrow> string option \<Rightarrow> ('v, message) task" where
  "dispatch_task V i method params e sid =
    (if method = METHOD_INITIALIZE then then_do (handle_initialize V i params) (\<lambda>r. Done (Ok r))
     else if method = METHOD_PING then Done (Ok (success_response i (JObj [])))
     else if method = METHOD_TOOLS_LIST then then_do (handle_tools_list V i) (\<lambda>r. Done (Ok r))
     else if method = METHOD_TOOLS_CALL then tools_call_task V i params e sid
     else if method = METHOD_RESOURCES_LIST then upstream_task V i method params
     else if method = METHOD_PROMPTS_LIST then upstream_task V i method params
     else if method = METHOD_SHUTDOWN then Done (Ok (success_response i (JObj [])))
     else if method = METHOD_INITIALIZED then Done (Err SHOULD_BE_NOTIFICATION)
     else upstream_task V i method params)"

definition request_task ::
  "'v env \<Rightarrow> request_id \<Rightarrow> string \<Rightarrow> json option \<Rightarrow> scope_enforcer \<Rightarrow> string option \<Rightarrow> ('v, message) task" where
  "request_task V i method params e sid =
    (if \<not> known_method method then Done (Ok (method_not_found_response i method))
     else
       or_fail (check_method e method) (\<lambda>_.
       then_do (cedar_stage V e method params) (\<lambda>_.
       dispatch_task V i method params e sid)))"

fun core_task :: "'v env \<Rightarrow> message \<Rightarrow> scope_enforcer \<Rightarrow> string option \<Rightarrow> ('v, message) task" where
  "core_task V (Notification method params) e sid = Done (handle_notification method)"
| "core_task V (Request i method params) e sid = request_task V i method params e sid"
| "core_task V (Batch ms) e sid = Done (Err EMPTY_BATCH)"
| "core_task V m e sid = Done (Err RESPONSE_RECEIVED)"

definition recorded :: "'v env \<Rightarrow> message \<Rightarrow> (message, mcp_error) result \<Rightarrow> 'v router \<Rightarrow> 'v router" where
  "recorded V m res s =
     s\<lparr>metrics := record_request (the_method m) GATEWAY (status_of res) (elapsed_ns V) (metrics s)\<rparr>"

definition published ::
  "'v env \<Rightarrow> message \<Rightarrow> scope_enforcer \<Rightarrow> string option \<Rightarrow> (message, mcp_error) result \<Rightarrow>
     'v router \<Rightarrow> 'v router" where
  "published V m e sid res s =
     s\<lparr>audit_producer :=
         map_option (\<lambda>p. snd (publish_audit_event (env_codec V) (make_event V m e sid res) p))
           (audit_producer s)\<rparr>"

definition publish_task ::
  "'v env \<Rightarrow> message \<Rightarrow> scope_enforcer \<Rightarrow> string option \<Rightarrow> (message, mcp_error) result \<Rightarrow>
     ('v, message) task" where
  "publish_task V m e sid res =
     Atom (\<lambda>s. Some (Done res, s\<lparr>sh_router := published V m e sid res (sh_router s)\<rparr>))"

definition finish_task ::
  "'v env \<Rightarrow> message \<Rightarrow> scope_enforcer \<Rightarrow> string option \<Rightarrow> (message, mcp_error) result \<Rightarrow>
     ('v, message) task" where
  "finish_task V m e sid res =
     Atom (\<lambda>s. Some (publish_task V m e sid res, s\<lparr>sh_router := recorded V m res (sh_router s)\<rparr>))"

definition message_task ::
  "'v env \<Rightarrow> message \<Rightarrow> scope_enforcer \<Rightarrow> string option \<Rightarrow> ('v, message) task" where
  "message_task V m e sid =
     bind_thread (core_task V (leaf m) e sid) (finish_task V (leaf m) e sid)"

section \<open>A task without interruption\<close>

definition all_free :: "'v router \<Rightarrow> 'v shared" where
  "all_free r = \<lparr>sh_router = r, permits = max_concurrent (proxy r)\<rparr>"

text \<open>A step that leaves the number of slots alone, and a task that does what a step does.\<close>

definition keeps_slots :: "('v router, 'a) step \<Rightarrow> bool" where
  "keeps_slots m \<longleftrightarrow> (\<forall>r res r'. m r = Some (res, r') \<longrightarrow> max_concurrent (proxy r') = max_concurrent (proxy r))"

definition runs_as :: "('v, 'a) task \<Rightarrow> ('v router, 'a) step \<Rightarrow> bool" where
  "runs_as t m \<longleftrightarrow> (\<forall>r. run_alone t (all_free r) = map_option (map_prod id all_free) (m r))"

lemma all_free_update:
  "max_concurrent (proxy r') = max_concurrent (proxy r) \<Longrightarrow> (all_free r)\<lparr>sh_router := r'\<rparr> = all_free r'"
  by (simp add: all_free_def)

lemma all_free_router [simp]: "sh_router (all_free r) = r"
  by (simp add: all_free_def)

lemma runs_Done: "runs_as (Done res) (step_lift res)"
  by (simp add: runs_as_def step_lift_def)

lemma runs_then:
  assumes "keeps_slots m" "\<And>a. runs_as (k a) (f a)"
  shows "runs_as (then_do m k) (step_bind m f)"
  unfolding runs_as_def
proof
  fix r
  show "run_alone (then_do m k) (all_free r) = map_option (map_prod id all_free) (step_bind m f r)"
  proof (cases "m r")
    case (Some x)
    then obtain res r' where m: "m r = Some (res, r')" by (cases x) simp
    moreover have "(all_free r)\<lparr>sh_router := r'\<rparr> = all_free r'"
      using m assms(1) by (intro all_free_update) (simp add: keeps_slots_def)
    ultimately show ?thesis
      using assms(2) by (cases res) (simp_all add: then_do_def step_bind_def runs_as_def)
  qed (simp add: then_do_def step_bind_def)
qed

lemma runs_or_fail: "(\<And>a. runs_as (k a) (f a)) \<Longrightarrow> runs_as (or_fail res k) (step_bind (step_lift res) f)"
  by (cases res) (simp_all add: or_fail_def step_bind_def step_lift_def runs_as_def)

lemma runs_with_permit:
  assumes "keeps_slots m" "\<And>r. max_concurrent (proxy r) = 0 \<Longrightarrow> m r = None"
  shows "runs_as (with_permit m) m"
  unfolding runs_as_def
proof
  fix r
  show "run_alone (with_permit m) (all_free r) = map_option (map_prod id all_free) (m r)"
  proof (cases "m r")
    case None
    then show ?thesis
      by (simp add: with_permit_def send_def all_free_def)
  next
    case (Some x)
    then obtain res r' where m: "m r = Some (res, r')" by (cases x) simp
    have "max_concurrent (proxy r) \<noteq> 0" using assms(2) [of r] m by auto
    moreover have "max_concurrent (proxy r') = max_concurrent (proxy r)"
      using assms(1) m by (simp add: keeps_slots_def)
    ultimately show ?thesis using m
      by (simp add: with_permit_def send_def release_def all_free_def)
  qed
qed

lemma step_bind_assoc: "step_bind (step_bind m f) g = step_bind m (\<lambda>a. step_bind (f a) g)"
  by (auto simp: step_bind_def fun_eq_iff split: option.split prod.split result.split)

lemma step_bind_return: "step_bind m (\<lambda>a. step_lift (Ok a)) = m"
  by (auto simp: step_bind_def step_lift_def fun_eq_iff split: option.split prod.split result.split)

lemma session_stage_split:
  "session_stage V tool args sid = step_bind (session_check tool sid) (\<lambda>_. session_log V tool args sid)"
  by (auto simp: session_stage_def session_check_def session_log_def step_bind_def fun_eq_iff Let_def
      split: option.split result.split access_check_result.split)

lemma proxy_to_upstream_split:
  "proxy_to_upstream V i method params =
     step_bind (default_server V) (\<lambda>srv. proxy_forward V srv (Request i method params))"
  by (auto simp: proxy_to_upstream_def default_server_def step_bind_def fun_eq_iff ok_or_def split: option.split)

definition quiet_step :: "('v router, 'a) step \<Rightarrow> bool" where
  "quiet_step m \<longleftrightarrow> (\<forall>r res r'. m r = Some (res, r') \<longrightarrow> quiet r r')"

lemma quiet_stepD: "quiet_step m \<Longrightarrow> m r = Some (res, r') \<Longrightarrow> quiet r r'"
  by (simp add: quiet_step_def)

lemma keeps_slots_quiet: "quiet_step m \<Longrightarrow> keeps_slots m"
  unfolding keeps_slots_def quiet_step_def quiet_def by metis

lemma session_check_quiet:
  "session_check tool sid s = Some (res, s') \<Longrightarrow>
     quiet s s' \<and> (is_ok res \<longleftrightarrow> \<not> session_denies s sid tool) \<and> sessions s' = sessions s"
  by (auto simp: session_check_def session_denies_def
      split: option.splits result.splits access_check_result.splits)

lemma session_log_quiet: "session_log V tool args sid s = Some (res, s') \<Longrightarrow> quiet s s' \<and> is_ok res"
  by (auto simp: session_log_def quiet_def split: option.splits)

lemma default_server_quiet: "default_server V s = Some (res, s') \<Longrightarrow> s' = s"
  by (simp add: default_server_def)

lemma handle_initialize_quiet: "handle_initialize V i params s = Some (res, s') \<Longrightarrow> s' = s"
  by (auto simp: handle_initialize_def Let_def split: option.splits)

lemma handle_tools_list_quiet: "handle_tools_list V i s = Some (res, s') \<Longrightarrow> s' = s"
  by (simp add: handle_tools_list_def)

lemma quiet_steps:
  "quiet_step (find_tool tool)" "quiet_step (schema_stage V t args)" "quiet_step (ecpa_stage tool args)"
  "quiet_step (session_check tool sid)" "quiet_step (session_log V tool args sid)"
  "quiet_step (cedar_stage V e method params)" "quiet_step (default_server V)"
  "quiet_step (handle_initialize V i params)" "quiet_step (handle_tools_list V i)"
  using find_tool_quiet schema_stage_quiet ecpa_stage_quiet session_check_quiet session_log_quiet cedar_stage_quiet
    default_server_quiet handle_initialize_quiet handle_tools_list_quiet
  by (auto simp: quiet_step_def) fastforce+

lemmas stages_keep_slots = quiet_steps [THEN keeps_slots_quiet]

lemma forwards_keep_slots: "keeps_slots (proxy_forward V srv m)" "keeps_slots (forward_stage V i tool srv params)"
  using proxy_forward_cases(1) forward_stage_cases(1) unfolding keeps_slots_def forwarded_def by blast+

lemma forwards_wait:
  "max_concurrent (proxy r) = 0 \<Longrightarrow> proxy_forward V srv m r = None"
  "max_concurrent (proxy r) = 0 \<Longrightarrow> forward_stage V i tool srv params r = None"
  by (simp_all add: proxy_forward_def forward_request_def forward_stage_def step_bind_def)

lemmas run_rules = runs_Done runs_then runs_or_fail runs_with_permit stages_keep_slots forwards_keep_slots forwards_wait

lemma tools_call_task_runs: "runs_as (tools_call_task V i params e sid) (handle_tools_call V i params e sid)"
  unfolding tools_call_task_def handle_tools_call_def Let_def session_stage_split step_bind_assoc
  by (intro run_rules)

lemma upstream_task_runs: "runs_as (upstream_task V i method params) (proxy_to_upstream V i method params)"
  unfolding upstream_task_def proxy_to_upstream_split by (intro run_rules)

lemma runs_then_return: "keeps_slots m \<Longrightarrow> runs_as (then_do m (\<lambda>r. Done (Ok r))) m"
  using runs_then [OF _ runs_Done, of m Ok] by (simp add: step_bind_return)

lemma dispatch_task_runs: "runs_as (dispatch_task V i method params e sid) (dispatch V i method params e sid)"
  unfolding dispatch_task_def dispatch_def
  by (simp add: runs_Done runs_then_return stages_keep_slots tools_call_task_runs upstream_task_runs)

lemma core_task_runs: "runs_as (core_task V m e sid) (core V m e sid)"
proof (cases m)
  case (Request i meth ps)
  have "runs_as (request_task V i meth ps e sid) (handle_request V i meth ps e sid)"
    unfolding request_task_def handle_request_def method_stage_def
    by (auto intro!: run_rules dispatch_task_runs)
  with Request show ?thesis by simp
qed (simp_all add: runs_Done)

lemma finish_split: "finish V m e sid res s = published V m e sid res (recorded V m res s)"
  by (simp add: finish_def published_def recorded_def)

lemma message_task_runs: "runs_as (message_task V m e sid) (handle_message V m e sid)"
  unfolding runs_as_def
proof
  fix r
  have C: "run_alone (core_task V (leaf m) e sid) (all_free r) =
      map_option (map_prod id all_free) (core V (leaf m) e sid r)"
    using core_task_runs [of V "leaf m" e sid] by (simp add: runs_as_def)
  have F: "run_alone (finish_task V (leaf m) e sid res) (all_free r') =
      Some (res, all_free (finish V (leaf m) e sid res r'))" for res r'
    by (simp add: finish_task_def publish_task_def all_free_def finish_split published_def recorded_def)
  show "run_alone (message_task V m e sid) (all_free r) = map_option (map_prod id all_free) (handle_message V m e sid r)"
    unfolding message_task_def
    by (cases "core V (leaf m) e sid r") (auto simp: run_alone_bind C F handle_message_core and_finish_def)
qed

end
