(* ===== verification/Pipeline.thy ===== *)
theory Pipeline
  imports Router
begin

text \<open>
  What the request pipeline as a whole guarantees, and where it does not: statements about
  \<open>handle_message\<close> of \<open>src/gateway/router.rs\<close> that rest on the lemmas of every component it
  calls.
\<close>

section \<open>A concrete gateway for the witnesses\<close>

definition sample_env :: "string env" where
  "sample_env =
     \<lparr>proxy_env = \<lparr>pe_codec = sample_codec, pe_serde = (\<lambda>_ _. []),
        pe_http = (\<lambda>_ _. SendFailed ''refused''), pe_now = ''now''\<rparr>,
      schema_engine = sample_engine, scope_order = (\<lambda>xs. xs), tool_order = (\<lambda>xs. xs),
      server_order = (\<lambda>xs. xs), uuid = ''u'', now_rfc3339 = ''now'', now_ts = 0,
      elapsed_ns = 1, elapsed_ms = 0\<rparr>"

definition sample_schema :: json where
  "sample_schema = JObj [(''type'', JStr ''object'')]"

definition echo_tool :: tool where
  "echo_tool =
     \<lparr>t_name = ''com.echo:echo'', t_description = None, t_input_schema = sample_schema,
      t_annotations = None\<rparr>"

definition sample_registry :: registry where
  "sample_registry = snd (register_tool echo_tool ''echo'' 0 registry_new)"

definition sample_router :: "string router" where
  "sample_router =
     with_guardrails sample_registry sample_proxy [] ''shield'' ''1'' None (Some [])
       (Some (BufferingProducer [])) None None"

definition echo_params :: json where
  "echo_params =
     JObj [(''name'', JStr ''com.echo:echo''), (''arguments'', JObj [(''message'', JStr ''hi'')])]"

definition echo_answer :: message where
  "echo_answer = Success (IdInteger 1) (text_content ''Echo: hi'')"

definition echo_call_message :: message where
  "echo_call_message = Request (IdInteger 1) METHOD_TOOLS_CALL (Some echo_params)"

lemmas sample_defs =
  sample_router_def with_guardrails_def sample_proxy_def register_server_def proxy_new_def
  echo_server_def web_server_def

lemma sample_lookup:
  "lookup_any (registry sample_router) ''com.echo:echo'' =
     Ok (Some \<lparr>qualified_name = ''com.echo:echo'', rt_prefix = ''com.echo'', rt_name = ''echo'',
        rt_tool = echo_tool, server_id = ''echo'', registered_at = 0\<rparr>)"
  by code_simp

lemma sample_call:
  "\<exists>s'. handle_message sample_env echo_call_message enforcer_permissive None sample_router =
       Some (Ok echo_answer, s') \<and>
     sent (proxy s') = [EchoCall echo_call_message]"
proof -
  have "map_option (\<lambda>(r, s'). (r, sent (proxy s')))
      (handle_message sample_env echo_call_message enforcer_permissive None sample_router) =
    Some (Ok echo_answer, [EchoCall echo_call_message])"
    by code_simp
  then show ?thesis by auto
qed

section \<open>Properties\<close>

text \<open>C1: Nothing is sent upstream for a tool call unless every guard has passed on the state in
  which the call arrived: the method's scope, the policy, the tool's scope, the registry, the
  schema of the arguments (or the arguments are \<open>null\<close>), the guardrail and the session lock; and
  then exactly one call is made, to the server that owns the tool, with the caller's parameters.\<close>

theorem tool_call_guarded:
  assumes "handle_message V (Request i METHOD_TOOLS_CALL params) e sid s = Some (res, s')"
    and "sent (proxy s') \<noteq> sent (proxy s)"
  shows "check_method e METHOD_TOOLS_CALL = Ok () \<and> cedar_allows V s e METHOD_TOOLS_CALL params \<and>
    (\<exists>tool t c. tools_call_admitted V s (call_params params) e sid tool t \<and>
       sent (proxy s') = sent (proxy s) @ [c] \<and>
       sends_to (proxy_env V) (proxy s) (server_id t)
         (Request i METHOD_TOOLS_CALL (Some (call_params params))) c)"
proof -
  obtain s1 where R: "handle_request V i METHOD_TOOLS_CALL params e sid s = Some (res, s1)"
      and s1: "sent (proxy s1) = sent (proxy s')"
    using assms(1) [unfolded handle_message_Some] by auto
  from R show ?thesis
  proof (cases rule: request_cases)
    case dispatched
    then have "handle_tools_call V i params e sid s = Some (res, s1)"
      by (simp add: dispatch_def method_defs)
    then show ?thesis
    proof (cases rule: tools_call_cases)
      case (admitted tool t s2)
      then show ?thesis
        using dispatched(2,3) assms(2) s1 forward_stage_cases(1) [OF admitted(3)]
        by (auto simp: quiet_def forwarded_def)
    qed (use assms(2) s1 in \<open>auto simp: quiet_def\<close>)
  qed (use assms(2) s1 in \<open>auto simp: quiet_def\<close>)
qed

lemma tool_call_guarded_witness:
  "\<exists>tool t c. tools_call_admitted sample_env sample_router echo_params enforcer_permissive None tool t \<and>
     sends_to (proxy_env sample_env) (proxy sample_router) (server_id t) echo_call_message c"
proof -
  obtain s' where "handle_message sample_env (Request (IdInteger 1) METHOD_TOOLS_CALL (Some echo_params))
        enforcer_permissive None sample_router = Some (Ok echo_answer, s')"
      and "sent (proxy s') = [EchoCall echo_call_message]"
    using sample_call unfolding echo_call_message_def by blast
  moreover have "sent (proxy sample_router) = []" by (simp add: sample_defs)
  ultimately show ?thesis
    using tool_call_guarded by (fastforce simp: call_params_def echo_call_message_def)
qed

text \<open>C2: An error with one of the gateway's own codes for a refusal (invalid parameters, scope or
  policy denied, schema invalid, registry, session lock, guardrail) means that the message caused
  no upstream call; and whatever the message and the outcome, it caused at most one.\<close>

theorem refusal_sends_nothing:
  assumes "handle_message V m e sid s = Some (res, s')"
  shows "(\<forall>x. res = Err x \<and>
            error_code x \<in> {INVALID_PARAMS, SCOPE_DENIED, SCHEMA_INVALID, REGISTRY_COLLISION,
                            SESSION_LOCKED, EPCA_VIOLATION} \<longrightarrow>
            sent (proxy s') = sent (proxy s)) \<and>
         length (sent (proxy s')) \<le> Suc (length (sent (proxy s)))"
proof -
  obtain s1 where C: "core V (leaf m) e sid s = Some (res, s1)" and s1: "proxy s1 = proxy s'"
    using assms [unfolded handle_message_Some] by auto
  have up: "\<not> upstream_error x" if "error_code x \<in> {INVALID_PARAMS, SCOPE_DENIED, SCHEMA_INVALID,
      REGISTRY_COLLISION, SESSION_LOCKED, EPCA_VIOLATION}" for x
    using that by (cases x) (simp_all add: error_code_defs)
  have "sent (proxy s1) = sent (proxy s)" if "res = Err x" "\<not> upstream_error x" for x
  proof (cases "\<exists>i meth ps. leaf m = Request i meth ps")
    case True
    then obtain i meth ps where "handle_request V i meth ps e sid s = Some (res, s1)"
      using C by auto
    then show ?thesis
    proof (cases rule: request_cases)
      case dispatched
      from dispatched(4) show ?thesis
      proof (cases rule: dispatch_cases)
        case call
        from call(2) show ?thesis
          by (cases rule: tools_call_cases)
            (use that in \<open>auto simp: quiet_def dest: forward_stage_cases(2) [OF _ refl]\<close>)
      next
        case upstream
        from upstream(2) show ?thesis
          by (cases rule: proxy_to_upstream_cases) (use that in \<open>auto dest: proxy_forward_cases(3) [OF _ refl]\<close>)
      qed simp
    qed (auto simp: quiet_def)
  qed (use C in \<open>cases "leaf m"; auto\<close>)
  then show ?thesis
    using up core_unaudited [OF C] s1 by (auto simp: unaudited_def)
qed

lemma refusal_sends_nothing_witness:
  "\<exists>x s'. handle_message sample_env echo_call_message (enforcer_new []) None sample_router =
       Some (Err x, s') \<and> error_code x = SCOPE_DENIED \<and> sent (proxy s') = []"
proof -
  have "map_option (map_err error_code \<circ> fst)
      (handle_message sample_env echo_call_message (enforcer_new []) None sample_router) =
    Some (Err SCOPE_DENIED)"
    by code_simp
  then obtain x s' where R: "handle_message sample_env echo_call_message (enforcer_new []) None sample_router =
      Some (Err x, s')" "error_code x = SCOPE_DENIED"
    by (auto simp: map_err_Err)
  moreover have "sent (proxy sample_router) = []" by (simp add: sample_defs)
  ultimately show ?thesis
    using refusal_sends_nothing [OF R(1)] by auto
qed

text \<open>C22: Every message that is answered, whatever it is and however it ends, is counted once and
  audited once: the request counter grows by one and the audit producer is given one event, which
  describes the routed message (the first one of a batch, the only one that is routed at all) and
  the result that is returned.\<close>

theorem counted_and_audited_once:
  assumes "handle_message V m e sid s = Some (res, s')"
  shows "counted REQUESTS_TOTAL (metrics s') = Suc (counted REQUESTS_TOTAL (metrics s)) \<and>
         audit_producer s' =
           map_option (\<lambda>p. snd (publish_audit_event (env_codec V) (make_event V (leaf m) e sid res) p))
             (audit_producer s)"
proof -
  obtain s1 where C: "core V (leaf m) e sid s = Some (res, s1)"
      and s': "s' = finish V (leaf m) e sid res s1"
    using assms [unfolded handle_message_Some] by auto
  have "counted REQUESTS_TOTAL (metrics s1) = counted REQUESTS_TOTAL (metrics s)"
    "audit_producer s1 = audit_producer s"
    using core_unaudited [OF C] by (simp_all add: unaudited_def)
  then show ?thesis
    by (simp add: s' finish_def record_request_def)
qed

lemma counted_and_audited_once_witness:
  "\<exists>res s'. handle_message sample_env (Batch [echo_call_message, echo_call_message]) enforcer_permissive
       (Some ''stdio'') sample_router = Some (res, s') \<and>
     audit_producer s' = Some (BufferingProducer
       [make_event sample_env echo_call_message enforcer_permissive (Some ''stdio'') res])"
proof -
  have "handle_message sample_env (Batch [echo_call_message, echo_call_message]) enforcer_permissive
       (Some ''stdio'') sample_router \<noteq> None"
    by code_simp
  then obtain res s' where R: "handle_message sample_env (Batch [echo_call_message, echo_call_message])
      enforcer_permissive (Some ''stdio'') sample_router = Some (res, s')"
    by auto
  have "audit_producer sample_router = Some (BufferingProducer [])" by (simp add: sample_defs)
  with counted_and_audited_once [OF R] R show ?thesis
    by (simp add: echo_call_message_def)
qed

text \<open>How an outcome is audited. A denial of scope, by the enforcer or by a policy, is always
  recorded as a policy denial; the code's separate branch for "Scope denied" is never the one
  that decides.\<close>

theorem audit_decision_table:
  "audit_decision res =
    (case res of
       Ok _ \<Rightarrow> DecAllow
     | Err (ScopeDenied _) \<Rightarrow> DecDenyPolicy
     | Err (SessionLocked _) \<Rightarrow> DecBlock
     | Err (EcpaViolation _) \<Rightarrow> DecBlock
     | Err _ \<Rightarrow> DecDeny)"
  by (simp add: audit_decision_def error_code_defs split: result.split mcp_error.split)

text \<open>Where an answer comes from: it has the identifier, or an HTTP call was added to the trace.\<close>

definition correlated :: "request_id \<Rightarrow> message \<Rightarrow> proxy \<Rightarrow> proxy \<Rightarrow> bool" where
  "correlated i r p p' \<longleftrightarrow>
     msg_id r = Some i \<or> (\<exists>url body. sent p' = sent p @ [HttpCall url body])"

lemma correlatedI [intro]: "msg_id r = Some i \<Longrightarrow> correlated i r p p'"
  by (simp add: correlated_def)

lemma proxy_forward_correlated:
  assumes "proxy_forward V srv (Request i m p) s = Some (Ok r, s')"
  shows "correlated i r (proxy s) (proxy s')"
proof -
  obtain p' where "forward_request (proxy_env V) srv (Request i m p) (proxy s) = Some (Ok r, p')"
      and "s' = s\<lparr>proxy := p'\<rparr>"
    using assms by (auto simp: proxy_forward_def split: option.splits)
  then show ?thesis
    using forward_to_echo_id [of "proxy_env V" "Request i m p" r]
    by (auto simp: correlated_def forward_request_def split: if_splits option.splits upstream_transport.splits)
qed

lemma egress_filter_id [simp]: "msg_id (egress_filter insp tool srv r) = msg_id r"
  by (simp add: egress_filter_def split: option.split result.split message.split)

lemma forward_stage_correlated:
  assumes "forward_stage V i tool srv params s = Some (Ok r, s')"
  shows "correlated i r (proxy s) (proxy s')"
proof -
  obtain r0 where "r = egress_filter (egress_inspector s) tool srv r0"
      and "proxy_forward V srv (Request i METHOD_TOOLS_CALL (Some params)) s = Some (Ok r0, s')"
    using forward_stage_cases(3) [OF assms refl] by blast
  then show ?thesis using proxy_forward_correlated by (fastforce simp: correlated_def)
qed

lemma dispatch_correlated:
  assumes "dispatch V i method params e sid s = Some (Ok r, s')"
  shows "correlated i r (proxy s) (proxy s')"
  using assms
proof (cases rule: dispatch_cases)
  case call
  from call(2) show ?thesis
  proof (cases rule: tools_call_cases)
    case (admitted tool t s1)
    then show ?thesis using forward_stage_correlated [OF admitted(3)] by (simp add: quiet_def)
  qed simp
next
  case upstream
  from upstream(2) show ?thesis
  proof (cases rule: proxy_to_upstream_cases)
    case (forwarded srv)
    then show ?thesis using proxy_forward_correlated by blast
  qed simp
qed auto

text \<open>C24: An answer carries the identifier of its request, except where an HTTP upstream was asked:
  whenever a request is answered with a message of another identifier, that message came back
  from an HTTP call.\<close>

theorem answers_correlated:
  assumes "handle_message V (Request i method params) e sid s = Some (Ok r, s')"
  shows "msg_id r = Some i \<or> (\<exists>url body. sent (proxy s') = sent (proxy s) @ [HttpCall url body])"
proof -
  obtain s1 where R: "handle_request V i method params e sid s = Some (Ok r, s1)"
      and s1: "proxy s1 = proxy s'"
    using assms [unfolded handle_message_Some] by auto
  from R have "correlated i r (proxy s) (proxy s1)"
  proof (cases rule: request_cases)
    case unknown
    then show ?thesis by (simp add: correlated_def method_not_found_response_def)
  next
    case dispatched
    then show ?thesis using dispatch_correlated by blast
  qed simp_all
  then show ?thesis by (simp only: correlated_def s1)
qed

lemma answers_correlated_witness:
  "\<exists>r s'. handle_message sample_env echo_call_message enforcer_permissive None sample_router = Some (Ok r, s') \<and>
     msg_id r = Some (IdInteger 1)"
proof -
  obtain s' where R: "handle_message sample_env (Request (IdInteger 1) METHOD_TOOLS_CALL (Some echo_params))
        enforcer_permissive None sample_router = Some (Ok echo_answer, s')"
      and "sent (proxy s') = [EchoCall echo_call_message]"
    using sample_call unfolding echo_call_message_def by blast
  then show ?thesis
    using answers_correlated [OF R] by (auto simp: echo_call_message_def)
qed

text \<open>The per-tool scopes of \<open>check_tool_access\<close> never open anything: without
  \<open>mcp:tools:call\<close> or \<open>mcp:admin\<close> every tool call is refused with a scope error before the
  tool is looked at, and nothing is sent, even when \<open>check_tool_access\<close> grants the tool.\<close>

theorem per_tool_scopes_dead:
  assumes "\<not> permissive e" "SCOPE_TOOLS_CALL \<notin> set (granted_scopes e)"
    and "SCOPE_ADMIN \<notin> set (granted_scopes e)"
  shows "\<exists>x s'. handle_message V (Request i METHOD_TOOLS_CALL params) e sid s = Some (Err (ScopeDenied x), s') \<and>
           proxy s' = proxy s"
proof -
  have "method_scopes METHOD_TOOLS_CALL = Some {SCOPE_TOOLS_CALL, SCOPE_ADMIN}"
    by (simp add: method_scopes_def method_defs)
  then have "check_method e METHOD_TOOLS_CALL \<noteq> Ok ()"
    using assms by (simp add: check_method_iff)
  then obtain x where x: "check_method e METHOD_TOOLS_CALL = Err (ScopeDenied x)"
    using check_method_error by (metis result.exhaust old.unit.exhaust)
  have "known_method METHOD_TOOLS_CALL"
    by (simp add: known_method_def is_valid_method_def VALID_METHODS_def)
  then have "core V (Request i METHOD_TOOLS_CALL params) e sid s = Some (Err (ScopeDenied x), s)"
    by (simp add: handle_request_def method_stage_def x step_bind_def step_lift_def)
  then show ?thesis
    unfolding handle_message_Some leaf.simps by auto
qed

lemma per_tool_scopes_dead_witness:
  "let e = enforcer_new [''mcp:tools:call:com.echo''] in
   check_tool_access e ''com.echo:echo'' = Ok () \<and>
   (\<exists>x s'. handle_message sample_env echo_call_message e None sample_router = Some (Err (ScopeDenied x), s') \<and>
      proxy s' = proxy sample_router)"
proof -
  let ?e = "enforcer_new [''mcp:tools:call:com.echo'']"
  have "is_ok (check_tool_access ?e ''com.echo:echo'')" by code_simp
  then have "check_tool_access ?e ''com.echo:echo'' = Ok ()" by (auto simp: is_ok_iff)
  moreover have "\<not> permissive ?e" "SCOPE_TOOLS_CALL \<notin> set (granted_scopes ?e)"
    "SCOPE_ADMIN \<notin> set (granted_scopes ?e)"
    by (simp_all add: enforcer_new_def scope_defs)
  ultimately show ?thesis
    using per_tool_scopes_dead [of ?e] unfolding echo_call_message_def Let_def by blast
qed

text \<open>A request whose method starts with \<open>notifications/\<close> needs no scope: for every method
  of that kind but \<open>notifications/initialized\<close>, known to MCP or not, and whatever has been
  granted, a gateway without a policy authorizer hands the request to the default upstream.\<close>

theorem notification_requests_need_no_scope:
  assumes "starts_with method NOTIFICATIONS_PREFIX" "method \<noteq> METHOD_INITIALIZED"
    and "authorizer s = None"
  shows "handle_message V (Request i method params) e sid s =
         and_finish V (Request i method params) e sid (proxy_to_upstream V i method params) s"
proof -
  have ne: "method \<notin> {METHOD_INITIALIZE, METHOD_PING, METHOD_TOOLS_LIST, METHOD_TOOLS_CALL,
      METHOD_RESOURCES_LIST, METHOD_PROMPTS_LIST, METHOD_SHUTDOWN, METHOD_RESOURCES_READ,
      METHOD_PROMPTS_GET, METHOD_SAMPLING_CREATE}"
    using assms(1) by (auto simp: NOTIFICATIONS_PREFIX_def method_defs)
  then have "method_scopes method = None"
    by (simp add: method_scopes_def)
  then have "check_method e method = Ok ()"
    by (simp add: check_method_iff)
  moreover have "dispatch V i method params e sid = proxy_to_upstream V i method params"
    using ne assms(2) by (simp add: dispatch_def)
  ultimately have "handle_request V i method params e sid s = proxy_to_upstream V i method params s"
    using assms by (simp add: handle_request_def known_method_def method_stage_def step_bind_def
        step_lift_def cedar_stage_def)
  then show ?thesis by (simp add: and_finish_def)
qed

lemma notification_requests_need_no_scope_witness:
  "handle_message sample_env (Request (IdInteger 1) ''notifications/any'' None) (enforcer_new []) None sample_router =
   and_finish sample_env (Request (IdInteger 1) ''notifications/any'' None) (enforcer_new []) None
     (proxy_to_upstream sample_env (IdInteger 1) ''notifications/any'' None) sample_router"
  by (rule notification_requests_need_no_scope)
    (simp_all add: NOTIFICATIONS_PREFIX_def METHOD_INITIALIZED_def sample_defs)

text \<open>Explicit \<open>null\<close> arguments are never validated: the handling of such a tool call does not
  depend on the validators at all, so no input schema can reject it.\<close>

theorem null_arguments_unvalidated:
  assumes "jget params ''arguments'' = Some JNull"
  shows "handle_message (V\<lparr>schema_engine := E\<rparr>) (Request i METHOD_TOOLS_CALL (Some params)) e sid s =
         handle_message V (Request i METHOD_TOOLS_CALL (Some params)) e sid s"
proof -
  let ?V = "V\<lparr>schema_engine := E\<rparr>"
  have args: "call_arguments (call_params (Some params)) = JNull"
    by (simp add: call_arguments_def call_params_def assms)
  have acc: "now_ts ?V = now_ts V" "proxy_env ?V = proxy_env V" "uuid ?V = uuid V"
    "now_rfc3339 ?V = now_rfc3339 V" "elapsed_ns ?V = elapsed_ns V" "elapsed_ms ?V = elapsed_ms V"
    "env_codec ?V = env_codec V" "scope_list ?V = scope_list V"
    by (simp_all add: env_codec_def scope_list_def fun_eq_iff)
  have pf: "proxy_forward ?V = proxy_forward V" and cr: "cedar_request ?V = cedar_request V"
    and me: "make_event ?V = make_event V"
    by (intro ext; simp only: proxy_forward_def cedar_request_def make_event_def acc)+
  have "schema_stage ?V t JNull = schema_stage V t JNull" for t
    by (intro ext) (simp only: schema_stage_def if_True simp_thms)
  moreover have "session_stage ?V = session_stage V" "forward_stage ?V = forward_stage V"
    "cedar_stage ?V = cedar_stage V"
    by (intro ext; simp only: session_stage_def forward_stage_def cedar_stage_def acc pf cr)+
  moreover have "finish ?V = finish V"
    by (intro ext) (simp only: finish_def me acc)
  ultimately show ?thesis
    by (simp add: and_finish_def handle_request_def dispatch_def method_defs handle_tools_call_def args)
qed

lemma null_arguments_unvalidated_witness:
  "let params = JObj [(''name'', JStr ''com.echo:echo''), (''arguments'', JNull)];
       E = \<lparr>validator_for = (\<lambda>_. Err ''no''), run_validator = (\<lambda>_ _. Err [])\<rparr>
   in handle_message (sample_env\<lparr>schema_engine := E\<rparr>) (Request (IdInteger 1) METHOD_TOOLS_CALL (Some params))
        enforcer_permissive None sample_router =
      handle_message sample_env (Request (IdInteger 1) METHOD_TOOLS_CALL (Some params))
        enforcer_permissive None sample_router"
  unfolding Let_def by (rule null_arguments_unvalidated) simp


section \<open>Answers\<close>

text \<open>A sequence of steps answers if the first does and the rest does wherever the first
  succeeds.\<close>

lemma bind_answers:
  "\<lbrakk>m s \<noteq> None; \<And>a s1. m s = Some (Ok a, s1) \<Longrightarrow> f a s1 \<noteq> None\<rbrakk> \<Longrightarrow> step_bind m f s \<noteq> None"
  by (auto simp: step_bind_def split: option.splits prod.splits result.splits)

lemma if_answers: "f s \<noteq> None \<Longrightarrow> g s \<noteq> None \<Longrightarrow> (if b then f else g) s \<noteq> None"
  by simp

lemma proxy_forward_answers: "max_concurrent (proxy s) \<noteq> 0 \<Longrightarrow> proxy_forward V srv m s \<noteq> None"
  by (simp add: proxy_forward_def forward_request_def case_prod_beta)

lemma schema_stage_answers:
  "schema_key (env_codec V) (t_input_schema (rt_tool t)) \<noteq> None \<Longrightarrow> schema_stage V t args s \<noteq> None"
  by (auto simp: schema_stage_def validate_def split: option.splits prod.splits result.splits)

lemma stages_answer:
  "step_lift r s \<noteq> None" "find_tool tool s \<noteq> None" "ecpa_stage tool args s \<noteq> None"
  "session_stage V tool args sid s \<noteq> None" "cedar_stage V e method params s \<noteq> None"
  "method_stage e method s \<noteq> None"
  "handle_initialize V i params s \<noteq> None" "handle_tools_list V i s \<noteq> None"
  by (auto simp: step_lift_def find_tool_def ecpa_stage_def session_stage_def cedar_stage_def
      method_stage_def handle_initialize_def handle_tools_list_def Let_def
      split: option.splits result.splits access_check_result.splits)

lemma lookup_any_lookup: "lookup_any r name = Ok (Some t) \<Longrightarrow> lookup r name = Some t"
  by (auto simp: lookup_any_def split: if_splits option.splits)

lemma tools_call_answers:
  assumes slots: "max_concurrent (proxy s) \<noteq> 0"
    and keys: "\<And>q t. lookup (registry s) q = Some t \<Longrightarrow>
      schema_key (env_codec V) (t_input_schema (rt_tool t)) \<noteq> None"
  shows "handle_tools_call V i params e sid s \<noteq> None"
  unfolding handle_tools_call_def Let_def
proof (intro bind_answers stages_answer)
  fix tool s1 u s2 t s3
  assume s: "step_lift (ok_or NAME_REQUIRED (Option.bind (jget (call_params params) ''name'') as_str)) s =
      Some (Ok tool, s1)" "step_lift (check_tool_access e tool) s1 = Some (Ok u, s2)"
    and f: "find_tool tool s2 = Some (Ok t, s3)"
  then have s3: "s3 = s" "lookup (registry s) tool = Some t"
    using find_tool_quiet [OF f] by (auto dest: lookup_any_lookup)
  let ?args = "call_arguments (call_params params)"
  show "schema_stage V t ?args s3 \<noteq> None"
    by (rule schema_stage_answers) (rule keys [OF s3(2)])
  fix u4 s4 u5 s5 u6 s6
  assume r: "schema_stage V t ?args s3 = Some (Ok u4, s4)" "ecpa_stage tool ?args s4 = Some (Ok u5, s5)"
    "session_stage V tool ?args sid s5 = Some (Ok u6, s6)"
  have "quiet s s6"
    using schema_stage_quiet [OF r(1)] ecpa_stage_quiet [OF r(2)] session_stage_quiet [OF r(3)]
    by (auto simp: s3(1) intro: quiet_trans)
  then have "max_concurrent (proxy s6) \<noteq> 0" using slots by (simp add: quiet_def)
  then show "forward_stage V i tool (server_id t) (call_params params) s6 \<noteq> None"
    unfolding forward_stage_def by (intro bind_answers proxy_forward_answers) simp_all
qed

text \<open>C9: Every message is answered, with a message or an error: nothing in the pipeline blocks or
  panics as long as the proxy has a slot and, for each registered tool, the text of its schema can
  be cut at byte 1024. Handling a message changes neither the slots nor the tools, so this goes on.\<close>

theorem every_message_answered:
  assumes "max_concurrent (proxy s) \<noteq> 0"
    and "\<And>q t. lookup (registry s) q = Some t \<Longrightarrow>
      schema_key (env_codec V) (t_input_schema (rt_tool t)) \<noteq> None"
  shows "\<exists>res s'. handle_message V m e sid s = Some (res, s') \<and>
           registry s' = registry s \<and> max_concurrent (proxy s') = max_concurrent (proxy s)"
proof -
  have "core V (leaf m) e sid s \<noteq> None"
  proof (cases "leaf m")
    case (Request i meth ps)
    have up: "proxy_to_upstream V i meth ps s1 \<noteq> None" if "quiet s s1" for s1
      using that assms(1) unfolding quiet_def proxy_to_upstream_def
      by (cases "default_server_id (server_order V) (proxy s1)")
        (simp_all add: proxy_forward_answers del: not_None_eq)
    have "dispatch V i meth ps e sid s1 \<noteq> None" if q: "quiet s s1" for s1
    proof -
      have "handle_tools_call V i ps e sid s1 \<noteq> None"
        by (rule tools_call_answers) (use q assms in \<open>auto simp: quiet_def\<close>)
      with up [OF q] show ?thesis
        unfolding dispatch_def by (intro if_answers stages_answer)
    qed
    then have "handle_request V i meth ps e sid s \<noteq> None"
      unfolding handle_request_def method_stage_def
      by (intro if_answers bind_answers stages_answer) (auto dest!: cedar_stage_quiet)
    with Request show ?thesis by simp
  qed (simp_all add: stages_answer)
  then obtain res s1 where c: "core V (leaf m) e sid s = Some (res, s1)" by auto
  then show ?thesis
    using core_unaudited [OF c]
    by (auto simp: handle_message_core and_finish_def unaudited_def)
qed

lemma sample_tools:
  "tools sample_registry =
     [(''com.echo:echo'', \<lparr>qualified_name = ''com.echo:echo'', rt_prefix = ''com.echo'',
         rt_name = ''echo'', rt_tool = echo_tool, server_id = ''echo'', registered_at = 0\<rparr>)]"
  by code_simp

lemma every_message_answered_witness:
  "\<exists>res s'. handle_message sample_env (Batch [echo_call_message]) enforcer_permissive None sample_router =
     Some (res, s') \<and> registry s' = registry sample_router \<and>
     max_concurrent (proxy s') = max_concurrent (proxy sample_router)"
proof (rule every_message_answered)
  show "max_concurrent (proxy sample_router) \<noteq> 0" by (simp add: sample_defs)
  fix q t
  assume "lookup (registry sample_router) q = Some t"
  then have "rt_tool t = echo_tool"
    by (auto simp: sample_router_def with_guardrails_def lookup_def sample_tools hm_get_def
        split: if_splits)
  moreover have "schema_key (env_codec sample_env) (t_input_schema echo_tool) \<noteq> None"
    by code_simp
  ultimately show "schema_key (env_codec sample_env) (t_input_schema (rt_tool t)) \<noteq> None" by simp
qed

section \<open>Session locks\<close>

text \<open>A step keeps a property of the state and fails only with errors of a kind; sequences of such
  steps do too.\<close>

definition keeps :: "('s \<Rightarrow> bool) \<Rightarrow> (mcp_error \<Rightarrow> bool) \<Rightarrow> ('s, 'a) step \<Rightarrow> bool" where
  "keeps P Q m \<longleftrightarrow>
     (\<forall>s res s'. P s \<longrightarrow> m s = Some (res, s') \<longrightarrow> P s' \<and> (\<forall>x. res = Err x \<longrightarrow> Q x))"

lemma keeps_bind: "keeps P Q m \<Longrightarrow> (\<And>a. keeps P Q (f a)) \<Longrightarrow> keeps P Q (step_bind m f)"
  unfolding keeps_def by (blast elim: step_bindE)

lemma keeps_lift: "(\<And>x. r = Err x \<Longrightarrow> Q x) \<Longrightarrow> keeps P Q (step_lift r)"
  by (auto simp: keeps_def)

lemma keepsI:
  "(\<And>s res s'. P s \<Longrightarrow> m s = Some (res, s') \<Longrightarrow> P s' \<and> (\<forall>x. res = Err x \<longrightarrow> Q x)) \<Longrightarrow> keeps P Q m"
  by (simp add: keeps_def)

fun not_locked :: "mcp_error \<Rightarrow> bool" where
  "not_locked (SessionLocked _) = False"
| "not_locked _ = True"

abbreviation no_sessions :: "'v router \<Rightarrow> bool" where
  "no_sessions s \<equiv> sessions s = Some []"

lemma upstream_not_locked: "upstream_error x \<Longrightarrow> not_locked x"
  by (cases x) auto

lemma keeps_forward: "keeps no_sessions not_locked (proxy_forward V srv m)"
proof (rule keepsI)
  fix s res s'
  assume "no_sessions s" and R: "proxy_forward V srv m s = Some (res, s')"
  then show "no_sessions s' \<and> (\<forall>x. res = Err x \<longrightarrow> not_locked x)"
    using proxy_forward_cases(1) [OF R] proxy_forward_cases(3) [OF R] upstream_not_locked
    by (simp add: forwarded_def)
qed

lemma keeps_tools_call: "keeps no_sessions not_locked (handle_tools_call V i params e sid)"
proof -
  have "keeps no_sessions not_locked (find_tool tool)" for tool
    by (rule keepsI) (auto dest!: find_tool_quiet)
  moreover have "keeps no_sessions not_locked (schema_stage V t args)" for t args
    by (rule keepsI) (auto dest: schema_stage_quiet schema_stage_Err)
  moreover have "keeps no_sessions not_locked (ecpa_stage tool args)" for tool args
    by (rule keepsI) (auto dest!: ecpa_stage_quiet)
  moreover have "keeps no_sessions not_locked (session_stage V tool args sid)" for tool args
    by (rule keepsI)
      (auto simp: session_stage_def mem.check_empty log_tool_call_def split: option.splits)
  moreover have "keeps no_sessions not_locked (forward_stage V i tool srv p)" for tool srv p
  proof (rule keepsI)
    fix s res s'
    assume "no_sessions s" and R: "forward_stage V i tool srv p s = Some (res, s')"
    then show "no_sessions s' \<and> (\<forall>x. res = Err x \<longrightarrow> not_locked x)"
      using forward_stage_cases(1) [OF R] forward_stage_cases(2) [OF R] upstream_not_locked
      by (simp add: forwarded_def)
  qed
  moreover have "keeps no_sessions not_locked (step_lift (check_tool_access e tool))" for tool
    by (rule keeps_lift) (auto dest: check_tool_access_error)
  moreover have "keeps no_sessions not_locked (step_lift (ok_or NAME_REQUIRED y))" for y :: "string option"
    by (rule keeps_lift) (auto simp: NAME_REQUIRED_def)
  ultimately show ?thesis
    unfolding handle_tools_call_def Let_def by (intro keeps_bind)
qed

lemma keeps_core: "keeps no_sessions not_locked (core V m e sid)"
proof (cases m)
  case (Request i meth ps)
  have up: "keeps no_sessions not_locked (proxy_to_upstream V i meth ps)"
  proof (rule keepsI)
    fix s res s'
    assume "no_sessions s" and R: "proxy_to_upstream V i meth ps s = Some (res, s')"
    from R show "no_sessions s' \<and> (\<forall>x. res = Err x \<longrightarrow> not_locked x)"
    proof (cases rule: proxy_to_upstream_cases)
      case none
      then show ?thesis using \<open>no_sessions s\<close> by (simp add: NO_UPSTREAM_def)
    next
      case (forwarded srv)
      then show ?thesis
        using keeps_forward [unfolded keeps_def, rule_format, OF \<open>no_sessions s\<close>] by blast
    qed
  qed
  have disp: "keeps no_sessions not_locked (dispatch V i meth ps e sid)"
  proof (rule keepsI)
    fix s res s'
    assume P: "no_sessions s" and "dispatch V i meth ps e sid s = Some (res, s')"
    from this(2) show "no_sessions s' \<and> (\<forall>x. res = Err x \<longrightarrow> not_locked x)"
    proof (cases rule: dispatch_cases)
      case answered
      then show ?thesis using P by fastforce
    next
      case call
      then show ?thesis using keeps_tools_call [unfolded keeps_def, rule_format, OF P] by blast
    next
      case upstream
      then show ?thesis using up [unfolded keeps_def, rule_format, OF P] by blast
    qed
  qed
  show ?thesis
    unfolding Request core.simps
  proof (rule keepsI)
    fix s res s'
    assume P: "no_sessions s" and "handle_request V i meth ps e sid s = Some (res, s')"
    from this(2) show "no_sessions s' \<and> (\<forall>x. res = Err x \<longrightarrow> not_locked x)"
    proof (cases rule: request_cases)
      case (denied x)
      then show ?thesis using P check_method_error [OF denied(2)] by auto
    next
      case dispatched
      then show ?thesis using disp [unfolded keeps_def, rule_format, OF P] by blast
    qed (use P in auto)
  qed
qed (auto intro!: keeps_lift simp: handle_notification_def RESPONSE_RECEIVED_def EMPTY_BATCH_def)

text \<open>A gateway that handles messages one after another, each in its own environment. A message
  without an answer leaves the state as it was.\<close>

definition gateway_step ::
  "'v env \<times> message \<times> scope_enforcer \<times> string option \<Rightarrow> 'v router \<Rightarrow> 'v router" where
  "gateway_step x s =
    (case x of (V, m, e, sid) \<Rightarrow>
       (case handle_message V m e sid s of Some (_, s') \<Rightarrow> s' | None \<Rightarrow> s))"

lemma no_sessions_message:
  assumes "no_sessions s" "handle_message V m e sid s = Some (res, s')"
  shows "no_sessions s' \<and> (\<forall>x. res = Err x \<longrightarrow> not_locked x)"
proof -
  obtain s1 where "core V (leaf m) e sid s = Some (res, s1)" "s' = finish V (leaf m) e sid res s1"
    using assms(2) [unfolded handle_message_Some] by auto
  then show ?thesis
    using keeps_core [unfolded keeps_def, rule_format, OF assms(1)] by (metis finish_simps(2))
qed

lemma no_sessions_step: "no_sessions s \<Longrightarrow> no_sessions (gateway_step x s)"
proof -
  assume P: "no_sessions s"
  obtain V m e sid where x: "x = (V, m, e, sid)" by (cases x) auto
  show ?thesis
  proof (cases "handle_message V m e sid s")
    case (Some y)
    obtain res s' where "y = (res, s')" by force
    with Some no_sessions_message [OF P] show ?thesis by (simp add: gateway_step_def x)
  qed (simp add: gateway_step_def x P)
qed

lemma no_sessions_run: "no_sessions s \<Longrightarrow> no_sessions (run gateway_step xs s)"
  by (induction xs arbitrary: s) (auto simp: no_sessions_step)

text \<open>Handling messages never creates or locks a session. A gateway that starts with an empty
  session manager, as the program's entry point does, keeps it empty for ever, and no message,
  whatever its session identifier, is refused because of a session lock.\<close>

theorem session_lock_never_engages:
  assumes "sessions s = Some []"
    and "handle_message V m e sid (run gateway_step xs s) = Some (res, s')"
  shows "sessions s' = Some [] \<and> (\<forall>t. res \<noteq> Err (SessionLocked t))"
  using no_sessions_message [OF no_sessions_run [OF assms(1)] assms(2)] by auto

lemma session_lock_never_engages_witness:
  "\<exists>res s'. handle_message sample_env echo_call_message enforcer_permissive (Some ''stdio'')
       (run gateway_step [(sample_env, echo_call_message, enforcer_permissive, Some ''stdio'')] sample_router) =
       Some (res, s') \<and> sessions s' = Some []"
proof -
  have "handle_message sample_env echo_call_message enforcer_permissive (Some ''stdio'')
       (run gateway_step [(sample_env, echo_call_message, enforcer_permissive, Some ''stdio'')] sample_router)
     \<noteq> None"
    by code_simp
  then obtain res s' where R: "handle_message sample_env echo_call_message enforcer_permissive (Some ''stdio'')
       (run gateway_step [(sample_env, echo_call_message, enforcer_permissive, Some ''stdio'')] sample_router) =
       Some (res, s')"
    by auto
  have "sessions sample_router = Some []" by (simp add: sample_defs)
  from session_lock_never_engages [OF this R] R show ?thesis by blast
qed

section \<open>Egress\<close>

text \<open>C27: When a tool's result has a non-empty array \<open>content\<close>, the client gets the result with
  that array replaced by the inspector's sanitised blocks and every other member (such as
  \<open>structuredContent\<close>) as the upstream sent it, uninspected.\<close>

theorem egress_sanitizes_content:
  assumes "jget v ''content'' = Some (JArr xs)" "xs \<noteq> []"
    and "sanitize_response E insp \<lparr>ins_tool_name = tool, ins_content = xs, ins_server_id = srv\<rparr> = Ok r"
  shows "\<exists>v'. egress_filter (Some (sanitize_response E insp)) tool srv (Success i v) = Success i v' \<and>
           jget v' ''content'' = Some (JArr (sanitized_content r)) \<and>
           (\<forall>k. k \<noteq> ''content'' \<longrightarrow> jget v' k = jget v k)"
proof (cases "modified r")
  case True
  then show ?thesis
    using assms by (simp add: egress_filter_def egress_content_def jget_jreplace)
next
  case False
  then have "sanitized_content r = xs"
    using egress.unmodified [OF assms(3)] by simp
  then show ?thesis
    using False assms by (simp add: egress_filter_def egress_content_def)
qed

lemma egress_sanitizes_content_witness:
  "\<exists>v'. egress_filter (Some (sanitize_response evil_regex StubInspector)) ''t'' ''s''
         (Success (IdInteger 1) (text_content ''x'')) = Success (IdInteger 1) v'"
proof -
  have "jget (text_content ''x'') ''content'' =
      Some (JArr [JObj [(''type'', JStr ''text''), (''text'', JStr ''x'')]])"
    by (simp add: text_content_def)
  moreover obtain r where "sanitize_response evil_regex StubInspector
      \<lparr>ins_tool_name = ''t'', ins_content = [JObj [(''type'', JStr ''text''), (''text'', JStr ''x'')]],
       ins_server_id = ''s''\<rparr> = Ok r"
    using egress.total by blast
  ultimately show ?thesis
    using egress_sanitizes_content by blast
qed

text \<open>An upstream's answer that is not a success with a member \<open>content\<close> reaches the client
  as it came, whatever the inspector finds: error responses are not inspected at all, and the
  sanitised form of any other result is dropped.\<close>

theorem egress_gap:
  assumes "\<nexists>i v. m = Success i v \<and> jget v ''content'' \<noteq> None"
  shows "egress_filter inspector tool srv m = m"
  using assms
  by (cases m) (auto simp: egress_filter_def egress_content_def jreplace_def split: option.splits result.splits)

lemma egress_gap_witness:
  "let m = Success (IdInteger 1) (JObj [(''text'', JStr ''evil'')]) in
   egress_filter (Some (sanitize_response evil_regex (PatternInspector evil_inspector))) ''t'' ''s'' m = m"
  unfolding Let_def by (rule egress_gap) simp

end
