(* ===== verification/Transports.thy ===== *)
theory Transports
  imports Pipeline
begin

text \<open>
  \<open>src/transport/stdio.rs\<close>, a loop over the lines of standard input, and
  \<open>src/transport/streamable_http.rs\<close>, a handler per HTTP request with a table of sessions, with what
  they share with the third transport (theory \<open>Sse\<close>). What a read gives, the environment of each
  message, new identifiers and the clock are arguments. A handler that gives no answer (\<open>None\<close>) is
  one whose router call gave none.
\<close>

section \<open>Shared\<close>

definition NOTIFICATION_WORD :: string where "NOTIFICATION_WORD = ''notification''"

text \<open>The test all three transports use to decide that an error needs no answer.\<close>

definition suppressed :: "mcp_error \<Rightarrow> bool" where
  "suppressed e = str_contains (error_text e) NOTIFICATION_WORD"

definition null_error :: "mcp_error \<Rightarrow> message" where
  "null_error e = Error IdNull (error_obj_new (error_code e) (error_text e))"

text \<open>\<open>str::from_utf8\<close>: well-formed UTF-8, from the ranges of the Unicode standard.\<close>

definition in_range :: "nat \<Rightarrow> nat \<Rightarrow> char \<Rightarrow> bool" where
  "in_range lo hi c = (lo \<le> of_char c \<and> of_char c \<le> hi)"

fun utf8_valid :: "string \<Rightarrow> bool" where
  "utf8_valid [] = True"
| "utf8_valid (c # s) =
    (if in_range 0 0x7F c then utf8_valid s
     else
       (case s of
          [] \<Rightarrow> False
        | c1 # s1 \<Rightarrow>
            if in_range 0xC2 0xDF c then utf8_cont c1 \<and> utf8_valid s1
            else
              (case s1 of
                 [] \<Rightarrow> False
               | c2 # s2 \<Rightarrow>
                   if in_range 0xE0 0xE0 c then in_range 0xA0 0xBF c1 \<and> utf8_cont c2 \<and> utf8_valid s2
                   else if in_range 0xED 0xED c then in_range 0x80 0x9F c1 \<and> utf8_cont c2 \<and> utf8_valid s2
                   else if in_range 0xE1 0xEF c then utf8_cont c1 \<and> utf8_cont c2 \<and> utf8_valid s2
                   else
                     (case s2 of
                        [] \<Rightarrow> False
                      | c3 # s3 \<Rightarrow>
                          (if in_range 0xF0 0xF0 c then in_range 0x90 0xBF c1
                           else if in_range 0xF4 0xF4 c then in_range 0x80 0x8F c1
                           else in_range 0xF1 0xF3 c \<and> utf8_cont c1) \<and>
                          utf8_cont c2 \<and> utf8_cont c3 \<and> utf8_valid s3))))"

section \<open>Standard input and output\<close>

text \<open>
  What standard output has accepted, and what the next \<open>write_all\<close> and \<open>flush\<close> will do: \<open>None\<close> is
  success; a failing write has let some bytes of its buffer out, and says why it failed.
\<close>

record stdout =
  bytes_out :: string
  write_fault :: "string \<Rightarrow> string \<Rightarrow> (nat \<times> string) option"
  flush_fault :: "string \<Rightarrow> string option"

definition write_all :: "string \<Rightarrow> stdout \<Rightarrow> (unit, string) result \<times> stdout" where
  "write_all buf out =
    (case write_fault out (bytes_out out) buf of
       None \<Rightarrow> (Ok (), out\<lparr>bytes_out := bytes_out out @ buf\<rparr>)
     | Some (n, x) \<Rightarrow> (Err x, out\<lparr>bytes_out := bytes_out out @ take n buf\<rparr>))"

definition flush_stdout :: "stdout \<Rightarrow> (unit, string) result" where
  "flush_stdout out = (case flush_fault out (bytes_out out) of None \<Rightarrow> Ok () | Some x \<Rightarrow> Err x)"

definition write_message :: "json_codec \<Rightarrow> message \<Rightarrow> stdout \<Rightarrow> (unit, mcp_error) result \<times> stdout" where
  "write_message C m out =
    (case write_all (to_json_string C m) out of
       (Err x, out1) \<Rightarrow> (Err (TransportError (fmt [''Failed to write stdout: '', x])), out1)
     | (Ok _, out1) \<Rightarrow>
         (case write_all [CHR 0x0A] out1 of
            (Err x, out2) \<Rightarrow> (Err (TransportError (fmt [''Failed to write newline: '', x])), out2)
          | (Ok _, out2) \<Rightarrow>
              (case flush_stdout out2 of
                 Err x \<Rightarrow> (Err (TransportError (fmt [''Failed to flush stdout: '', x])), out2)
               | Ok _ \<Rightarrow> (Ok (), out2))))"

definition STDIO :: string where "STDIO = ''stdio''"

text \<open>One line: the reply to write, if any, and the router afterwards.\<close>

definition stdio_line ::
  "'v env \<Rightarrow> scope_enforcer \<Rightarrow> string \<Rightarrow> 'v router \<Rightarrow> (message option \<times> 'v router) option" where
  "stdio_line V e line s =
    (if trim line = [] then Some (None, s)
     else
       (case from_str (env_codec V) (pe_serde (proxy_env V)) (trim line) of
          Err x \<Rightarrow> Some (Some parse_error_response, s)
        | Ok m \<Rightarrow>
            (case handle_message V m e (Some STDIO) s of
               None \<Rightarrow> None
             | Some (Ok r, s') \<Rightarrow> Some (Some r, s')
             | Some (Err x, s') \<Rightarrow> Some (if suppressed x then None else Some (null_error x), s'))))"

text \<open>The loop: an empty read is the end of the input.\<close>

fun stdio_run ::
  "scope_enforcer \<Rightarrow> ('v env \<times> (string, string) result) list \<Rightarrow> stdout \<Rightarrow> 'v router \<Rightarrow>
     ((unit, mcp_error) result \<times> stdout \<times> 'v router) option" where
  "stdio_run e [] out s = Some (Ok (), out, s)"
| "stdio_run e ((V, Err x) # reads) out s =
     Some (Err (TransportError (fmt [''Failed to read stdin: '', x])), out, s)"
| "stdio_run e ((V, Ok line) # reads) out s =
    (if line = [] then Some (Ok (), out, s)
     else
       (case stdio_line V e line s of
          None \<Rightarrow> None
        | Some (None, s') \<Rightarrow> stdio_run e reads out s'
        | Some (Some r, s') \<Rightarrow>
            (case write_message (env_codec V) r out of
               (Err x, out') \<Rightarrow> Some (Err x, out', s')
             | (Ok _, out') \<Rightarrow> stdio_run e reads out' s')))"

section \<open>Streamable HTTP\<close>

record session_state =
  ss_created_at :: int
  ss_last_activity :: int
  ss_initialized :: bool

record 'v http_state =
  h_router :: "'v router"
  h_sessions :: "session_state hmap"
  h_enforcer :: scope_enforcer

definition http_new :: "'v router \<Rightarrow> scope_enforcer \<Rightarrow> 'v http_state" where
  "http_new s e = \<lparr>h_router = s, h_sessions = [], h_enforcer = e\<rparr>"

datatype http_body = JsonBody json | EmptyBody

record http_response =
  status :: nat
  session_header :: "string option"
  body :: http_body

definition plain_response :: "nat \<Rightarrow> http_body \<Rightarrow> http_response" where
  "plain_response st b = \<lparr>status = st, session_header = None, body = b\<rparr>"

definition jsonrpc_error_response :: "i64 \<Rightarrow> string \<Rightarrow> http_response" where
  "jsonrpc_error_response code msg =
     plain_response 200 (JsonBody (JObj
       [(''jsonrpc'', JStr ''2.0''), (''id'', JNull),
        (''error'', JObj [(''code'', of_i64 code), (''message'', JStr msg)])]))"

definition http_parse_error_response :: "string \<Rightarrow> http_response" where
  "http_parse_error_response msg =
     plain_response 200 (JsonBody (JObj
       [(''jsonrpc'', JStr ''2.0''), (''id'', JNull),
        (''error'', JObj [(''code'', of_i64 (- 32700)), (''message'', JStr msg)])]))"

definition http_error_response :: "nat \<Rightarrow> string \<Rightarrow> http_response" where
  "http_error_response st msg = plain_response st (JsonBody (JObj [(''error'', JStr msg)]))"

definition UNKNOWN_SESSION :: http_response where
  "UNKNOWN_SESSION =
     plain_response 404 (JsonBody (JObj
       [(''jsonrpc'', JStr ''2.0''),
        (''error'', JObj [(''code'', of_i64 (- 32000)), (''message'', JStr ''Unknown or expired session'')])]))"

definition is_initialize :: "message \<Rightarrow> bool" where
  "is_initialize m = (msg_method m = Some METHOD_INITIALIZE)"

text \<open>After a routed message that was answered: \<open>initialize\<close> opens a session, any other message
  marks its session as active and initialized.\<close>

definition answer_http ::
  "string \<Rightarrow> int \<Rightarrow> message \<Rightarrow> string option \<Rightarrow> message \<Rightarrow> 'v http_state \<Rightarrow> http_response \<times> 'v http_state" where
  "answer_http new_id now m sid r h =
    (let response = plain_response 200 (JsonBody (to_value r)) in
     if is_initialize m then
       (response\<lparr>session_header := Some new_id\<rparr>,
        h\<lparr>h_sessions := hm_insert new_id
            \<lparr>ss_created_at = now, ss_last_activity = now, ss_initialized = False\<rparr> (h_sessions h)\<rparr>)
     else
       (case sid of
          None \<Rightarrow> (response, h)
        | Some i \<Rightarrow>
            (case hm_get (h_sessions h) i of
               None \<Rightarrow> (response, h)
             | Some st \<Rightarrow>
                 (response, h\<lparr>h_sessions := hm_insert i
                    (st\<lparr>ss_last_activity := now, ss_initialized := True\<rparr>) (h_sessions h)\<rparr>))))"

text \<open>\<open>sid\<close> is the session header, when it is there and readable.\<close>

definition handle_mcp_post ::
  "'v env \<Rightarrow> string \<Rightarrow> int \<Rightarrow> string option \<Rightarrow> string \<Rightarrow> 'v http_state \<Rightarrow>
     (http_response \<times> 'v http_state) option" where
  "handle_mcp_post V new_id now sid bytes h =
    (if \<not> utf8_valid bytes then Some (http_error_response 400 ''Invalid UTF-8 in request body'', h)
     else
       (case from_text (env_codec V) bytes of
          Err x \<Rightarrow> Some (http_parse_error_response (fmt [''Invalid JSON: '', x]), h)
        | Ok raw \<Rightarrow>
            (case parse (pe_serde (proxy_env V)) raw of
               Err x \<Rightarrow> Some (jsonrpc_error_response (error_code x) (error_text x), h)
             | Ok m \<Rightarrow>
                 if case sid of Some i \<Rightarrow> \<not> hm_contains (h_sessions h) i | None \<Rightarrow> False
                 then Some (UNKNOWN_SESSION, h)
                 else
                   (case handle_message V m (h_enforcer h) sid (h_router h) of
                      None \<Rightarrow> None
                    | Some (Err x, s') \<Rightarrow>
                        Some (if suppressed x then plain_response 202 EmptyBody
                              else jsonrpc_error_response (error_code x) (error_text x),
                              h\<lparr>h_router := s'\<rparr>)
                    | Some (Ok r, s') \<Rightarrow> Some (answer_http new_id now m sid r (h\<lparr>h_router := s'\<rparr>))))))"

definition handle_mcp_delete :: "string option \<Rightarrow> 'v http_state \<Rightarrow> http_response \<times> 'v http_state" where
  "handle_mcp_delete sid h =
    (case sid of
       Some i \<Rightarrow>
         if hm_contains (h_sessions h) i
         then (plain_response 200 (JsonBody (JObj [(''status'', JStr ''terminated'')])),
               h\<lparr>h_sessions := hm_remove i (h_sessions h)\<rparr>)
         else (http_error_response 404 ''Session not found'', h)
     | None \<Rightarrow> (http_error_response 404 ''Session not found'', h))"

section \<open>When an error is suppressed\<close>

lemma str_contains_quoted: "str_contains s w \<Longrightarrow> str_contains (quoted s) w"
  unfolding quoted_def by (rule fmt_contains [of s]) simp_all

lemma notification_suppressed:
  "suppressed (case handle_notification method of Err x \<Rightarrow> x | Ok _ \<Rightarrow> y) \<longleftrightarrow>
     method = METHOD_INITIALIZED \<or> method = METHOD_EXITED"
proof -
  have "suppressed (InvalidRequest INITIALIZED_NO_RESPONSE)"
    by code_simp
  moreover have "suppressed (InvalidRequest EXITED_NO_RESPONSE)"
    by code_simp
  moreover have "\<not> suppressed (InvalidRequest NO_RESPONSE)"
    by code_simp
  ultimately show ?thesis
    unfolding handle_notification_def result.case by (cases "method = METHOD_INITIALIZED"; cases "method = METHOD_EXITED") simp_all
qed

lemma handle_notification_Err: "\<exists>x. handle_notification method = Err x"
  by (simp add: handle_notification_def)

lemma tool_not_found_suppressed:
  assumes "str_contains tool NOTIFICATION_WORD"
  shows "suppressed (tool_not_found tool)"
proof -
  have "str_contains (fmt [''Tool '', quoted tool, '' not found in registry'']) NOTIFICATION_WORD"
    by (rule fmt_contains [OF _ str_contains_quoted [OF assms]]) (simp only: list.set insert_iff simp_thms)
  then show ?thesis
    unfolding suppressed_def tool_not_found_def error_text.simps
    by (rule fmt_contains [rotated]) (simp only: list.set insert_iff simp_thms)
qed

section \<open>Properties\<close>

text \<open>A notification over HTTP is acknowledged with an empty 202 only when it is
  \<open>notifications/initialized\<close> or \<open>notifications/exited\<close>; every other notification is answered
  with a JSON-RPC error, because the test looks for a lower-case word. And no notification ever
  marks its session as initialized.\<close>

theorem http_notification_answers:
  assumes "utf8_valid bytes" "from_text (env_codec V) bytes = Ok raw"
    and "parse (pe_serde (proxy_env V)) raw = Ok (Notification method params)"
    and "\<forall>i. sid = Some i \<longrightarrow> hm_contains (h_sessions h) i"
  shows "\<exists>resp h'. handle_mcp_post V new_id now sid bytes h = Some (resp, h') \<and>
           h_sessions h' = h_sessions h \<and>
           (if method = METHOD_INITIALIZED \<or> method = METHOD_EXITED
            then resp = plain_response 202 EmptyBody
            else \<exists>msg. resp = jsonrpc_error_response INVALID_REQUEST msg)"
proof -
  obtain x where x: "handle_notification method = Err x"
    using handle_notification_Err by blast
  have code: "error_code x = INVALID_REQUEST"
    using x by (auto simp: handle_notification_def)
  have sup: "suppressed x \<longleftrightarrow> method = METHOD_INITIALIZED \<or> method = METHOD_EXITED"
    using notification_suppressed [of _ "method"] x by simp
  obtain s' where "handle_message V (Notification method params) (h_enforcer h) sid (h_router h) = Some (Err x, s')"
    using x by (simp add: and_finish_def step_lift_def)
  moreover have "\<not> (case sid of Some i \<Rightarrow> \<not> hm_contains (h_sessions h) i | None \<Rightarrow> False)"
    using assms(4) by (cases sid) simp_all
  ultimately have "handle_mcp_post V new_id now sid bytes h =
      Some (if suppressed x then plain_response 202 EmptyBody
            else jsonrpc_error_response (error_code x) (error_text x), h\<lparr>h_router := s'\<rparr>)"
    using assms(1-3) unfolding handle_mcp_post_def
    by (simp only: if_False result.case option.case prod.case not_True_eq_False)
  then show ?thesis
    using sup code by auto
qed

lemma sample_from_text: "from_text sample_codec (put_json v) = Ok v"
  using sample_codec_roundtrip [of v] by (simp only: sample_codec_def json_codec.simps)

definition sample_http :: "string http_state" where
  "sample_http = \<lparr>h_router = sample_router, h_sessions = [], h_enforcer = enforcer_permissive\<rparr>"

lemma http_notification_answers_witness:
  "\<exists>bytes resp h'. handle_mcp_post sample_env ''n'' 0 None bytes sample_http = Some (resp, h') \<and> status resp = 200"
proof -
  let ?m = "Notification METHOD_TOOLS_LIST_CHANGED None"
  let ?bytes = "put_json (to_value ?m)"
  have "utf8_valid ?bytes" by code_simp
  moreover have "from_text (env_codec sample_env) ?bytes = Ok (to_value ?m)"
    by (simp only: env_codec_def sample_env_def env.simps proxy_env.simps sample_from_text)
  moreover have "parse (pe_serde (proxy_env sample_env)) (to_value ?m) = Ok ?m"
    by (rule parse_to_value) (simp add: wf_message_def)
  ultimately obtain resp h' where R: "handle_mcp_post sample_env ''n'' 0 None ?bytes sample_http = Some (resp, h') \<and>
      h_sessions h' = h_sessions sample_http \<and>
      (if METHOD_TOOLS_LIST_CHANGED = METHOD_INITIALIZED \<or> METHOD_TOOLS_LIST_CHANGED = METHOD_EXITED
       then resp = plain_response 202 EmptyBody
       else \<exists>msg. resp = jsonrpc_error_response INVALID_REQUEST msg)"
    using http_notification_answers [of ?bytes sample_env "to_value ?m" METHOD_TOOLS_LIST_CHANGED None None
        sample_http "''n''" 0] by fastforce
  have "METHOD_TOOLS_LIST_CHANGED \<noteq> METHOD_INITIALIZED" "METHOD_TOOLS_LIST_CHANGED \<noteq> METHOD_EXITED"
    by (simp_all add: method_defs)
  with R have "status resp = 200"
    by (auto simp: jsonrpc_error_response_def plain_response_def)
  with R show ?thesis by blast
qed

text \<open>A request can go unanswered: when a permitted call names a tool that is not registered and
  whose name contains the word \<open>notification\<close>, the error text does too, and the loop over
  standard input writes nothing for it.\<close>

theorem request_left_unanswered:
  assumes "from_str (env_codec V) (pe_serde (proxy_env V)) (trim line) =
             Ok (Request i METHOD_TOOLS_CALL (Some params))"
    and "trim line \<noteq> []" "jget params ''name'' = Some (JStr tool)"
    and "str_contains tool NOTIFICATION_WORD" "lookup_any (registry s) tool = Ok None"
    and "check_method e METHOD_TOOLS_CALL = Ok ()" "authorizer s = None"
  shows "\<exists>s'. stdio_line V e line s = Some (None, s') \<and> sent (proxy s') = sent (proxy s)"
proof -
  have known: "known_method METHOD_TOOLS_CALL"
    by (simp add: known_method_def is_valid_method_def VALID_METHODS_def)
  have call: "handle_tools_call V i (Some params) e (Some STDIO) s = Some (Err (tool_not_found tool), s)"
    using assms(3,5) tools_call_implies_access [OF assms(6), of tool]
    by (simp add: handle_tools_call_def call_params_def step_lift_def step_bind_def find_tool_def Let_def)
  have "dispatch V i METHOD_TOOLS_CALL (Some params) e (Some STDIO) =
      handle_tools_call V i (Some params) e (Some STDIO)"
    by (simp add: dispatch_def method_defs)
  with call have "handle_request V i METHOD_TOOLS_CALL (Some params) e (Some STDIO) s =
      Some (Err (tool_not_found tool), s)"
    using known assms(6,7)
    by (simp add: handle_request_def method_stage_def step_bind_def step_lift_def cedar_stage_def)
  then have "handle_message V (Request i METHOD_TOOLS_CALL (Some params)) e (Some STDIO) s =
      Some (Err (tool_not_found tool), finish V (Request i METHOD_TOOLS_CALL (Some params)) e (Some STDIO)
        (Err (tool_not_found tool)) s)"
    by (simp add: and_finish_def)
  then show ?thesis
    using assms(1,2) tool_not_found_suppressed [OF assms(4)]
    unfolding stdio_line_def by (simp only: if_False result.case option.case prod.case if_True) simp
qed

lemma request_left_unanswered_witness:
  "\<exists>line s'. stdio_line sample_env enforcer_permissive line sample_router = Some (None, s') \<and> line \<noteq> []"
proof -
  let ?p = "JObj [(''name'', JStr ''com.a:send_notification'')]"
  let ?m = "Request (IdInteger 1) METHOD_TOOLS_CALL (Some ?p)"
  let ?line = "put_json (to_value ?m)"
  have t: "trim ?line = ?line" by code_simp
  have "from_text sample_codec ?line = Ok (to_value ?m)"
    by (rule sample_from_text)
  moreover have "parse (pe_serde (proxy_env sample_env)) (to_value ?m) = Ok ?m"
    by (rule parse_to_value) (simp add: wf_message_def)
  ultimately have "from_str (env_codec sample_env) (pe_serde (proxy_env sample_env)) (trim ?line) = Ok ?m"
    by (simp only: from_str_def t result.case env_codec_def sample_env_def env.simps proxy_env.simps)
  moreover have "?line \<noteq> []" by code_simp
  moreover have "lookup_any (registry sample_router) ''com.a:send_notification'' = Ok None" by code_simp
  moreover have "str_contains ''com.a:send_notification'' NOTIFICATION_WORD" by code_simp
  moreover have "check_method enforcer_permissive METHOD_TOOLS_CALL = Ok ()"
    by (simp add: check_method_iff enforcer_permissive_def)
  moreover have "authorizer sample_router = None" by (simp add: sample_defs)
  ultimately have "\<exists>s'. stdio_line sample_env enforcer_permissive ?line sample_router = Some (None, s') \<and>
      sent (proxy s') = sent (proxy sample_router)"
    by (intro request_left_unanswered [where params = ?p]) (simp_all only: t jget.simps map_of.simps fst_conv snd_conv if_True HOL.refl fun_upd_same not_False_eq_True)
  with \<open>?line \<noteq> []\<close> show ?thesis by blast
qed

text \<open>What \<open>answer_http\<close> opens, and which posts come as far as the router.\<close>

lemma answer_http_opens:
  "hm_contains (h_sessions (snd (answer_http new_id now m sid r g))) i \<Longrightarrow>
   \<not> hm_contains (h_sessions g) i \<Longrightarrow>
   i = new_id \<and> session_header (fst (answer_http new_id now m sid r g)) = Some new_id \<and> is_initialize m"
  by (auto simp: answer_http_def Let_def hm_contains_def split: if_splits option.splits)

lemma handle_mcp_post_cases [consumes 1, case_names refused failed answered]:
  assumes "handle_mcp_post V new_id now sid bytes h = Some (resp, h')"
  obtains "h' = h"
  | m x s' where "h' = h\<lparr>h_router := s'\<rparr>"
      "handle_message V m (h_enforcer h) sid (h_router h) = Some (Err x, s')"
      "is_ok (from_str (env_codec V) (pe_serde (proxy_env V)) bytes)"
      "\<forall>i. sid = Some i \<longrightarrow> hm_contains (h_sessions h) i"
  | m r s' where "from_str (env_codec V) (pe_serde (proxy_env V)) bytes = Ok m"
      "\<forall>i. sid = Some i \<longrightarrow> hm_contains (h_sessions h) i"
      "answer_http new_id now m sid r (h\<lparr>h_router := s'\<rparr>) = (resp, h')"
      "handle_message V m (h_enforcer h) sid (h_router h) = Some (Ok r, s')"
  using assms
  by (auto simp: handle_mcp_post_def from_str_def split: if_splits result.splits option.splits)

text \<open>C37: A POST that names a session the transport does not know, or that cannot be read, is refused
  without reaching the router or changing any state; and only \<open>initialize\<close> opens a session.\<close>

theorem http_session_gate:
  assumes "handle_mcp_post V new_id now sid bytes h = Some (resp, h')"
  shows "(\<forall>i. sid = Some i \<and> \<not> hm_contains (h_sessions h) i \<longrightarrow> h' = h) \<and>
         (\<not> is_ok (from_str (env_codec V) (pe_serde (proxy_env V)) bytes) \<longrightarrow> h' = h) \<and>
         (\<forall>i. hm_contains (h_sessions h') i \<and> \<not> hm_contains (h_sessions h) i \<longrightarrow>
            i = new_id \<and> session_header resp = Some new_id \<and>
            (\<exists>m. from_str (env_codec V) (pe_serde (proxy_env V)) bytes = Ok m \<and> is_initialize m))"
  using assms
proof (cases rule: handle_mcp_post_cases)
  case (answered m r s')
  then have "resp = fst (answer_http new_id now m sid r (h\<lparr>h_router := s'\<rparr>))"
      "h' = snd (answer_http new_id now m sid r (h\<lparr>h_router := s'\<rparr>))"
    by simp_all
  then show ?thesis
    using answered(1,2) answer_http_opens [of new_id now m sid r "h\<lparr>h_router := s'\<rparr>"] by auto
qed (auto)

lemma http_session_gate_witness:
  "\<exists>resp. handle_mcp_post sample_env ''n'' 0 (Some ''stolen'') ''z'' sample_http = Some (resp, sample_http)"
proof -
  have "handle_mcp_post sample_env ''n'' 0 (Some ''stolen'') ''z'' sample_http \<noteq> None"
    by code_simp
  then obtain resp h' where R: "handle_mcp_post sample_env ''n'' 0 (Some ''stolen'') ''z'' sample_http = Some (resp, h')"
    by auto
  moreover have "h' = sample_http"
    using http_session_gate [OF R] by (simp add: sample_http_def hm_contains_def)
  ultimately show ?thesis by blast
qed

section \<open>The loop over standard input\<close>

text \<open>What the loop has to deal with: the trimmed lines that are not blank, up to the end of the input or
  to the first read that fails.\<close>

type_synonym 'v stdin = "('v env \<times> (string, string) result) list"

definition more :: "'v env \<times> (string, string) result \<Rightarrow> bool" where
  "more rd \<longleftrightarrow> (\<exists>line. snd rd = Ok line \<and> line \<noteq> [])"

definition input_lines :: "'v stdin \<Rightarrow> ('v env \<times> string) list" where
  "input_lines reads =
     [(V, trim line). (V, line) \<leftarrow> [(V, line). (V, Ok line) \<leftarrow> takeWhile more reads], trim line \<noteq> []]"

definition input_result :: "'v stdin \<Rightarrow> (unit, mcp_error) result" where
  "input_result reads =
    (case dropWhile more reads of
       (V, Err x) # _ \<Rightarrow> Err (TransportError (fmt [''Failed to read stdin: '', x]))
     | _ \<Rightarrow> Ok ())"

text \<open>What is owed for one line, and for a list of them: each line that is a message is handled by the
  router, once and in order, and no other line reaches it.\<close>

definition line_reply ::
  "scope_enforcer \<Rightarrow> 'v env \<Rightarrow> string \<Rightarrow> 'v router \<Rightarrow> message option \<Rightarrow> 'v router \<Rightarrow> bool" where
  "line_reply e V l s reply s' \<longleftrightarrow>
    (case from_str (env_codec V) (pe_serde (proxy_env V)) l of
       Err _ \<Rightarrow> reply = Some parse_error_response \<and> s' = s
     | Ok m \<Rightarrow>
         \<exists>res. handle_message V m e (Some ''stdio'') s = Some (res, s') \<and>
           reply = (case res of Ok r \<Rightarrow> Some r | Err x \<Rightarrow> if suppressed x then None else Some (null_error x)))"

fun conversation ::
  "scope_enforcer \<Rightarrow> ('v env \<times> string) list \<Rightarrow> 'v router \<Rightarrow> message option list \<Rightarrow> 'v router \<Rightarrow> bool" where
  "conversation e [] s replies s' \<longleftrightarrow> replies = [] \<and> s' = s"
| "conversation e ((V, l) # ls) s replies s' \<longleftrightarrow>
     (\<exists>r rs s1. replies = r # rs \<and> line_reply e V l s r s1 \<and> conversation e ls s1 rs s')"

text \<open>The output that makes: a line for each reply.\<close>

fun printed :: "('v env \<times> string) list \<Rightarrow> message option list \<Rightarrow> string" where
  "printed ((V, l) # ls) (Some m # rs) = to_json_string (env_codec V) m @ [CHR 0x0A] @ printed ls rs"
| "printed (_ # ls) (None # rs) = printed ls rs"
| "printed _ _ = []"

text \<open>What is out, and what is reported, when one of the three writes of a message fails.\<close>

definition write_breaks ::
  "stdout \<Rightarrow> string \<Rightarrow> string \<Rightarrow> string \<Rightarrow> (unit, mcp_error) result \<Rightarrow> bool" where
  "write_breaks out before text after res \<longleftrightarrow>
    (\<exists>n x. write_fault out before text = Some (n, x) \<and> after = before @ take n text \<and>
       res = Err (TransportError (fmt [''Failed to write stdout: '', x]))) \<or>
    (\<exists>n x. write_fault out before text = None \<and> write_fault out (before @ text) [CHR 0x0A] = Some (n, x) \<and>
       after = before @ text @ take n [CHR 0x0A] \<and>
       res = Err (TransportError (fmt [''Failed to write newline: '', x]))) \<or>
    (\<exists>x. write_fault out before text = None \<and> write_fault out (before @ text) [CHR 0x0A] = None \<and>
       flush_fault out (before @ text @ [CHR 0x0A]) = Some x \<and> after = before @ text @ [CHR 0x0A] \<and>
       res = Err (TransportError (fmt [''Failed to flush stdout: '', x])))"

lemma write_message_cases [consumes 1, case_names broken whole]:
  assumes "write_message C m out = (res, out')"
  obtains "write_breaks out (bytes_out out) (to_json_string C m) (bytes_out out') res" "\<not> is_ok res"
  | "res = Ok ()" "out' = out\<lparr>bytes_out := bytes_out out @ to_json_string C m @ [CHR 0x0A]\<rparr>"
  using assms
  by (auto simp: write_message_def write_all_def flush_stdout_def write_breaks_def split: option.splits)

lemma write_breaks_update [simp]: "write_breaks (out\<lparr>bytes_out := b\<rparr>) = write_breaks out"
  by (intro ext) (simp add: write_breaks_def)

lemma input_lines_Cons:
  "input_lines ((V, Ok line) # reads) =
    (if line = [] then [] else if trim line = [] then input_lines reads else (V, trim line) # input_lines reads)"
  "input_lines ((V, Err x) # reads) = []" "input_lines [] = []"
  by (simp_all add: input_lines_def more_def)

lemma input_result_Cons:
  "input_result ((V, Ok line) # reads) = (if line = [] then Ok () else input_result reads)"
  "input_result ((V, Err x) # reads) = Err (TransportError (fmt [''Failed to read stdin: '', x]))"
  "input_result [] = Ok ()"
  by (simp_all add: input_result_def more_def)

lemmas input_simps = input_lines_Cons input_result_Cons

lemma stdio_line_reply:
  "trim line \<noteq> [] \<Longrightarrow> stdio_line V e line s = Some (reply, s') \<Longrightarrow> line_reply e V (trim line) s reply s'"
  by (auto simp: stdio_line_def line_reply_def STDIO_def split: result.splits option.splits)

text \<open>The run that took all the input, and the run that ended in a write.\<close>

definition ran_through where
  "ran_through e reads out s res out' s' \<longleftrightarrow>
    (\<exists>rs. conversation e (input_lines reads) s rs s' \<and>
       bytes_out out' = bytes_out out @ printed (input_lines reads) rs \<and> res = input_result reads)"

definition broke_off where
  "broke_off e reads out s res out' s' \<longleftrightarrow>
    (\<exists>ls V l rest rs m. input_lines reads = ls @ (V, l) # rest \<and>
       conversation e (ls @ [(V, l)]) s (rs @ [Some m]) s' \<and>
       write_breaks out (bytes_out out @ printed ls rs) (to_json_string (env_codec V) m) (bytes_out out') res)"

lemma conversation_Cons:
  "line_reply e V l s r s1 \<Longrightarrow> conversation e ls s1 rs s' \<Longrightarrow> conversation e ((V, l) # ls) s (r # rs) s'"
  by auto

definition reply_text :: "'v env \<Rightarrow> message option \<Rightarrow> string" where
  "reply_text V r = (case r of Some m \<Rightarrow> to_json_string (env_codec V) m @ [CHR 0x0A] | None \<Rightarrow> [])"

lemma printed_Cons: "printed ((V, l) # ls) (r # rs) = reply_text V r @ printed ls rs"
  by (cases r) (simp_all add: reply_text_def)

lemma ran_through_Cons:
  assumes "ran_through e reads (out\<lparr>bytes_out := bytes_out out @ reply_text V r\<rparr>) s1 res out' s'"
    and "line_reply e V (trim line) s r s1" "line \<noteq> []" "trim line \<noteq> []"
  shows "ran_through e ((V, Ok line) # reads) out s res out' s'"
proof -
  obtain rs where "conversation e (input_lines reads) s1 rs s'" "res = input_result reads"
      "bytes_out out' = (bytes_out out @ reply_text V r) @ printed (input_lines reads) rs"
    using assms(1) by (auto simp: ran_through_def)
  then show ?thesis
    using assms(2-4) unfolding ran_through_def
    by (intro exI [of _ "r # rs"]) (simp add: input_simps conversation_Cons printed_Cons del: printed.simps conversation.simps)
qed

lemma broke_off_Cons:
  assumes "broke_off e reads (out\<lparr>bytes_out := bytes_out out @ reply_text V r\<rparr>) s1 res out' s'"
    and "line_reply e V (trim line) s r s1" "line \<noteq> []" "trim line \<noteq> []"
  shows "broke_off e ((V, Ok line) # reads) out s res out' s'"
proof -
  obtain ls V' l rest rs m where "input_lines reads = ls @ (V', l) # rest"
      "conversation e (ls @ [(V', l)]) s1 (rs @ [Some m]) s'"
      "write_breaks out ((bytes_out out @ reply_text V r) @ printed ls rs) (to_json_string (env_codec V') m) (bytes_out out') res"
    using assms(1) by (auto simp: broke_off_def)
  then show ?thesis
    using assms(2-4) unfolding broke_off_def
    by (intro exI [of _ "(V, trim line) # ls"] exI [of _ V'] exI [of _ l] exI [of _ rest] exI [of _ "r # rs"] exI [of _ m])
      (simp add: input_simps conversation_Cons printed_Cons del: printed.simps conversation.simps)
qed

lemma stdio_run_ends:
  "stdio_run e reads out s = Some (res, out', s') \<Longrightarrow>
     ran_through e reads out s res out' s' \<or> broke_off e reads out s res out' s'"
proof (induction reads arbitrary: out s)
  case Nil
  then show ?case by (auto simp: ran_through_def input_simps)
next
  case (Cons rd reads)
  obtain V x where rd: "rd = (V, x)" by force
  show ?case
  proof (cases x)
    case (Err y)
    then show ?thesis using Cons.prems by (auto simp: rd ran_through_def input_simps)
  next
    case (Ok line)
    consider "line = []" | "line \<noteq> []" "trim line = []" | "line \<noteq> []" "trim line \<noteq> []" by blast
    then show ?thesis
    proof cases
      case 1
      then show ?thesis using Cons.prems by (auto simp: rd Ok ran_through_def input_simps)
    next
      case 2
      then have "stdio_run e reads out s = Some (res, out', s')"
        using Cons.prems by (simp add: rd Ok stdio_line_def)
      from Cons.IH [OF this] show ?thesis
        using 2 by (auto simp: rd Ok ran_through_def broke_off_def input_simps)
    next
      case 3
      obtain r s1 where l: "stdio_line V e line s = Some (r, s1)"
        using Cons.prems 3 by (auto simp: rd Ok split: option.splits)
      have R: "line_reply e V (trim line) s r s1" by (rule stdio_line_reply [OF 3(2) l])
      note next_line = ran_through_Cons [OF _ R 3] broke_off_Cons [OF _ R 3]
      show ?thesis
      proof (cases r)
        case None
        then have "stdio_run e reads (out\<lparr>bytes_out := bytes_out out @ reply_text V r\<rparr>) s1 = Some (res, out', s')"
          using Cons.prems 3 l by (simp add: rd Ok reply_text_def)
        from Cons.IH [OF this] show ?thesis using next_line unfolding rd Ok by blast
      next
        case (Some m)
        obtain wr out1 where w: "write_message (env_codec V) m out = (wr, out1)" by force
        from w show ?thesis
        proof (cases rule: write_message_cases)
          case broken
          then have "res = wr" "out' = out1" "s' = s1"
            using Cons.prems 3 l w Some by (auto simp: rd Ok is_ok_iff split: result.splits)
          then have "broke_off e ((V, Ok line) # reads) out s res out' s'"
            using broken R Some 3 unfolding broke_off_def
            by (intro exI [of _ "[]"] exI [of _ V] exI [of _ "trim line"] exI [of _ "input_lines reads"] exI [of _ m])
              (simp add: input_simps)
          then show ?thesis unfolding rd Ok by blast
        next
          case whole
          then have "stdio_run e reads (out\<lparr>bytes_out := bytes_out out @ reply_text V r\<rparr>) s1 = Some (res, out', s')"
            using Cons.prems 3 l w Some by (simp add: rd Ok reply_text_def)
          from Cons.IH [OF this] show ?thesis using next_line unfolding rd Ok by blast
        qed
      qed
    qed
  qed
qed

text \<open>C40: The loop over standard input gives every line that is not blank to the router, once and in
  order, unless the line is no message, which it answers with a parse error; and it writes exactly the
  answers, one line each, in order: the router's answer, or its error under a null identifier when the
  error is not suppressed. It goes on to the end of the input, or to the read that fails, which it
  reports, unless a write fails: then it stops after the line whose answer could not be written, what is
  out ends within that answer's line, and the error says whether the line, its newline or the flush
  failed.\<close>

theorem stdio_line_discipline:
  assumes "stdio_run e reads out s = Some (res, out', s')"
  shows "(\<exists>rs. conversation e (input_lines reads) s rs s' \<and>
            bytes_out out' = bytes_out out @ printed (input_lines reads) rs \<and> res = input_result reads) \<or>
         (\<exists>ls V l rest rs m. input_lines reads = ls @ (V, l) # rest \<and>
            conversation e (ls @ [(V, l)]) s (rs @ [Some m]) s' \<and>
            write_breaks out (bytes_out out @ printed ls rs) (to_json_string (env_codec V) m) (bytes_out out') res)"
  using stdio_run_ends [OF assms] unfolding ran_through_def broke_off_def .

lemma stdio_line_discipline_witness:
  "\<exists>out' s'. stdio_run enforcer_permissive [(sample_env, Ok [CHR 0x0A]), (sample_env, Ok ''{}''), (sample_env, Ok [])]
       \<lparr>bytes_out = [], write_fault = (\<lambda>_ _. None), flush_fault = (\<lambda>_. None)\<rparr> sample_router = Some (Ok (), out', s') \<and>
     bytes_out out' = to_json_string sample_codec parse_error_response @ [CHR 0x0A] \<and> s' = sample_router"
proof -
  let ?o = "\<lparr>bytes_out = [], write_fault = (\<lambda>_ _. None), flush_fault = (\<lambda>_. None)\<rparr>"
  let ?reads = "[(sample_env, Ok [CHR 0x0A]), (sample_env, Ok ''{}''), (sample_env, Ok [])]"
  have t: "trim [CHR 0x0A] = []" "trim ''{}'' = ''{}''" by code_simp+
  have c: "env_codec sample_env = sample_codec" by (simp add: env_codec_def sample_env_def)
  have "\<not> is_ok (from_str sample_codec (pe_serde (proxy_env sample_env)) ''{}'')" by code_simp
  then obtain x where x: "from_str sample_codec (pe_serde (proxy_env sample_env)) ''{}'' = Err x"
    by (auto simp: is_ok_iff) (metis result.exhaust)
  then have "\<exists>res out' s'. stdio_run enforcer_permissive ?reads ?o sample_router = Some (res, out', s')"
    using t by (auto simp: stdio_line_def c x split: prod.split result.split)
  then obtain res out' s' where R: "stdio_run enforcer_permissive ?reads ?o sample_router = Some (res, out', s')"
    by blast
  have i: "input_lines ?reads = [(sample_env, ''{}'')]" "input_result ?reads = Ok ()"
    using t by (simp_all add: input_simps)
  from stdio_line_discipline [OF R] have "res = Ok () \<and> s' = sample_router \<and>
      bytes_out out' = to_json_string sample_codec parse_error_response @ [CHR 0x0A]"
    unfolding i line_reply_def by (auto simp: write_breaks_def line_reply_def c x)
  with R show ?thesis by blast
qed

end
