(* ===== verification/Sse.thy ===== *)
theory Sse
  imports Transports
begin

text \<open>
  \<open>src/transport/sse.rs\<close>: event streams. A GET makes a channel and registers its sender under a client
  identifier; a POST is routed, and its answer is sent on the channel its identifier had when it came
  in. The channels are tokio's: here a channel is its number, every message given to \<open>Sender::send\<close> is
  put on record with the channel, and what \<open>send\<close> does with it is an argument of the handler.
\<close>

section \<open>The transport\<close>

text \<open>
  \<open>opened\<close> counts the channels made so far, which numbers the next one; \<open>handed\<close> is what has been given
  to \<open>send\<close>, in order.
\<close>

record 'v sse_state =
  e_router :: "'v router"
  clients :: "nat hmap"
  opened :: nat
  handed :: "(nat \<times> message) list"
  e_enforcer :: scope_enforcer

definition sse_new :: "'v router \<Rightarrow> scope_enforcer \<Rightarrow> 'v sse_state" where
  "sse_new s e = \<lparr>e_router = s, clients = [], opened = 0, handed = [], e_enforcer = e\<rparr>"

text \<open>What \<open>tx.send(message).await\<close> gives: \<open>Err\<close> when the receiver is gone, \<open>None\<close> while it waits for room.\<close>

type_synonym mpsc_send = "nat \<Rightarrow> message \<Rightarrow> (unit, message) result option"

definition sse_send ::
  "mpsc_send \<Rightarrow> nat \<Rightarrow> message \<Rightarrow> 'v sse_state \<Rightarrow> (unit, message) result option \<times> 'v sse_state" where
  "sse_send tx c m st = (tx c m, st\<lparr>handed := handed st @ [(c, m)]\<rparr>)"

text \<open>The answer is the endpoint the client is told to post to, and its channel.\<close>

definition handle_sse_get :: "string \<Rightarrow> string option \<Rightarrow> 'v sse_state \<Rightarrow> (string \<times> nat) \<times> 'v sse_state" where
  "handle_sse_get fresh query st =
    (let client_id = (case query of Some c \<Rightarrow> c | None \<Rightarrow> fresh); c = opened st
     in ((fmt [''/messages?client_id='', client_id], c),
         st\<lparr>opened := Suc c, clients := hm_insert client_id c (clients st)\<rparr>))"

definition ACCEPTED :: http_response where "ACCEPTED = plain_response 202 EmptyBody"

text \<open>The answer to a POST once its message is sent, or has failed to be: none yet while it waits.\<close>

definition accept_sending ::
  "mpsc_send \<Rightarrow> nat \<Rightarrow> message \<Rightarrow> 'v sse_state \<Rightarrow> http_response option \<times> 'v sse_state" where
  "accept_sending tx c m st =
    (case sse_send tx c m st of (outcome, st') \<Rightarrow> (map_option (\<lambda>_. ACCEPTED) outcome, st'))"

definition handle_sse_post ::
  "'v env \<Rightarrow> mpsc_send \<Rightarrow> string option \<Rightarrow> string \<Rightarrow> 'v sse_state \<Rightarrow> (http_response option \<times> 'v sse_state) option" where
  "handle_sse_post V tx query bytes st =
    (case query of
       None \<Rightarrow> Some (Some (http_error_response 400 ''Missing client_id query parameter''), st)
     | Some client_id \<Rightarrow>
         (case hm_get (clients st) client_id of
            None \<Rightarrow> Some (Some (http_error_response 404 ''Unknown or disconnected client''), st)
          | Some c \<Rightarrow>
              if \<not> utf8_valid bytes
              then Some (Some (http_error_response 400 ''Invalid UTF-8 in request body''), st)
              else
                (case from_text (env_codec V) bytes of
                   Err _ \<Rightarrow> Some (accept_sending tx c parse_error_response st)
                 | Ok raw \<Rightarrow>
                     (case parse (pe_serde (proxy_env V)) raw of
                        Err x \<Rightarrow> Some (accept_sending tx c (null_error x) st)
                      | Ok m \<Rightarrow>
                          (case handle_message V m (e_enforcer st) (Some client_id) (e_router st) of
                             None \<Rightarrow> None
                           | Some (Ok r, s') \<Rightarrow> Some (accept_sending tx c r (st\<lparr>e_router := s'\<rparr>))
                           | Some (Err x, s') \<Rightarrow>
                               Some
                                 (if \<not> is_notification m \<and> \<not> suppressed x
                                  then accept_sending tx c (null_error x) (st\<lparr>e_router := s'\<rparr>)
                                  else (Some ACCEPTED, st\<lparr>e_router := s'\<rparr>)))))))"

text \<open>No code calls \<open>remove_client\<close>.\<close>

definition remove_client :: "string \<Rightarrow> 'v sse_state \<Rightarrow> 'v sse_state" where
  "remove_client client_id st = st\<lparr>clients := hm_remove client_id (clients st)\<rparr>"

section \<open>Handlers in steps\<close>

text \<open>
  A POST waits between its steps, so others run in between: it reads the table and its body, the
  router handles the message, it sends the answer. The first step finds the client, the channel it has
  at the time, and the message.
\<close>

definition sse_gate ::
  "'v env \<Rightarrow> string option \<Rightarrow> string \<Rightarrow> 'v sse_state \<Rightarrow> (string \<times> nat \<times> message) option" where
  "sse_gate V query bytes st =
    (case query of
       None \<Rightarrow> None
     | Some cid \<Rightarrow>
         (case (hm_get (clients st) cid, from_str (env_codec V) (pe_serde (proxy_env V)) bytes) of
            (Some c, Ok m) \<Rightarrow> if utf8_valid bytes then Some (cid, c, m) else None
          | _ \<Rightarrow> None))"

definition sse_answer ::
  "mpsc_send \<Rightarrow> nat \<Rightarrow> message \<Rightarrow> (message, mcp_error) result \<Rightarrow> 'v sse_state \<Rightarrow> http_response option \<times> 'v sse_state" where
  "sse_answer tx c m res st =
    (case res of
       Ok r \<Rightarrow> accept_sending tx c r st
     | Err x \<Rightarrow>
         if \<not> is_notification m \<and> \<not> suppressed x then accept_sending tx c (null_error x) st
         else (Some ACCEPTED, st))"

text \<open>The handler is these steps in a row.\<close>

lemma from_str_Ok:
  "from_str C S bytes = Ok m \<longleftrightarrow> (\<exists>raw. from_text C bytes = Ok raw \<and> parse S raw = Ok m)"
  by (auto simp: from_str_def split: result.split)

lemma sse_post_in_parts:
  assumes "sse_gate V query bytes st = Some (cid, c, m)"
  shows "handle_sse_post V tx query bytes st =
    (case handle_message V m (e_enforcer st) (Some cid) (e_router st) of
       None \<Rightarrow> None
     | Some (res, s') \<Rightarrow> Some (sse_answer tx c m res (st\<lparr>e_router := s'\<rparr>)))"
proof -
  obtain raw where "utf8_valid bytes" "from_text (env_codec V) bytes = Ok raw" "query = Some cid"
      "parse (pe_serde (proxy_env V)) raw = Ok m" "hm_get (clients st) cid = Some c"
    using assms by (auto simp: sse_gate_def from_str_Ok split: result.splits if_splits option.splits)
  then show ?thesis
    by (simp add: handle_sse_post_def sse_answer_def split: option.split result.split)
qed

lemma accept_sending_snd [simp]: "snd (accept_sending tx c m st) = snd (sse_send tx c m st)"
  by (simp add: accept_sending_def split: prod.split)

lemma sse_send_frame [simp]:
  "e_router (snd (sse_send tx c m st)) = e_router st" "e_enforcer (snd (sse_send tx c m st)) = e_enforcer st"
  by (simp_all add: sse_send_def split: prod.split)

lemma sse_post_unrouted:
  assumes "sse_gate V query bytes st = None" "handle_sse_post V tx query bytes st = Some (resp, st')"
  shows "st' = st \<or> (\<exists>c m. st' = snd (sse_send tx c m st))"
  using assms
  by (auto simp: sse_gate_def handle_sse_post_def from_str_def split: option.splits if_splits result.splits
      dest!: arg_cong [where f = snd]) blast+

section \<open>Histories\<close>

text \<open>What has happened to the transport, the latest first. A POST is known by the number of events before
  it. The router is shared, so it can be changed elsewhere.\<close>

datatype 'v sse_event =
    Opened string
  | Removed string
  | Unrouted "'v env" "string option" string
  | Entered "'v env" string string
  | Routed nat "(message, mcp_error) result"
  | Answered nat
  | Elsewhere "'v router"

text \<open>Where a POST is that has come in: before the router, or before its answer.\<close>

datatype 'v pending =
    AtRouter "'v env" string nat message
  | AtAnswer nat message "(message, mcp_error) result"

inductive sse_run ::
  "'v router \<Rightarrow> scope_enforcer \<Rightarrow> 'v sse_event list \<Rightarrow> (nat \<Rightarrow> 'v pending option) \<Rightarrow> 'v sse_state \<Rightarrow> bool"
  for r e where
  starts: "sse_run r e [] (\<lambda>_. None) (sse_new r e)"
| get: "sse_run r e h w st \<Longrightarrow> handle_sse_get fresh query st = (endpoint, st') \<Longrightarrow>
     sse_run r e (Opened (case query of Some i \<Rightarrow> i | None \<Rightarrow> fresh) # h) w st'"
| removal: "sse_run r e h w st \<Longrightarrow> sse_run r e (Removed i # h) w (remove_client i st)"
| unrouted: "sse_run r e h w st \<Longrightarrow> sse_gate V query bytes st = None \<Longrightarrow>
     handle_sse_post V tx query bytes st = Some (response, st') \<Longrightarrow> sse_run r e (Unrouted V query bytes # h) w st'"
| enters: "sse_run r e h w st \<Longrightarrow> sse_gate V (Some i) bytes st = Some (i, c, m) \<Longrightarrow>
     sse_run r e (Entered V i bytes # h) (w(length h \<mapsto> AtRouter V i c m)) st"
| routes: "sse_run r e h w st \<Longrightarrow> w n = Some (AtRouter V i c m) \<Longrightarrow>
     handle_message V m (e_enforcer st) (Some i) (e_router st) = Some (res, s) \<Longrightarrow>
     sse_run r e (Routed n res # h) (w(n \<mapsto> AtAnswer c m res)) (st\<lparr>e_router := s\<rparr>)"
| answers: "sse_run r e h w st \<Longrightarrow> w n = Some (AtAnswer c m res) \<Longrightarrow> sse_answer tx c m res st = (response, st') \<Longrightarrow>
     sse_run r e (Answered n # h) (w(n := None)) st'"
| elsewhere: "sse_run r e h w st \<Longrightarrow> sse_run r e (Elsewhere s # h) w (st\<lparr>e_router := s\<rparr>)"

text \<open>
  What a history asks for: the channel of a client is the one its latest GET made, unless it was removed
  since; a POST that came in has the channel of its client at that time.
\<close>

fun openings :: "'v sse_event list \<Rightarrow> nat" where
  "openings [] = 0"
| "openings (Opened j # h) = Suc (openings h)"
| "openings (_ # h) = openings h"

fun channel_of :: "'v sse_event list \<Rightarrow> string \<Rightarrow> nat option" where
  "channel_of [] i = None"
| "channel_of (Opened j # h) i = (if j = i then Some (openings h) else channel_of h i)"
| "channel_of (Removed j # h) i = (if j = i then None else channel_of h i)"
| "channel_of (_ # h) i = channel_of h i"

fun entered :: "'v sse_event list \<Rightarrow> nat \<Rightarrow> ('v env \<times> string \<times> nat \<times> message) option" where
  "entered [] n = None"
| "entered (Entered V i bytes # h) n =
     (if n = length h
      then (case (channel_of h i, from_str (env_codec V) (pe_serde (proxy_env V)) bytes) of
              (Some c, Ok m) \<Rightarrow> Some (V, i, c, m)
            | _ \<Rightarrow> None)
      else entered h n)"
| "entered (_ # h) n = entered h n"

fun routed :: "'v sse_event list \<Rightarrow> nat \<Rightarrow> (message, mcp_error) result option" where
  "routed [] n = None"
| "routed (Routed k res # h) n = (if k = n then Some res else routed h n)"
| "routed (_ # h) n = routed h n"

fun answered :: "'v sse_event list \<Rightarrow> nat list" where
  "answered [] = []"
| "answered (Answered n # h) = n # answered h"
| "answered (_ # h) = answered h"

fun routings :: "'v sse_event list \<Rightarrow> nat list" where
  "routings [] = []"
| "routings (Routed n res # h) = n # routings h"
| "routings (_ # h) = routings h"

text \<open>What is owed for a body that is no message, and for the router's answer to a message.\<close>

definition unread_reply :: "'v env \<Rightarrow> string \<Rightarrow> message option" where
  "unread_reply V bytes =
    (if \<not> utf8_valid bytes then None
     else
       (case from_text (env_codec V) bytes of
          Err _ \<Rightarrow> Some parse_error_response
        | Ok raw \<Rightarrow> (case parse (pe_serde (proxy_env V)) raw of Err x \<Rightarrow> Some (null_error x) | Ok _ \<Rightarrow> None)))"

definition routed_reply :: "message \<Rightarrow> (message, mcp_error) result \<Rightarrow> message option" where
  "routed_reply m res =
    (case res of
       Ok a \<Rightarrow> Some a
     | Err x \<Rightarrow> if is_notification m \<or> suppressed x then None else Some (null_error x))"

definition on_channel :: "nat \<Rightarrow> message option \<Rightarrow> (nat \<times> message) list" where
  "on_channel c reply = (case reply of Some m \<Rightarrow> [(c, m)] | None \<Rightarrow> [])"

fun owed :: "'v sse_event list \<Rightarrow> (nat \<times> message) list" where
  "owed [] = []"
| "owed (Unrouted V query bytes # h) = owed h @
     (case Option.bind query (channel_of h) of Some c \<Rightarrow> on_channel c (unread_reply V bytes) | None \<Rightarrow> [])"
| "owed (Answered n # h) = owed h @
     (case (entered h n, routed h n) of
        (Some (V, i, c, m), Some res) \<Rightarrow> on_channel c (routed_reply m res)
      | _ \<Rightarrow> [])"
| "owed (_ # h) = owed h"

text \<open>The router of a history that started with \<open>r\<close>: every POST's message is handled in the name of its client.\<close>

fun router_after :: "'v router \<Rightarrow> scope_enforcer \<Rightarrow> 'v sse_event list \<Rightarrow> 'v router \<Rightarrow> bool" where
  "router_after r e [] s \<longleftrightarrow> s = r"
| "router_after r e (Routed n res # h) s \<longleftrightarrow>
     (\<exists>V i c m s0. entered h n = Some (V, i, c, m) \<and> router_after r e h s0 \<and>
        handle_message V m e (Some i) s0 = Some (res, s))"
| "router_after r e (Elsewhere s' # h) s \<longleftrightarrow> s = s'"
| "router_after r e (_ # h) s \<longleftrightarrow> router_after r e h s"

definition pending_ok :: "'v sse_event list \<Rightarrow> nat \<Rightarrow> 'v pending option \<Rightarrow> bool" where
  "pending_ok h n p \<longleftrightarrow>
     (p \<noteq> None \<longrightarrow> n < length h \<and> n \<notin> set (answered h)) \<and>
     (\<forall>V i c m. p = Some (AtRouter V i c m) \<longrightarrow> entered h n = Some (V, i, c, m) \<and> n \<notin> set (routings h)) \<and>
     (\<forall>c m res. p = Some (AtAnswer c m res) \<longrightarrow> routed h n = Some res \<and> (\<exists>V i. entered h n = Some (V, i, c, m))) \<and>
     (length h \<le> n \<longrightarrow> entered h n = None \<and> n \<notin> set (routings h) \<and> n \<notin> set (answered h))"

definition told :: "'v router \<Rightarrow> scope_enforcer \<Rightarrow> 'v sse_event list \<Rightarrow> 'v sse_state \<Rightarrow> bool" where
  "told r e h st \<longleftrightarrow>
     hm_get (clients st) = channel_of h \<and> opened st = openings h \<and> handed st = owed h \<and>
     router_after r e h (e_router st) \<and> e_enforcer st = e \<and> distinct (answered h) \<and> distinct (routings h)"

lemma entered_early: "entered h n = Some x \<Longrightarrow> n < length h"
  by (induction h n rule: entered.induct) (auto split: if_splits)

lemma sse_gate_Some:
  "sse_gate V (Some i) bytes st = Some (j, c, m) \<longleftrightarrow>
     j = i \<and> hm_get (clients st) i = Some c \<and> utf8_valid bytes \<and>
     from_str (env_codec V) (pe_serde (proxy_env V)) bytes = Ok m"
  by (auto simp: sse_gate_def split: option.splits result.splits)

lemma unrouted_hands:
  assumes "sse_gate V query bytes st = None" "handle_sse_post V tx query bytes st = Some (response, st')"
  shows "st' = st\<lparr>handed := handed st @
    (case Option.bind query (hm_get (clients st)) of Some c \<Rightarrow> on_channel c (unread_reply V bytes) | None \<Rightarrow> [])\<rparr>"
  using assms
  by (auto simp: sse_gate_def handle_sse_post_def from_str_def unread_reply_def on_channel_def accept_sending_def
      sse_send_def split: option.splits if_splits result.splits)

lemma answer_hands:
  "sse_answer tx c m res st = (response, st') \<Longrightarrow> st' = st\<lparr>handed := handed st @ on_channel c (routed_reply m res)\<rparr>"
  by (auto simp: sse_answer_def routed_reply_def on_channel_def accept_sending_def sse_send_def
      split: result.splits if_splits)

text \<open>An event leaves a POST alone that it does not name.\<close>

fun names :: "'v sse_event \<Rightarrow> nat \<Rightarrow> bool" where
  "names (Routed k res) n \<longleftrightarrow> k = n"
| "names (Answered k) n \<longleftrightarrow> k = n"
| "names _ n \<longleftrightarrow> False"

lemma pending_ok_other:
  assumes "pending_ok h n p" "\<not> names ev n" "\<And>V i bytes. ev = Entered V i bytes \<Longrightarrow> n \<noteq> length h"
  shows "pending_ok (ev # h) n p"
proof -
  have "entered (ev # h) n = entered h n" "routed (ev # h) n = routed h n"
    "n \<in> set (routings (ev # h)) \<longleftrightarrow> n \<in> set (routings h)" "n \<in> set (answered (ev # h)) \<longleftrightarrow> n \<in> set (answered h)"
    using assms(2,3) by (cases ev; simp)+
  then show ?thesis using assms(1) by (auto simp: pending_ok_def)
qed

lemma pending_ok_enters:
  "pending_ok h (length h) p \<Longrightarrow> channel_of h i = Some c \<Longrightarrow>
     from_str (env_codec V) (pe_serde (proxy_env V)) bytes = Ok m \<Longrightarrow>
     pending_ok (Entered V i bytes # h) (length h) (Some (AtRouter V i c m))"
  by (simp add: pending_ok_def)

lemma pending_ok_routes:
  "pending_ok h n (Some (AtRouter V i c m)) \<Longrightarrow> pending_ok (Routed n res # h) n (Some (AtAnswer c m res))"
  by (auto simp: pending_ok_def)

lemma pending_ok_answers:
  "pending_ok h n (Some (AtAnswer c m res)) \<Longrightarrow> pending_ok (Answered n # h) n None"
  by (auto simp: pending_ok_def)

lemma told_gate:
  "told r e h st \<Longrightarrow> sse_gate V (Some i) bytes st = Some (i, c, m) \<Longrightarrow>
     channel_of h i = Some c \<and> from_str (env_codec V) (pe_serde (proxy_env V)) bytes = Ok m"
  by (simp add: told_def sse_gate_Some)

lemma told_answers:
  assumes "told r e h st" "pending_ok h n (Some (AtAnswer c m res))" "sse_answer tx c m res st = (response, st')"
  shows "told r e (Answered n # h) st'"
proof -
  obtain V i where "entered h n = Some (V, i, c, m)" "routed h n = Some res" "n \<notin> set (answered h)"
    using assms(2) by (auto simp: pending_ok_def)
  then show ?thesis using assms(1) by (simp add: told_def answer_hands [OF assms(3)] fun_eq_iff)
qed

lemma told_routes:
  assumes "told r e h st" "pending_ok h n (Some (AtRouter V i c m))"
    and "handle_message V m (e_enforcer st) (Some i) (e_router st) = Some (res, s)"
  shows "told r e (Routed n res # h) (st\<lparr>e_router := s\<rparr>)"
proof -
  have "entered h n = Some (V, i, c, m)" "n \<notin> set (routings h)"
    using assms(2) by (auto simp: pending_ok_def)
  then show ?thesis using assms(1,3) by (auto simp: told_def fun_eq_iff)
qed

lemma sse_run_told:
  assumes "sse_run r e h w st"
  shows "told r e h st \<and> (\<forall>n. pending_ok h n (w n))"
  using assms
proof induction
  case starts
  show ?case by (auto simp: told_def pending_ok_def sse_new_def)
next
  case (get h w st fresh query endpoint st')
  then have "told r e (Opened (case query of Some i \<Rightarrow> i | None \<Rightarrow> fresh) # h) st'"
    by (auto simp: told_def handle_sse_get_def Let_def)
  then show ?case using get by (auto intro: pending_ok_other)
next
  case (removal h w st i)
  then have "told r e (Removed i # h) (remove_client i st)"
    by (auto simp: told_def remove_client_def)
  then show ?case using removal by (auto intro: pending_ok_other)
next
  case (unrouted h w st V query bytes tx response st')
  then have "told r e (Unrouted V query bytes # h) st'"
    using unrouted_hands [OF unrouted(2,3)] by (cases query) (simp_all add: told_def fun_eq_iff)
  then show ?case using unrouted by (auto intro: pending_ok_other)
next
  case (enters h w st V i bytes c m)
  then have "told r e (Entered V i bytes # h) st" by (simp add: told_def fun_eq_iff)
  moreover have "pending_ok (Entered V i bytes # h) n ((w(length h \<mapsto> AtRouter V i c m)) n)" for n
    using told_gate [OF _ enters(2)] enters(3)
    by (cases "n = length h") (auto intro!: pending_ok_enters intro: pending_ok_other)
  ultimately show ?case by blast
next
  case (routes h w st n V i c m res s)
  then have p: "pending_ok h n (Some (AtRouter V i c m))" by metis
  have "pending_ok (Routed n res # h) k ((w(n \<mapsto> AtAnswer c m res)) k)" for k
    using routes(4) pending_ok_routes [OF p] by (cases "k = n") (auto intro: pending_ok_other)
  then show ?case using told_routes [OF _ p routes(3)] routes by blast
next
  case (answers h w st n c m res tx response st')
  then have p: "pending_ok h n (Some (AtAnswer c m res))" by metis
  have "pending_ok (Answered n # h) k ((w(n := None)) k)" for k
    using answers(4) pending_ok_answers [OF p] by (cases "k = n") (auto intro: pending_ok_other)
  then show ?case using told_answers [OF _ p answers(3)] answers by blast
next
  case (elsewhere h w st s)
  then have "told r e (Elsewhere s # h) (st\<lparr>e_router := s\<rparr>)" by (simp add: told_def fun_eq_iff)
  then show ?case using elsewhere by (auto intro: pending_ok_other)
qed

section \<open>Properties\<close>

text \<open>C39: Event streams are what the history of their transport asks for, however the handlers of its
  clients interleave: a client's channel is the one its latest GET made, unless the client was removed
  since; what has been sent, message by message and in order, is the answer to each POST on the channel
  its client had when the POST came in: a parse error for a body that is no message, else the answer that
  the router gave to this very message, or its error under a null identifier unless it is suppressed.
  Each POST is routed at most once, in the name of its client, and answered at most once; nothing else
  changes the router.\<close>

theorem sse_streams_follow_history:
  assumes "sse_run r e h w st"
  shows "(\<forall>i. hm_get (clients st) i = channel_of h i) \<and> opened st = openings h \<and>
         handed st = owed h \<and> router_after r e h (e_router st) \<and>
         distinct (routings h) \<and> distinct (answered h)"
  using sse_run_told [OF assms] by (auto simp: told_def)

text \<open>Server-sent events: a client identifier is whatever the GET says, and a second GET with the
  same identifier takes its place. From then on the answers to the first client's requests are sent on
  the second one's channel.\<close>

theorem sse_stream_takeover:
  assumes "handle_sse_get fresh (Some cid) st = ((url, c2), st2)" "hm_get (clients st) cid = Some c1" "c1 < opened st"
    and "utf8_valid bytes" "from_text (env_codec V) bytes = Ok raw"
    and "parse (pe_serde (proxy_env V)) raw = Ok m"
    and "handle_message V m (e_enforcer st) (Some cid) (e_router st) = Some (Ok r, s')"
  shows "c2 \<noteq> c1 \<and> (\<exists>response st3. handle_sse_post V tx (Some cid) bytes st2 = Some (response, st3) \<and>
           handed st3 = handed st @ [(c2, r)])"
  using assms by (auto simp: handle_sse_get_def Let_def handle_sse_post_def accept_sending_def sse_send_def)

definition sample_sse :: "string sse_state" where
  "sample_sse = snd (handle_sse_get ''u'' (Some ''victim'') (sse_new sample_router enforcer_permissive))"

lemma sample_sse_simps:
  "e_router sample_sse = sample_router" "e_enforcer sample_sse = enforcer_permissive" "handed sample_sse = []"
  "opened sample_sse = 1" "hm_get (clients sample_sse) ''victim'' = Some 0"
  by (simp_all add: sample_sse_def handle_sse_get_def sse_new_def Let_def)

text \<open>A \<open>ping\<close> as bytes of the sample codec, and its answer.\<close>

definition ping_bytes :: string where
  "ping_bytes = put_json (to_value (Request (IdInteger 1) METHOD_PING None))"

lemma ping_arrives:
  "utf8_valid ping_bytes" "from_text (env_codec sample_env) ping_bytes = Ok (to_value (Request (IdInteger 1) METHOD_PING None))"
  "parse (pe_serde (proxy_env sample_env)) (to_value (Request (IdInteger 1) METHOD_PING None)) =
     Ok (Request (IdInteger 1) METHOD_PING None)"
  "\<exists>r s'. handle_message sample_env (Request (IdInteger 1) METHOD_PING None) enforcer_permissive (Some ''victim'')
     sample_router = Some (Ok r, s')"
proof -
  show "utf8_valid ping_bytes" by code_simp
  show "from_text (env_codec sample_env) ping_bytes = Ok (to_value (Request (IdInteger 1) METHOD_PING None))"
    by (simp only: ping_bytes_def env_codec_def sample_env_def env.simps proxy_env.simps sample_from_text)
  show "parse (pe_serde (proxy_env sample_env)) (to_value (Request (IdInteger 1) METHOD_PING None)) =
      Ok (Request (IdInteger 1) METHOD_PING None)"
    by (rule parse_to_value) (simp add: wf_message_def)
  have "map_option (is_ok \<circ> fst) (handle_message sample_env (Request (IdInteger 1) METHOD_PING None)
      enforcer_permissive (Some ''victim'') sample_router) = Some True"
    by code_simp
  then show "\<exists>r s'. handle_message sample_env (Request (IdInteger 1) METHOD_PING None) enforcer_permissive
      (Some ''victim'') sample_router = Some (Ok r, s')"
    by (auto simp: is_ok_iff)
qed

lemma sse_stream_takeover_witness:
  "\<exists>st2 st3 response r. handle_sse_get ''u'' (Some ''victim'') sample_sse = ((''/messages?client_id=victim'', 1), st2) \<and>
     handle_sse_post sample_env (\<lambda>_ _. Some (Ok ())) (Some ''victim'') ping_bytes st2 = Some (response, st3) \<and>
     handed st3 = [(1, r)]"
proof -
  obtain st2 where G: "handle_sse_get ''u'' (Some ''victim'') sample_sse = ((''/messages?client_id=victim'', 1), st2)"
    by (auto simp: handle_sse_get_def sample_sse_simps fmt_def Let_def)
  obtain r s' where R: "handle_message sample_env (Request (IdInteger 1) METHOD_PING None) (e_enforcer sample_sse)
      (Some ''victim'') (e_router sample_sse) = Some (Ok r, s')"
    using ping_arrives(4) by (auto simp: sample_sse_simps)
  have "hm_get (clients sample_sse) ''victim'' = Some 0" "0 < opened sample_sse" by (simp_all add: sample_sse_simps)
  from sse_stream_takeover [OF G this ping_arrives(1-3) R, of "\<lambda>_ _. Some (Ok ())"] G show ?thesis
    by (fastforce simp: sample_sse_simps)
qed

text \<open>A POST whose answer waits for room on its channel has been routed like any other, with its
  upstream call, its count and its audit event, and is not answered.\<close>

theorem sse_slow_reader_blocks:
  assumes "hm_get (clients st) cid = Some c" "utf8_valid bytes" "from_text (env_codec V) bytes = Ok raw"
    and "parse (pe_serde (proxy_env V)) raw = Ok m"
    and "handle_message V m (e_enforcer st) (Some cid) (e_router st) = Some (Ok r, s')" "tx c r = None"
  shows "\<exists>st'. handle_sse_post V tx (Some cid) bytes st = Some (None, st') \<and> e_router st' = s'"
  using assms by (simp add: handle_sse_post_def accept_sending_def sse_send_def)

lemma sse_slow_reader_blocks_witness:
  "\<exists>st'. handle_sse_post sample_env (\<lambda>_ _. None) (Some ''victim'') ping_bytes sample_sse = Some (None, st')"
proof -
  obtain r s' where R: "handle_message sample_env (Request (IdInteger 1) METHOD_PING None) (e_enforcer sample_sse)
      (Some ''victim'') (e_router sample_sse) = Some (Ok r, s')"
    using ping_arrives(4) by (auto simp: sample_sse_simps)
  have "hm_get (clients sample_sse) ''victim'' = Some 0" by (simp add: sample_sse_simps)
  from sse_slow_reader_blocks [OF this ping_arrives(1-3) R, of "\<lambda>_ _. None"] show ?thesis by blast
qed

lemma sse_streams_follow_history_witness:
  "\<exists>w st r. sse_run sample_router enforcer_permissive
      [Answered 1, Opened ''victim'', Routed 1 (Ok r), Entered sample_env ''victim'' ping_bytes, Opened ''victim''] w st \<and>
     hm_get (clients st) ''victim'' = Some 1 \<and> handed st = [(0, r)]"
proof -
  let ?run = "sse_run sample_router enforcer_permissive" and ?m = "Request (IdInteger 1) METHOD_PING None"
  obtain r s' where R: "handle_message sample_env ?m (e_enforcer sample_sse)
      (Some ''victim'') (e_router sample_sse) = Some (Ok r, s')"
    using ping_arrives(4) by (auto simp: sample_sse_simps)
  have p: "from_str (env_codec sample_env) (pe_serde (proxy_env sample_env)) ping_bytes = Ok ?m"
    using ping_arrives(2,3) by (simp add: from_str_def)
  have "?run [Opened ''victim''] (\<lambda>_. None) sample_sse"
    using get [OF starts, of "''u''" "Some ''victim''"] by (metis option.case(2) prod.collapse sample_sse_def)
  moreover have "sse_gate sample_env (Some ''victim'') ping_bytes sample_sse = Some (''victim'', 0, ?m)"
    using ping_arrives(1) by (simp add: sse_gate_Some sample_sse_simps p)
  ultimately have "?run [Entered sample_env ''victim'' ping_bytes, Opened ''victim'']
      ((\<lambda>_. None)(1 \<mapsto> AtRouter sample_env ''victim'' 0 ?m)) sample_sse"
    using enters by fastforce
  then have "?run [Routed 1 (Ok r), Entered sample_env ''victim'' ping_bytes, Opened ''victim'']
      ((\<lambda>_. None)(1 \<mapsto> AtRouter sample_env ''victim'' 0 ?m, 1 \<mapsto> AtAnswer 0 ?m (Ok r))) (sample_sse\<lparr>e_router := s'\<rparr>)"
    by (rule routes [OF _ _ R]) simp
  then have "\<exists>st. ?run [Opened ''victim'', Routed 1 (Ok r), Entered sample_env ''victim'' ping_bytes, Opened ''victim'']
      ((\<lambda>_. None)(1 \<mapsto> AtRouter sample_env ''victim'' 0 ?m, 1 \<mapsto> AtAnswer 0 ?m (Ok r))) st"
    using get [where query = "Some ''victim''"] by (metis option.case(2) prod.collapse)
  then have "\<exists>w st. ?run [Answered 1, Opened ''victim'', Routed 1 (Ok r), Entered sample_env ''victim'' ping_bytes,
      Opened ''victim''] w st"
    using answers [where n = 1 and c = 0 and m = ?m and res = "Ok r"] by (metis fun_upd_same prod.collapse)
  then obtain w st where S: "?run [Answered 1, Opened ''victim'', Routed 1 (Ok r), Entered sample_env ''victim'' ping_bytes,
      Opened ''victim''] w st" by blast
  from sse_streams_follow_history [OF S] have "hm_get (clients st) ''victim'' = Some 1" "handed st = [(0, r)]"
    by (auto simp: p on_channel_def routed_reply_def)
  with S show ?thesis by blast
qed

end
