(* ===== verification/Socket_Addr.thy ===== *)
theory Socket_Addr
  imports Rust_Str
begin

text \<open>
  The part of Rust's standard library that the configuration uses for addresses: \<open>SocketAddr\<close>, its
  parser (\<open>FromStr\<close>: \<open>a.b.c.d:port\<close> or \<open>[v6]:port\<close>, nothing left over) and its \<open>Display\<close>. A reader
  returns what it read and the rest; \<open>None\<close> leaves the input where it was. The last section shows
  that a printed IPv4 address is read back.
\<close>

section \<open>Readers\<close>

type_synonym 'a reader = "string \<Rightarrow> ('a \<times> string) option"

definition read_given_char :: "char \<Rightarrow> string \<Rightarrow> string option" where
  "read_given_char c s = (case s of x # xs \<Rightarrow> if x = c then Some xs else None | [] \<Rightarrow> None)"

text \<open>\<open>char::to_digit\<close> for a radix up to 16.\<close>

definition to_digit :: "nat \<Rightarrow> char \<Rightarrow> nat option" where
  "to_digit radix c =
    (let n = of_char c;
         d = (if n \<in> {48..57} then Some (n - 48)
              else if n \<in> {97..102} then Some (n - 87)
              else if n \<in> {65..70} then Some (n - 55) else None)
     in case d of Some k \<Rightarrow> if k < radix then Some k else None | None \<Rightarrow> None)"

text \<open>The digits of a number below \<open>bound\<close>, at most \<open>max\<close> of them.\<close>

fun read_digits :: "nat \<Rightarrow> nat option \<Rightarrow> nat \<Rightarrow> nat \<Rightarrow> nat \<Rightarrow> string \<Rightarrow> (nat \<times> nat \<times> string) option" where
  "read_digits radix mx bound k acc [] = Some (acc, k, [])"
| "read_digits radix mx bound k acc (c # cs) =
    (case to_digit radix c of
       None \<Rightarrow> Some (acc, k, c # cs)
     | Some d \<Rightarrow>
         if bound \<le> radix * acc + d then None
         else if (case mx of Some m \<Rightarrow> m < Suc k | None \<Rightarrow> False) then None
         else read_digits radix mx bound (Suc k) (radix * acc + d) cs)"

definition read_number :: "nat \<Rightarrow> nat option \<Rightarrow> bool \<Rightarrow> nat \<Rightarrow> nat reader" where
  "read_number radix mx allow_zero_prefix bound s =
    (case read_digits radix mx bound 0 0 s of
       None \<Rightarrow> None
     | Some (n, k, rest) \<Rightarrow>
         if k = 0 then None
         else if \<not> allow_zero_prefix \<and> prefix ''0'' s \<and> 1 < k then None
         else Some (n, rest))"

definition read_separator :: "char \<Rightarrow> nat \<Rightarrow> 'a reader \<Rightarrow> 'a reader" where
  "read_separator c i inner s = (if 0 < i then Option.bind (read_given_char c s) inner else inner s)"

type_synonym octets = "nat \<times> nat \<times> nat \<times> nat"

definition read_octet :: "nat \<Rightarrow> nat reader" where
  "read_octet i = read_separator (CHR ''.'') i (read_number 10 (Some 3) False 256)"

definition read_ipv4 :: "octets reader" where
  "read_ipv4 s =
     Option.bind (read_octet 0 s) (\<lambda>(a, s1).
     Option.bind (read_octet 1 s1) (\<lambda>(b, s2).
     Option.bind (read_octet 2 s2) (\<lambda>(c, s3).
     Option.bind (read_octet 3 s3) (\<lambda>(d, s4). Some ((a, b, c, d), s4)))))"

text \<open>Groups of an IPv6 address from the \<open>i\<close>-th on, up to \<open>limit\<close>; the flag says that they end in an
  embedded IPv4 address.\<close>

function read_groups :: "nat \<Rightarrow> nat \<Rightarrow> string \<Rightarrow> nat list \<times> bool \<times> string" where
  "read_groups limit i s =
    (if limit \<le> i then ([], False, s)
     else
       (case (if i < limit - 1 then read_separator (CHR '':'') i read_ipv4 s else None) of
          Some ((a, b, c, d), rest) \<Rightarrow> ([256 * a + b, 256 * c + d], True, rest)
        | None \<Rightarrow>
            (case read_separator (CHR '':'') i (read_number 16 (Some 4) True 65536) s of
               Some (g, rest) \<Rightarrow>
                 (let (gs, v4, rest') = read_groups limit (Suc i) rest in (g # gs, v4, rest'))
             | None \<Rightarrow> ([], False, s))))"
  by pat_completeness auto
termination by (relation "measure (\<lambda>(limit, i, _). limit - i)") auto

declare read_groups.simps [simp del]

definition read_ipv6 :: "nat list reader" where
  "read_ipv6 s =
    (let (front, v4, s1) = read_groups 8 0 s
     in if length front = 8 then Some (front, s1)
        else if v4 then None
        else
          Option.bind (Option.bind (read_given_char (CHR '':'') s1) (read_given_char (CHR '':'')))
            (\<lambda>s2.
              let (back, _, s3) = read_groups (7 - length front) 0 s2
              in Some (front @ replicate (8 - (length front + length back)) 0 @ back, s3)))"

section \<open>Socket addresses\<close>

datatype socket_addr = V4 octets nat | V6 "nat list" nat nat

definition read_port :: "nat reader" where
  "read_port s = Option.bind (read_given_char (CHR '':'') s) (read_number 10 None True 65536)"

definition read_scope_id :: "nat reader" where
  "read_scope_id s = Option.bind (read_given_char (CHR ''%'') s) (read_number 10 None True (2 ^ 32))"

definition read_v4 :: "socket_addr reader" where
  "read_v4 s =
     Option.bind (read_ipv4 s) (\<lambda>(ip, s1).
     Option.bind (read_port s1) (\<lambda>(port, s2). Some (V4 ip port, s2)))"

definition read_v6 :: "socket_addr reader" where
  "read_v6 s =
     Option.bind (read_given_char (CHR ''['') s) (\<lambda>s1.
     Option.bind (read_ipv6 s1) (\<lambda>(ip, s2).
       let (scope, s3) = (case read_scope_id s2 of Some x \<Rightarrow> x | None \<Rightarrow> (0, s2)) in
     Option.bind (read_given_char (CHR '']'') s3) (\<lambda>s4.
     Option.bind (read_port s4) (\<lambda>(port, s5). Some (V6 ip scope port, s5)))))"

definition parse_addr :: "string \<Rightarrow> socket_addr option" where
  "parse_addr s =
    (case (case read_v4 s of Some x \<Rightarrow> Some x | None \<Rightarrow> read_v6 s) of
       Some (a, []) \<Rightarrow> Some a
     | _ \<Rightarrow> None)"

section \<open>Display\<close>

fun show_ipv4 :: "octets \<Rightarrow> string" where
  "show_ipv4 (a, b, c, d) =
     fmt [show_nat a, ''.'', show_nat b, ''.'', show_nat c, ''.'', show_nat d]"

definition hex_digit :: "nat \<Rightarrow> char" where
  "hex_digit d = char_of (if d < 10 then 48 + d else 87 + d)"

fun show_hex :: "nat \<Rightarrow> string" where
  "show_hex n = (if n < 16 then [hex_digit n] else show_hex (n div 16) @ [hex_digit (n mod 16)])"

declare show_hex.simps [simp del]

text \<open>The first longest run of zero groups: its start and its length.\<close>

fun zero_run :: "nat \<Rightarrow> nat \<times> nat \<Rightarrow> nat \<times> nat \<Rightarrow> nat list \<Rightarrow> nat \<times> nat" where
  "zero_run i current longest [] = longest"
| "zero_run i current longest (g # gs) =
    (if g = 0 then
       (let current' = (if snd current = 0 then (i, 1) else (fst current, Suc (snd current)))
        in zero_run (Suc i) current' (if snd longest < snd current' then current' else longest) gs)
     else zero_run (Suc i) (0, 0) longest gs)"

definition show_groups :: "nat list \<Rightarrow> string" where
  "show_groups gs = join '':'' (map show_hex gs)"

definition show_ipv6 :: "nat list \<Rightarrow> string" where
  "show_ipv6 gs =
    (if take 6 gs = [0, 0, 0, 0, 0, 65535] then
       fmt [''::ffff:'', show_ipv4 (gs ! 6 div 256, gs ! 6 mod 256, gs ! 7 div 256, gs ! 7 mod 256)]
     else
       (case zero_run 0 (0, 0) (0, 0) gs of
          (start, len) \<Rightarrow>
            if 1 < len then
              fmt [show_groups (take start gs), ''::'', show_groups (drop (start + len) gs)]
            else show_groups gs))"

fun show_addr :: "socket_addr \<Rightarrow> string" where
  "show_addr (V4 ip port) = fmt [show_ipv4 ip, '':'', show_nat port]"
| "show_addr (V6 ip scope port) =
    (if scope = 0 then fmt [''['', show_ipv6 ip, '']:'', show_nat port]
     else fmt [''['', show_ipv6 ip, ''%'', show_nat scope, '']:'', show_nat port])"

section \<open>Reading back an IPv4 address\<close>

lemma to_digit_decimal:
  "is_digit c \<Longrightarrow> to_digit 10 c = Some (of_char c - 48)"
  "\<not> is_digit c \<Longrightarrow> to_digit 10 c = None"
  by (auto simp: is_digit_def to_digit_def Let_def)

lemma foldl_digits_ge: "(acc::nat) \<le> foldl (\<lambda>acc c. 10 * acc + (of_char c - 48)) acc ds"
proof (induction ds arbitrary: acc)
  case (Cons c ds)
  have "acc \<le> 10 * acc + (of_char c - 48)" by simp
  also have "\<dots> \<le> foldl (\<lambda>acc c. 10 * acc + (of_char c - 48)) (10 * acc + (of_char c - 48)) ds"
    by (rule Cons)
  finally show ?case by simp
qed simp

lemma read_digits_decimal:
  assumes "list_all is_digit ds" "rest = [] \<or> \<not> is_digit (hd rest)"
    and "foldl (\<lambda>acc c. 10 * acc + (of_char c - 48)) acc ds < bound"
    and "case mx of None \<Rightarrow> True | Some m \<Rightarrow> k + length ds \<le> m"
  shows "read_digits 10 mx bound k acc (ds @ rest) =
           Some (foldl (\<lambda>acc c. 10 * acc + (of_char c - 48)) acc ds, k + length ds, rest)"
  using assms
proof (induction ds arbitrary: k acc)
  case Nil
  then show ?case
    by (cases rest) (auto simp: to_digit_decimal)
next
  case (Cons c ds)
  then have "10 * acc + (of_char c - 48) < bound"
    using foldl_digits_ge [of "10 * acc + (of_char c - 48)" ds] by simp
  moreover have "\<not> (case mx of Some m \<Rightarrow> m < Suc k | None \<Rightarrow> False)"
    using Cons.prems(4) by (auto split: option.splits)
  ultimately show ?case
    using Cons.prems Cons.IH [of "10 * acc + (of_char c - 48)" "Suc k"]
    by (simp add: to_digit_decimal not_le split: option.splits)
qed

lemma show_nat_head: "prefix ''0'' (show_nat n) \<Longrightarrow> length (show_nat n) = 1"
proof (induction n rule: show_nat.induct)
  case (1 n)
  show ?case
  proof (cases "n < 10")
    case False
    then have e: "show_nat n = show_nat (n div 10) @ [digit (n mod 10)]"
      by (subst show_nat.simps) simp
    obtain c cs where c: "show_nat (n div 10) = c # cs"
      using show_nat_digits [of "n div 10"] by (cases "show_nat (n div 10)") auto
    with 1 e False have "length (show_nat (n div 10)) = 1" by simp
    then have "n div 10 = 0"
      using c 1(2) e show_nat_digits [of "n div 10"] by (auto simp: digits_value_def)
    with False show ?thesis by simp
  qed (simp add: show_nat.simps)
qed

lemma show_nat_length: "n < 1000 \<Longrightarrow> length (show_nat n) \<le> 3"
  by (subst show_nat.simps, subst show_nat.simps, subst show_nat.simps) auto

lemma read_number_show:
  assumes "n < bound" "rest = [] \<or> \<not> is_digit (hd rest)"
    and "case mx of None \<Rightarrow> True | Some m \<Rightarrow> length (show_nat n) \<le> m"
  shows "read_number 10 mx zero bound (show_nat n @ rest) = Some (n, rest)"
proof -
  have d: "list_all is_digit (show_nat n)" "show_nat n \<noteq> []" "digits_value (show_nat n) = n"
    using show_nat_digits [of n] by auto
  then have "read_digits 10 mx bound 0 0 (show_nat n @ rest) = Some (n, length (show_nat n), rest)"
    using read_digits_decimal [where ds = "show_nat n" and rest = rest and acc = 0 and bound = bound and mx = mx and k = 0] assms
    by (simp add: digits_value_def split: option.splits)
  moreover have "prefix ''0'' (show_nat n @ rest) \<Longrightarrow> length (show_nat n) = 1"
    using show_nat_head [of n] d(2) by (cases "show_nat n") auto
  ultimately show ?thesis
    using d(2) by (auto simp: read_number_def)
qed

lemma read_octet_show:
  assumes "n < 256" "rest = [] \<or> \<not> is_digit (hd rest)"
  shows "read_octet 0 (show_nat n @ rest) = Some (n, rest)"
    and "0 < i \<Longrightarrow> read_octet i (CHR ''.'' # show_nat n @ rest) = Some (n, rest)"
  using read_number_show [of n 256 rest "Some 3"] show_nat_length [of n] assms
  by (simp_all add: read_octet_def read_separator_def read_given_char_def)

lemma separator_not_digit [simp]: "\<not> is_digit (CHR ''.'')" "\<not> is_digit (CHR '':'')"
  by (simp_all add: is_digit_def)

lemma parse_show_v4:
  assumes "a < 256" "b < 256" "c < 256" "d < 256" "port < 65536"
  shows "parse_addr (show_addr (V4 (a, b, c, d) port)) = Some (V4 (a, b, c, d) port)"
proof -
  have "read_ipv4 (show_nat a @ ''.'' @ show_nat b @ ''.'' @ show_nat c @ ''.'' @ show_nat d @ '':'' @ show_nat port) =
      Some ((a, b, c, d), '':'' @ show_nat port)"
    using assms by (simp add: read_ipv4_def read_octet_show)
  moreover have "read_port ('':'' @ show_nat port) = Some (port, [])"
    using read_number_show [of port 65536 "[]" None] assms(5)
    by (simp add: read_port_def read_given_char_def)
  ultimately show ?thesis
    by (simp add: parse_addr_def read_v4_def fmt_def)
qed

section \<open>What a parsed address is\<close>

fun addr_ok :: "socket_addr \<Rightarrow> bool" where
  "addr_ok (V4 (a, b, c, d) port) = (a < 256 \<and> b < 256 \<and> c < 256 \<and> d < 256 \<and> port < 65536)"
| "addr_ok (V6 gs scope port) =
     (length gs = 8 \<and> list_all (\<lambda>g. g < 65536) gs \<and> scope < 2 ^ 32 \<and> port < 65536)"

lemma read_digits_bound:
  "read_digits radix mx bound k acc s = Some (n, k', rest) \<Longrightarrow> acc < bound \<Longrightarrow> n < bound"
  by (induction radix mx bound k acc s rule: read_digits.induct) (auto split: option.splits if_splits)

lemma read_number_bound: "read_number radix mx z bound s = Some (n, rest) \<Longrightarrow> 0 < bound \<Longrightarrow> n < bound"
  by (auto simp: read_number_def split: option.splits if_splits dest: read_digits_bound)

lemma read_separator_Some:
  "read_separator c i f s = Some x \<Longrightarrow> \<exists>s'. f s' = Some x"
  by (auto simp: read_separator_def bind_eq_Some_conv split: if_splits)

lemma read_octet_bound: "read_octet i s = Some (n, rest) \<Longrightarrow> n < 256"
  using read_number_bound by (fastforce simp: read_octet_def dest: read_separator_Some)

lemma read_ipv4_bound:
  "read_ipv4 s = Some ((a, b, c, d), rest) \<Longrightarrow> a < 256 \<and> b < 256 \<and> c < 256 \<and> d < 256"
  by (auto simp: read_ipv4_def bind_eq_Some_conv dest: read_octet_bound)

lemma read_groups_bound:
  "read_groups limit i s = (gs, v4, rest) \<Longrightarrow>
     length gs \<le> limit - i \<and> list_all (\<lambda>g. g < 65536) gs"
proof (induction limit i s arbitrary: gs v4 rest rule: read_groups.induct)
  case (1 limit i s)
  consider "limit \<le> i"
    | a b c d r where "i < limit" "i < limit - 1" "read_separator (CHR '':'') i read_ipv4 s = Some ((a, b, c, d), r)"
    | "i < limit" "(if i < limit - 1 then read_separator (CHR '':'') i read_ipv4 s else None) = None"
    by (cases "limit \<le> i"; cases "if i < limit - 1 then read_separator (CHR '':'') i read_ipv4 s else None")
      (auto split: if_splits)
  then show ?case
  proof cases
    case 1
    then show ?thesis using \<open>read_groups limit i s = (gs, v4, rest)\<close> by (subst (asm) read_groups.simps) simp
  next
    case 2
    then have "a < 256 \<and> b < 256 \<and> c < 256 \<and> d < 256"
      using read_separator_Some [OF 2(3)] read_ipv4_bound by blast
    then show ?thesis
      using 2 \<open>read_groups limit i s = (gs, v4, rest)\<close> by (subst (asm) read_groups.simps) auto
  next
    case 3
    show ?thesis
    proof (cases "read_separator (CHR '':'') i (read_number 16 (Some 4) True 65536) s")
      case None
      then show ?thesis
        using 3 \<open>read_groups limit i s = (gs, v4, rest)\<close> by (subst (asm) read_groups.simps) auto
    next
      case (Some x)
      obtain g r where x: "x = (g, r)" by force
      obtain gs' v4' r' where rec: "read_groups limit (Suc i) r = (gs', v4', r')"
        by (cases "read_groups limit (Suc i) r") auto
      have gs: "gs = g # gs'"
        using 3 Some x rec \<open>read_groups limit i s = (gs, v4, rest)\<close> by (subst (asm) read_groups.simps) auto
      have "g < 65536" using read_separator_Some [OF Some] read_number_bound x by fastforce
      moreover have "length gs' \<le> limit - Suc i \<and> list_all (\<lambda>g. g < 65536) gs'"
        using "1.IH" [OF _ 3(2) Some x [symmetric] rec] 3(1) by simp
      ultimately show ?thesis using 3(1) gs by auto
    qed
  qed
qed

lemma read_ipv6_bound:
  assumes "read_ipv6 s = Some (gs, rest)"
  shows "length gs = 8 \<and> list_all (\<lambda>g. g < 65536) gs"
proof -
  obtain f v4 s1 where f: "read_groups 8 0 s = (f, v4, s1)" by (cases "read_groups 8 0 s") auto
  note F = read_groups_bound [OF f]
  show ?thesis
  proof (cases "length f = 8")
    case True
    then show ?thesis using assms F by (auto simp: read_ipv6_def f)
  next
    case False
    then obtain s2 where s2: "(let (bk, _, s3) = read_groups (7 - length f) 0 s2
         in Some (f @ replicate (8 - (length f + length bk)) 0 @ bk, s3)) = Some (gs, rest)"
      using assms by (auto simp: read_ipv6_def f bind_eq_Some_conv Let_def split: if_splits)
    obtain bk w s3 where b: "read_groups (7 - length f) 0 s2 = (bk, w, s3)"
      by (cases "read_groups (7 - length f) 0 s2") auto
    have gs: "gs = f @ replicate (8 - (length f + length bk)) 0 @ bk" using s2 by (simp add: b)
    show ?thesis using F read_groups_bound [OF b] False by (auto simp: gs list_all_iff)
  qed
qed

lemma read_port_bound: "read_port s = Some (p, rest) \<Longrightarrow> p < 65536"
  by (auto simp: read_port_def bind_eq_Some_conv dest: read_number_bound)

lemma read_scope_id_bound: "read_scope_id s = Some (n, rest) \<Longrightarrow> n < 2 ^ 32"
  by (auto simp: read_scope_id_def bind_eq_Some_conv dest: read_number_bound)

lemma parse_addr_ok:
  assumes "parse_addr s = Some a"
  shows "addr_ok a"
proof -
  have v4: "addr_ok x" if "read_v4 s = Some (x, r)" for x r
    using that by (auto simp: read_v4_def bind_eq_Some_conv dest: read_ipv4_bound read_port_bound)
  have v6: "addr_ok x" if v: "read_v6 s = Some (x, r)" for x r
  proof -
    obtain s1 ip s2 where ip: "read_ipv6 s1 = Some (ip, s2)"
        and rest: "(let (scope, s3) = (case read_scope_id s2 of Some y \<Rightarrow> y | None \<Rightarrow> (0, s2)) in
            Option.bind (read_given_char (CHR '']'') s3) (\<lambda>s4.
            Option.bind (read_port s4) (\<lambda>(port, s5). Some (V6 ip scope port, s5)))) = Some (x, r)"
      using v by (auto simp: read_v6_def bind_eq_Some_conv)
    obtain scope s3 where sc: "(case read_scope_id s2 of Some y \<Rightarrow> y | None \<Rightarrow> (0, s2)) = (scope, s3)"
      by (cases "case read_scope_id s2 of Some y \<Rightarrow> y | None \<Rightarrow> (0, s2)") auto
    obtain s4 port where "read_port s4 = Some (port, r)" "x = V6 ip scope port"
      using rest by (auto simp: sc bind_eq_Some_conv)
    with ip sc have "read_ipv6 s1 = Some (ip, s2)" "read_port s4 = Some (port, r)" "x = V6 ip scope port"
        "(case read_scope_id s2 of Some y \<Rightarrow> y | None \<Rightarrow> (0, s2)) = (scope, s3)"
      by simp_all
    then show ?thesis
      using read_ipv6_bound read_port_bound read_scope_id_bound
      by (auto split: option.splits)
  qed
  show ?thesis using assms v4 v6 by (auto simp: parse_addr_def split: option.splits list.splits)
qed
end
