(* ===== verification/Config.thy ===== *)
theory Config
  imports Message Socket_Addr
begin

text \<open>
  \<open>src/config.rs\<close>: the configuration, its defaults, what a TOML document decodes to, the overrides
  from the environment and the validation. Parsing TOML text is the \<open>toml\<close> crate's business and an
  argument; decoding the tree it gives is defined here, as serde derives it: from a table by field
  name, from an array by position.
\<close>

section \<open>The records\<close>

record server_info =
  si_name :: string
  si_version :: string
  instructions :: string

record server_config =
  bind_addr :: socket_addr
  log_level :: string
  json_logging :: bool
  cors_origins :: "string list"
  enable_stdio :: bool
  enable_http :: bool
  enable_sse :: bool
  server_info :: server_info

record auth_config =
  auth_enabled :: bool
  jwt_secret :: "string option"
  jwks_url :: "string option"
  issuer :: "string option"
  audience :: "string option"
  prm_url :: string
  authorization_server :: "string option"
  required_scopes :: "string list"

record upstream_config =
  uc_transport :: string
  uc_url :: "string option"
  uc_command :: "string option"
  uc_args :: "string list"
  uc_env :: "string hmap"
  uc_echo_server :: bool

record proxy_config =
  upstreams :: "upstream_config hmap"
  request_timeout_secs :: u64
  max_concurrent_requests :: u64

record registry_config =
  rc_allowed_prefixes :: "string list"
  rc_enforce_prefix_format :: bool

record policy_config =
  policy_enabled :: bool
  policy_file :: string

record guardrails_config =
  ecpa_enabled :: bool
  egress_enabled :: bool
  session_locking :: bool

record telemetry_config =
  metrics_path :: string
  metrics_addr :: socket_addr
  kafka_bootstrap_servers :: "string list"
  tm_kafka_topic :: string
  clickhouse_url :: "string option"

record config =
  server_section :: server_config
  auth_section :: auth_config
  proxy_section :: proxy_config
  registry_section :: registry_config
  policy_section :: policy_config
  guardrails_section :: guardrails_config
  telemetry_section :: telemetry_config

section \<open>Defaults\<close>

text \<open>The two literals parse, so the \<open>unwrap\<close> does not panic (lemma \<open>default_addrs\<close>).\<close>

definition default_bind_addr :: socket_addr where
  "default_bind_addr = the (parse_addr ''0.0.0.0:8080'')"

definition default_log_level :: string where "default_log_level = ''info''"
definition default_true :: bool where "default_true = True"
definition default_server_name :: string where "default_server_name = ''mcp-shield''"
definition default_server_version :: string where "default_server_version = CARGO_PKG_VERSION"
definition default_prm_url :: string where "default_prm_url = ''/.well-known/oauth-protected-resource''"

definition default_scopes :: "string list" where
  "default_scopes = [''mcp:tools:read'', ''mcp:tools:call'']"

definition default_timeout :: u64 where "default_timeout = 30"
definition default_max_concurrent :: u64 where "default_max_concurrent = 100"
definition default_transport :: string where "default_transport = ''streamable_http''"
definition default_metrics_path :: string where "default_metrics_path = ''/metrics''"

definition default_metrics_addr :: socket_addr where
  "default_metrics_addr = the (parse_addr ''0.0.0.0:9090'')"

definition default_kafka_topic :: string where "default_kafka_topic = ''mcp-shield-audit''"
definition default_policy_file :: string where "default_policy_file = ''policies/default.cedar''"

definition server_info_default :: server_info where
  "server_info_default =
     \<lparr>si_name = default_server_name, si_version = default_server_version, instructions = []\<rparr>"

definition server_config_default :: server_config where
  "server_config_default =
     \<lparr>bind_addr = default_bind_addr, log_level = default_log_level, json_logging = True,
      cors_origins = [], enable_stdio = False, enable_http = True, enable_sse = True,
      server_info = server_info_default\<rparr>"

definition auth_config_default :: auth_config where
  "auth_config_default =
     \<lparr>auth_enabled = False, jwt_secret = None, jwks_url = None, issuer = None, audience = None,
      prm_url = default_prm_url, authorization_server = None, required_scopes = default_scopes\<rparr>"

definition proxy_config_default :: proxy_config where
  "proxy_config_default =
     \<lparr>upstreams = [], request_timeout_secs = default_timeout,
      max_concurrent_requests = default_max_concurrent\<rparr>"

definition registry_config_default :: registry_config where
  "registry_config_default = \<lparr>rc_allowed_prefixes = [], rc_enforce_prefix_format = True\<rparr>"

definition telemetry_config_default :: telemetry_config where
  "telemetry_config_default =
     \<lparr>metrics_path = default_metrics_path, metrics_addr = default_metrics_addr,
      kafka_bootstrap_servers = [], tm_kafka_topic = default_kafka_topic, clickhouse_url = None\<rparr>"

definition policy_config_default :: policy_config where
  "policy_config_default = \<lparr>policy_enabled = False, policy_file = default_policy_file\<rparr>"

definition guardrails_config_default :: guardrails_config where
  "guardrails_config_default =
     \<lparr>ecpa_enabled = False, egress_enabled = False, session_locking = False\<rparr>"

definition config_default :: config where
  "config_default =
     \<lparr>server_section = server_config_default, auth_section = auth_config_default,
      proxy_section = proxy_config_default, registry_section = registry_config_default,
      policy_section = policy_config_default, guardrails_section = guardrails_config_default,
      telemetry_section = telemetry_config_default\<rparr>"

section \<open>Decoding\<close>

datatype toml =
    TomlStr string
  | TomlInt i64
  | TomlFloat "64 word"
  | TomlBool bool
  | TomlDatetime string
  | TomlArr "toml list"
  | TomlTable "(string \<times> toml) list"

text \<open>Every field has a default; surplus array elements are not looked at.\<close>

fun toml_seq :: "string list \<Rightarrow> toml list \<Rightarrow> toml option list" where
  "toml_seq [] xs = []"
| "toml_seq (_ # fs) [] = None # toml_seq fs []"
| "toml_seq (_ # fs) (x # xs) = Some x # toml_seq fs xs"

definition toml_fields :: "string list \<Rightarrow> toml \<Rightarrow> toml option list option" where
  "toml_fields fs v =
    (case v of
       TomlTable m \<Rightarrow> Some (map (map_of m) fs)
     | TomlArr xs \<Rightarrow> Some (toml_seq fs xs)
     | _ \<Rightarrow> None)"

definition or_default :: "'a \<Rightarrow> (toml \<Rightarrow> 'a option) \<Rightarrow> toml option \<Rightarrow> 'a option" where
  "or_default dflt d x = (case x of None \<Rightarrow> Some dflt | Some v \<Rightarrow> d v)"

fun toml_str :: "toml \<Rightarrow> string option" where
  "toml_str (TomlStr s) = Some s"
| "toml_str _ = None"

fun toml_bool :: "toml \<Rightarrow> bool option" where
  "toml_bool (TomlBool b) = Some b"
| "toml_bool _ = None"

text \<open>A \<open>u64\<close> or a \<open>usize\<close>: a negative integer is refused.\<close>

fun toml_u64 :: "toml \<Rightarrow> u64 option" where
  "toml_u64 (TomlInt w) = (if 0 \<le> sint w then Some w else None)"
| "toml_u64 _ = None"

definition toml_addr :: "toml \<Rightarrow> socket_addr option" where
  "toml_addr v = Option.bind (toml_str v) parse_addr"

definition toml_some :: "(toml \<Rightarrow> 'a option) \<Rightarrow> toml \<Rightarrow> 'a option option" where
  "toml_some d v = map_option Some (d v)"

fun toml_list :: "(toml \<Rightarrow> 'a option) \<Rightarrow> toml \<Rightarrow> 'a list option" where
  "toml_list d (TomlArr xs) = those (map d xs)"
| "toml_list d _ = None"

fun toml_map :: "(toml \<Rightarrow> 'a option) \<Rightarrow> toml \<Rightarrow> 'a hmap option" where
  "toml_map d (TomlTable m) =
     map_option (\<lambda>kvs. fold (\<lambda>(k, v). hm_insert k v) kvs [])
       (those (map (\<lambda>(k, v). map_option (Pair k) (d v)) m))"
| "toml_map d _ = None"

definition server_info_from_toml :: "toml \<Rightarrow> server_info option" where
  "server_info_from_toml v =
    (case toml_fields [''name'', ''version'', ''instructions''] v of
       Some [a, b, c] \<Rightarrow>
         Option.bind (or_default default_server_name toml_str a) (\<lambda>n.
         Option.bind (or_default default_server_version toml_str b) (\<lambda>ver.
         Option.bind (or_default [] toml_str c) (\<lambda>ins.
           Some \<lparr>si_name = n, si_version = ver, instructions = ins\<rparr>)))
     | _ \<Rightarrow> None)"

definition server_config_from_toml :: "toml \<Rightarrow> server_config option" where
  "server_config_from_toml v =
    (case toml_fields [''bind_addr'', ''log_level'', ''json_logging'', ''cors_origins'', ''enable_stdio'',
                       ''enable_http'', ''enable_sse'', ''server_info''] v of
       Some [a, b, c, d, e, f, g, h] \<Rightarrow>
         Option.bind (or_default default_bind_addr toml_addr a) (\<lambda>addr.
         Option.bind (or_default default_log_level toml_str b) (\<lambda>lvl.
         Option.bind (or_default default_true toml_bool c) (\<lambda>jl.
         Option.bind (or_default [] (toml_list toml_str) d) (\<lambda>cors.
         Option.bind (or_default False toml_bool e) (\<lambda>stdio.
         Option.bind (or_default default_true toml_bool f) (\<lambda>http.
         Option.bind (or_default default_true toml_bool g) (\<lambda>sse.
         Option.bind (or_default server_info_default server_info_from_toml h) (\<lambda>info.
           Some \<lparr>bind_addr = addr, log_level = lvl, json_logging = jl, cors_origins = cors,
                 enable_stdio = stdio, enable_http = http, enable_sse = sse, server_info = info\<rparr>))))))))
     | _ \<Rightarrow> None)"

definition auth_config_from_toml :: "toml \<Rightarrow> auth_config option" where
  "auth_config_from_toml v =
    (case toml_fields [''enabled'', ''jwt_secret'', ''jwks_url'', ''issuer'', ''audience'', ''prm_url'',
                       ''authorization_server'', ''required_scopes''] v of
       Some [a, b, c, d, e, f, g, h] \<Rightarrow>
         Option.bind (or_default False toml_bool a) (\<lambda>en.
         Option.bind (or_default None (toml_some toml_str) b) (\<lambda>secret.
         Option.bind (or_default None (toml_some toml_str) c) (\<lambda>jwks.
         Option.bind (or_default None (toml_some toml_str) d) (\<lambda>iss.
         Option.bind (or_default None (toml_some toml_str) e) (\<lambda>aud.
         Option.bind (or_default default_prm_url toml_str f) (\<lambda>prm.
         Option.bind (or_default None (toml_some toml_str) g) (\<lambda>srv.
         Option.bind (or_default default_scopes (toml_list toml_str) h) (\<lambda>scopes.
           Some \<lparr>auth_enabled = en, jwt_secret = secret, jwks_url = jwks, issuer = iss, audience = aud,
                 prm_url = prm, authorization_server = srv, required_scopes = scopes\<rparr>))))))))
     | _ \<Rightarrow> None)"

definition upstream_config_from_toml :: "toml \<Rightarrow> upstream_config option" where
  "upstream_config_from_toml v =
    (case toml_fields [''transport'', ''url'', ''command'', ''args'', ''env'', ''echo_server''] v of
       Some [a, b, c, d, e, f] \<Rightarrow>
         Option.bind (or_default default_transport toml_str a) (\<lambda>tr.
         Option.bind (or_default None (toml_some toml_str) b) (\<lambda>url.
         Option.bind (or_default None (toml_some toml_str) c) (\<lambda>cmd.
         Option.bind (or_default [] (toml_list toml_str) d) (\<lambda>args.
         Option.bind (or_default [] (toml_map toml_str) e) (\<lambda>env.
         Option.bind (or_default False toml_bool f) (\<lambda>echo.
           Some \<lparr>uc_transport = tr, uc_url = url, uc_command = cmd, uc_args = args, uc_env = env,
                 uc_echo_server = echo\<rparr>))))))
     | _ \<Rightarrow> None)"

definition proxy_config_from_toml :: "toml \<Rightarrow> proxy_config option" where
  "proxy_config_from_toml v =
    (case toml_fields [''upstreams'', ''request_timeout_secs'', ''max_concurrent_requests''] v of
       Some [a, b, c] \<Rightarrow>
         Option.bind (or_default [] (toml_map upstream_config_from_toml) a) (\<lambda>ups.
         Option.bind (or_default default_timeout toml_u64 b) (\<lambda>timeout.
         Option.bind (or_default default_max_concurrent toml_u64 c) (\<lambda>n.
           Some \<lparr>upstreams = ups, request_timeout_secs = timeout, max_concurrent_requests = n\<rparr>)))
     | _ \<Rightarrow> None)"

definition registry_config_from_toml :: "toml \<Rightarrow> registry_config option" where
  "registry_config_from_toml v =
    (case toml_fields [''allowed_prefixes'', ''enforce_prefix_format''] v of
       Some [a, b] \<Rightarrow>
         Option.bind (or_default [] (toml_list toml_str) a) (\<lambda>prefixes.
         Option.bind (or_default default_true toml_bool b) (\<lambda>enforce.
           Some \<lparr>rc_allowed_prefixes = prefixes, rc_enforce_prefix_format = enforce\<rparr>))
     | _ \<Rightarrow> None)"

definition policy_config_from_toml :: "toml \<Rightarrow> policy_config option" where
  "policy_config_from_toml v =
    (case toml_fields [''enabled'', ''policy_file''] v of
       Some [a, b] \<Rightarrow>
         Option.bind (or_default False toml_bool a) (\<lambda>en.
         Option.bind (or_default default_policy_file toml_str b) (\<lambda>f.
           Some \<lparr>policy_enabled = en, policy_file = f\<rparr>))
     | _ \<Rightarrow> None)"

definition guardrails_config_from_toml :: "toml \<Rightarrow> guardrails_config option" where
  "guardrails_config_from_toml v =
    (case toml_fields [''ecpa_enabled'', ''egress_enabled'', ''session_locking''] v of
       Some [a, b, c] \<Rightarrow>
         Option.bind (or_default False toml_bool a) (\<lambda>ecpa.
         Option.bind (or_default False toml_bool b) (\<lambda>egress.
         Option.bind (or_default False toml_bool c) (\<lambda>locking.
           Some \<lparr>ecpa_enabled = ecpa, egress_enabled = egress, session_locking = locking\<rparr>)))
     | _ \<Rightarrow> None)"

definition telemetry_config_from_toml :: "toml \<Rightarrow> telemetry_config option" where
  "telemetry_config_from_toml v =
    (case toml_fields [''metrics_path'', ''metrics_addr'', ''kafka_bootstrap_servers'', ''kafka_topic'',
                       ''clickhouse_url''] v of
       Some [a, b, c, d, e] \<Rightarrow>
         Option.bind (or_default default_metrics_path toml_str a) (\<lambda>path.
         Option.bind (or_default default_metrics_addr toml_addr b) (\<lambda>addr.
         Option.bind (or_default [] (toml_list toml_str) c) (\<lambda>servers.
         Option.bind (or_default default_kafka_topic toml_str d) (\<lambda>topic.
         Option.bind (or_default None (toml_some toml_str) e) (\<lambda>click.
           Some \<lparr>metrics_path = path, metrics_addr = addr, kafka_bootstrap_servers = servers,
                 tm_kafka_topic = topic, clickhouse_url = click\<rparr>)))))
     | _ \<Rightarrow> None)"

definition config_from_toml :: "toml \<Rightarrow> config option" where
  "config_from_toml v =
    (case toml_fields [''server'', ''auth'', ''proxy'', ''registry'', ''policy'', ''guardrails'',
                       ''telemetry''] v of
       Some [a, b, c, d, e, f, g] \<Rightarrow>
         Option.bind (or_default server_config_default server_config_from_toml a) (\<lambda>srv.
         Option.bind (or_default auth_config_default auth_config_from_toml b) (\<lambda>auth.
         Option.bind (or_default proxy_config_default proxy_config_from_toml c) (\<lambda>prx.
         Option.bind (or_default registry_config_default registry_config_from_toml d) (\<lambda>reg.
         Option.bind (or_default policy_config_default policy_config_from_toml e) (\<lambda>pol.
         Option.bind (or_default guardrails_config_default guardrails_config_from_toml f) (\<lambda>gr.
         Option.bind (or_default telemetry_config_default telemetry_config_from_toml g) (\<lambda>tel.
           Some \<lparr>server_section = srv, auth_section = auth, proxy_section = prx,
                 registry_section = reg, policy_section = pol, guardrails_section = gr,
                 telemetry_section = tel\<rparr>)))))))
     | _ \<Rightarrow> None)"

section \<open>Loading\<close>

text \<open>The \<open>toml\<close> crate: the tree of a text, and its message for a tree of the wrong shape.\<close>

record toml_crate =
  tc_parse :: "string \<Rightarrow> (toml, string) result"
  tc_message :: "toml \<Rightarrow> string"

definition config_from_str :: "toml_crate \<Rightarrow> string \<Rightarrow> (config, string) result" where
  "config_from_str T content =
    (case tc_parse T content of
       Err e \<Rightarrow> Err e
     | Ok v \<Rightarrow> ok_or (tc_message T v) (config_from_toml v))"

text \<open>The outcome of reading the file is an argument.\<close>

definition config_from_file :: "toml_crate \<Rightarrow> (string, string) result \<Rightarrow> (config, string) result" where
  "config_from_file T content = bind_result content (config_from_str T)"

type_synonym env_vars = "string \<Rightarrow> string option"

definition override :: "string option \<Rightarrow> (string \<Rightarrow> 'c \<Rightarrow> 'c) \<Rightarrow> 'c \<Rightarrow> 'c" where
  "override x f c = (case x of Some s \<Rightarrow> f s c | None \<Rightarrow> c)"

definition load_with_env :: "env_vars \<Rightarrow> config \<Rightarrow> config" where
  "load_with_env vars c =
    (let srv = server_section c;
         srv1 = override (vars ''MCP_SHIELD_SERVER_BIND_ADDR'')
                  (\<lambda>s x. case parse_addr s of Some a \<Rightarrow> x\<lparr>bind_addr := a\<rparr> | None \<Rightarrow> x) srv;
         srv2 = override (vars ''MCP_SHIELD_SERVER_LOG_LEVEL'') (\<lambda>s x. x\<lparr>log_level := s\<rparr>) srv1;
         au1 = override (vars ''MCP_SHIELD_AUTH_ENABLED'')
                 (\<lambda>s x. x\<lparr>auth_enabled := (s = ''true'' \<or> s = ''1'')\<rparr>) (auth_section c);
         au2 = override (vars ''MCP_SHIELD_AUTH_JWT_SECRET'') (\<lambda>s x. x\<lparr>jwt_secret := Some s\<rparr>) au1;
         au3 = override (vars ''MCP_SHIELD_AUTH_JWKS_URL'') (\<lambda>s x. x\<lparr>jwks_url := Some s\<rparr>) au2
     in c\<lparr>server_section := srv2, auth_section := au3\<rparr>)"

definition NO_KEY_SOURCE :: string where
  "NO_KEY_SOURCE = ''Auth is enabled but neither jwt_secret nor jwks_url is configured''"

definition TWO_KEY_SOURCES :: string where
  "TWO_KEY_SOURCES = ''Both jwt_secret and jwks_url are set; only one should be used''"

text \<open>The warning about a gateway without upstreams is only logged.\<close>

definition validate :: "config \<Rightarrow> string list" where
  "validate c =
    (let a = auth_section c
     in if auth_enabled a then
          (if jwt_secret a = None \<and> jwks_url a = None then [NO_KEY_SOURCE] else []) @
          (if jwt_secret a \<noteq> None \<and> jwks_url a \<noteq> None then [TWO_KEY_SOURCES] else [])
        else [])"

section \<open>Properties\<close>

lemma default_addrs:
  "default_bind_addr = V4 (0, 0, 0, 0) 8080" "default_metrics_addr = V4 (0, 0, 0, 0) 9090"
proof -
  have "show_addr (V4 (0, 0, 0, 0) 8080) = ''0.0.0.0:8080''"
    "show_addr (V4 (0, 0, 0, 0) 9090) = ''0.0.0.0:9090''"
    by (simp_all add: fmt_def show_nat.simps digit_def char_of_eq_iff)
  then show "default_bind_addr = V4 (0, 0, 0, 0) 8080" "default_metrics_addr = V4 (0, 0, 0, 0) 9090"
    using parse_show_v4 [of 0 0 0 0 8080] parse_show_v4 [of 0 0 0 0 9090]
    by (simp_all add: default_bind_addr_def default_metrics_addr_def)
qed

lemmas section_decoders =
  config_from_toml_def server_config_from_toml_def server_info_from_toml_def auth_config_from_toml_def
  proxy_config_from_toml_def registry_config_from_toml_def policy_config_from_toml_def
  guardrails_config_from_toml_def telemetry_config_from_toml_def

lemmas section_defaults =
  config_default_def server_config_default_def server_info_default_def auth_config_default_def
  proxy_config_default_def registry_config_default_def policy_config_default_def
  guardrails_config_default_def telemetry_config_default_def

lemma or_default_simps [simp]: "or_default x d None = Some x" "or_default x d (Some v) = d v"
  by (simp_all add: or_default_def)

text \<open>The sections of a document, each an empty table or left out.\<close>

definition section_names :: "string list" where
  "section_names =
     [''server'', ''auth'', ''proxy'', ''registry'', ''policy'', ''guardrails'', ''telemetry'']"

lemma empty_sections:
  "server_config_from_toml (TomlTable []) = Some server_config_default"
  "auth_config_from_toml (TomlTable []) = Some auth_config_default"
  "proxy_config_from_toml (TomlTable []) = Some proxy_config_default"
  "registry_config_from_toml (TomlTable []) = Some registry_config_default"
  "policy_config_from_toml (TomlTable []) = Some policy_config_default"
  "guardrails_config_from_toml (TomlTable []) = Some guardrails_config_default"
  "telemetry_config_from_toml (TomlTable []) = Some telemetry_config_default"
  by (simp_all add: section_decoders section_defaults toml_fields_def default_true_def)

text \<open>The two ways a default is given agree: a document whose sections are empty tables, or that
  leaves any of them out, decodes to exactly the configuration that \<open>Default\<close> gives, although the
  code states the defaults twice (as serde defaults per field and in the \<open>Default\<close> impls).\<close>

theorem defaults_agree:
  assumes "set m \<subseteq> (\<lambda>k. (k, TomlTable [])) ` UNIV"
  shows "config_from_toml (TomlTable m) = Some config_default"
proof -
  have m: "map_of m k = None \<or> map_of m k = Some (TomlTable [])" for k
    using assms map_of_SomeD [of m k] by (cases "map_of m k") auto
  have d: "or_default x d (map_of m k) = Some x" if "d (TomlTable []) = Some x" for x :: 'z and d k
    using m [of k] that by auto
  show ?thesis
    by (simp add: config_from_toml_def toml_fields_def config_default_def d empty_sections)
qed

lemma defaults_agree_witness:
  "config_from_toml (TomlTable [(''auth'', TomlTable []), (''other'', TomlTable [])]) = Some config_default"
  by (rule defaults_agree) auto
text \<open>The settings an environment cannot reach.\<close>

definition file_only :: "config \<Rightarrow> config" where
  "file_only c =
     c\<lparr>server_section := (server_section c)\<lparr>bind_addr := default_bind_addr, log_level := []\<rparr>,
       auth_section := (auth_section c)\<lparr>auth_enabled := False, jwt_secret := None, jwks_url := None\<rparr>\<rparr>"

lemma override_simps [simp]: "override None f c = c" "override (Some s) f c = f s c"
  by (simp_all add: override_def)

text \<open>Validation finds an issue exactly when authentication is enabled and not exactly one of the
  two key sources is set; it never finds more than one. Any other setting passes, a limit of zero
  concurrent requests or two disabled transports included.\<close>

theorem validation_exact:
  "(validate c = [] \<longleftrightarrow>
      (if auth_enabled (auth_section c)
       then (jwt_secret (auth_section c) = None) \<noteq> (jwks_url (auth_section c) = None) else True)) \<and>
   length (validate c) \<le> 1"
  by (auto simp: validate_def Let_def)

text \<open>A setting of a document: by the name of its section and its own, or by their positions in arrays.\<close>

definition toml_at :: "string \<times> nat \<Rightarrow> toml \<Rightarrow> toml option" where
  "toml_at f v =
    (case v of
       TomlTable m \<Rightarrow> map_of m (fst f)
     | TomlArr xs \<Rightarrow> if snd f < length xs then Some (xs ! snd f) else None
     | _ \<Rightarrow> None)"

definition setting :: "string \<times> nat \<Rightarrow> string \<times> nat \<Rightarrow> toml \<Rightarrow> toml option" where
  "setting s f v = Option.bind (toml_at s v) (toml_at f)"

definition setting_or :: "'a \<Rightarrow> (toml \<Rightarrow> 'a option) \<Rightarrow> toml option \<Rightarrow> 'a" where
  "setting_or dflt d x = (case Option.bind x d of Some a \<Rightarrow> a | None \<Rightarrow> dflt)"

lemma setting_or_simps:
  "setting_or False toml_bool x \<longleftrightarrow> x = Some (TomlBool True)"
  "setting_or None (toml_some toml_str) x = Option.bind x toml_str"
  "setting_or t toml_str x = (case Option.bind x toml_str of Some s \<Rightarrow> s | None \<Rightarrow> t)"
  "setting_or a toml_addr x =
     (case Option.bind (Option.bind x toml_str) parse_addr of Some b \<Rightarrow> b | None \<Rightarrow> a)"
proof -
  show "setting_or False toml_bool x \<longleftrightarrow> x = Some (TomlBool True)"
  proof (cases x)
    case (Some v)
    then show ?thesis by (cases v) (simp_all add: setting_or_def)
  qed (simp add: setting_or_def)
  show "setting_or None (toml_some toml_str) x = Option.bind x toml_str"
  proof (cases x)
    case (Some v)
    then show ?thesis by (cases v) (simp_all add: setting_or_def toml_some_def)
  qed (simp add: setting_or_def)
qed (cases x; simp add: setting_or_def toml_addr_def)+

lemma toml_seq_nth: "n < length fs \<Longrightarrow> toml_seq fs xs ! n = (if n < length xs then Some (xs ! n) else None)"
proof (induction fs xs arbitrary: n rule: toml_seq.induct)
  case (2 f fs)
  then show ?case by (cases n) simp_all
next
  case (3 f fs x xs)
  then show ?case by (cases n) simp_all
qed simp

lemma toml_seq_length: "length (toml_seq fs xs) = length fs"
  by (induction fs xs rule: toml_seq.induct) simp_all

lemma toml_fields_at: "toml_fields fs v = Some ys \<Longrightarrow> n < length fs \<Longrightarrow> ys ! n = toml_at (fs ! n, n) v"
  by (auto simp: toml_fields_def toml_at_def toml_seq_nth split: toml.splits)

lemma or_default_setting: "or_default dflt d x = Some y \<Longrightarrow> y = setting_or dflt d x"
  by (cases x) (simp_all add: setting_or_def)

lemma auth_config_settings:
  assumes "auth_config_from_toml v = Some a"
  shows "auth_enabled a = setting_or False toml_bool (toml_at (''enabled'', 0) v)"
    "jwt_secret a = setting_or None (toml_some toml_str) (toml_at (''jwt_secret'', 1) v)"
    "jwks_url a = setting_or None (toml_some toml_str) (toml_at (''jwks_url'', 2) v)"
proof -
  obtain ys where ys: "toml_fields [''enabled'', ''jwt_secret'', ''jwks_url'', ''issuer'', ''audience'', ''prm_url'',
      ''authorization_server'', ''required_scopes''] v = Some ys"
    using assms by (auto simp: auth_config_from_toml_def split: option.splits)
  obtain y0 y1 y2 y3 y4 y5 y6 y7 where l: "ys = [y0, y1, y2, y3, y4, y5, y6, y7]"
    using assms by (auto simp: auth_config_from_toml_def ys split: list.splits)
  have "y0 = toml_at (''enabled'', 0) v" "y1 = toml_at (''jwt_secret'', 1) v" "y2 = toml_at (''jwks_url'', 2) v"
    using toml_fields_at [OF ys, of 0] toml_fields_at [OF ys, of 1] toml_fields_at [OF ys, of 2] by (simp_all add: l)
  then show "auth_enabled a = setting_or False toml_bool (toml_at (''enabled'', 0) v)"
    "jwt_secret a = setting_or None (toml_some toml_str) (toml_at (''jwt_secret'', 1) v)"
    "jwks_url a = setting_or None (toml_some toml_str) (toml_at (''jwks_url'', 2) v)"
    using assms by (auto simp: auth_config_from_toml_def ys l bind_eq_Some_conv dest!: or_default_setting)
qed

lemma server_config_settings:
  assumes "server_config_from_toml v = Some a"
  shows "bind_addr a = setting_or default_bind_addr toml_addr (toml_at (''bind_addr'', 0) v)"
    "log_level a = setting_or default_log_level toml_str (toml_at (''log_level'', 1) v)"
proof -
  obtain ys where ys: "toml_fields [''bind_addr'', ''log_level'', ''json_logging'', ''cors_origins'', ''enable_stdio'',
      ''enable_http'', ''enable_sse'', ''server_info''] v = Some ys"
    using assms by (auto simp: server_config_from_toml_def split: option.splits)
  obtain y0 y1 y2 y3 y4 y5 y6 y7 where l: "ys = [y0, y1, y2, y3, y4, y5, y6, y7]"
    using assms by (auto simp: server_config_from_toml_def ys split: list.splits)
  have "y0 = toml_at (''bind_addr'', 0) v" "y1 = toml_at (''log_level'', 1) v"
    using toml_fields_at [OF ys, of 0] toml_fields_at [OF ys, of 1] by (simp_all add: l)
  then show "bind_addr a = setting_or default_bind_addr toml_addr (toml_at (''bind_addr'', 0) v)"
    "log_level a = setting_or default_log_level toml_str (toml_at (''log_level'', 1) v)"
    using assms by (auto simp: server_config_from_toml_def ys l bind_eq_Some_conv dest!: or_default_setting)
qed

lemma config_sections:
  assumes "config_from_toml v = Some c"
  shows "or_default auth_config_default auth_config_from_toml (toml_at (''auth'', 1) v) = Some (auth_section c)"
    "or_default server_config_default server_config_from_toml (toml_at (''server'', 0) v) = Some (server_section c)"
proof -
  obtain ys where ys: "toml_fields [''server'', ''auth'', ''proxy'', ''registry'', ''policy'', ''guardrails'',
      ''telemetry''] v = Some ys"
    using assms by (auto simp: config_from_toml_def split: option.splits)
  obtain y0 y1 y2 y3 y4 y5 y6 where l: "ys = [y0, y1, y2, y3, y4, y5, y6]"
    using assms by (auto simp: config_from_toml_def ys split: list.splits)
  have y: "y0 = toml_at (''server'', 0) v" "y1 = toml_at (''auth'', 1) v"
    using toml_fields_at [OF ys, of 0] toml_fields_at [OF ys, of 1] by (simp_all add: l)
  have "or_default auth_config_default auth_config_from_toml y1 = Some (auth_section c)"
    "or_default server_config_default server_config_from_toml y0 = Some (server_section c)"
    using assms by (auto simp: config_from_toml_def ys l bind_eq_Some_conv)
  then show "or_default auth_config_default auth_config_from_toml (toml_at (''auth'', 1) v) = Some (auth_section c)"
    "or_default server_config_default server_config_from_toml (toml_at (''server'', 0) v) = Some (server_section c)"
    unfolding y by this+
qed

lemma config_settings:
  assumes "config_from_toml v = Some c"
  shows "auth_enabled (auth_section c) = setting_or False toml_bool (setting (''auth'', 1) (''enabled'', 0) v)"
    "jwt_secret (auth_section c) = setting_or None (toml_some toml_str) (setting (''auth'', 1) (''jwt_secret'', 1) v)"
    "jwks_url (auth_section c) = setting_or None (toml_some toml_str) (setting (''auth'', 1) (''jwks_url'', 2) v)"
    "bind_addr (server_section c) = setting_or default_bind_addr toml_addr (setting (''server'', 0) (''bind_addr'', 0) v)"
    "log_level (server_section c) = setting_or default_log_level toml_str (setting (''server'', 0) (''log_level'', 1) v)"
proof -
  have "auth_enabled (auth_section c) = setting_or False toml_bool (setting (''auth'', 1) (''enabled'', 0) v) \<and>
    jwt_secret (auth_section c) = setting_or None (toml_some toml_str) (setting (''auth'', 1) (''jwt_secret'', 1) v) \<and>
    jwks_url (auth_section c) = setting_or None (toml_some toml_str) (setting (''auth'', 1) (''jwks_url'', 2) v)"
  proof (cases "toml_at (''auth'', 1) v")
    case None
    then have "auth_section c = auth_config_default" using config_sections(1) [OF assms] by simp
    then show ?thesis by (simp add: None [simplified] setting_def setting_or_def auth_config_default_def)
  next
    case (Some w)
    then have "auth_config_from_toml w = Some (auth_section c)" using config_sections(1) [OF assms] by simp
    from auth_config_settings [OF this] show ?thesis by (simp add: Some [simplified] setting_def)
  qed
  moreover have "bind_addr (server_section c) = setting_or default_bind_addr toml_addr (setting (''server'', 0) (''bind_addr'', 0) v) \<and>
    log_level (server_section c) = setting_or default_log_level toml_str (setting (''server'', 0) (''log_level'', 1) v)"
  proof (cases "toml_at (''server'', 0) v")
    case None
    then have "server_section c = server_config_default" using config_sections(2) [OF assms] by simp
    then show ?thesis by (simp add: None setting_def setting_or_def server_config_default_def)
  next
    case (Some w)
    then have "server_config_from_toml w = Some (server_section c)" using config_sections(2) [OF assms] by simp
    from server_config_settings [OF this] show ?thesis by (simp add: Some [simplified] setting_def)
  qed
  ultimately show
    "auth_enabled (auth_section c) = setting_or False toml_bool (setting (''auth'', 1) (''enabled'', 0) v)"
    "jwt_secret (auth_section c) = setting_or None (toml_some toml_str) (setting (''auth'', 1) (''jwt_secret'', 1) v)"
    "jwks_url (auth_section c) = setting_or None (toml_some toml_str) (setting (''auth'', 1) (''jwks_url'', 2) v)"
    "bind_addr (server_section c) = setting_or default_bind_addr toml_addr (setting (''server'', 0) (''bind_addr'', 0) v)"
    "log_level (server_section c) = setting_or default_log_level toml_str (setting (''server'', 0) (''log_level'', 1) v)"
    by blast+
qed

lemma load_with_env_fields:
  "file_only (load_with_env vars c) = file_only c"
  "auth_enabled (auth_section (load_with_env vars c)) =
     (case vars ''MCP_SHIELD_AUTH_ENABLED'' of Some s \<Rightarrow> s = ''true'' \<or> s = ''1'' | None \<Rightarrow> auth_enabled (auth_section c))"
  "jwt_secret (auth_section (load_with_env vars c)) =
     (case vars ''MCP_SHIELD_AUTH_JWT_SECRET'' of Some s \<Rightarrow> Some s | None \<Rightarrow> jwt_secret (auth_section c))"
  "jwks_url (auth_section (load_with_env vars c)) =
     (case vars ''MCP_SHIELD_AUTH_JWKS_URL'' of Some s \<Rightarrow> Some s | None \<Rightarrow> jwks_url (auth_section c))"
  "log_level (server_section (load_with_env vars c)) =
     (case vars ''MCP_SHIELD_SERVER_LOG_LEVEL'' of Some s \<Rightarrow> s | None \<Rightarrow> log_level (server_section c))"
  "bind_addr (server_section (load_with_env vars c)) =
     (case Option.bind (vars ''MCP_SHIELD_SERVER_BIND_ADDR'') parse_addr of
        Some a \<Rightarrow> a | None \<Rightarrow> bind_addr (server_section c))"
  by (simp_all add: load_with_env_def Let_def override_def file_only_def split: option.split)

lemma empty_document: "config_from_toml (TomlTable []) = Some config_default"
  by (simp add: config_from_toml_def toml_fields_def config_default_def)

end
