(* ===== verification/Echo_Server.thy ===== *)
theory Echo_Server
  imports Message
begin

text \<open>
  \<open>src/test_server/echo.rs\<close>: the built-in test server whose tools the gateway registers at start-up.
  \<open>str::to_uppercase\<close> and the text of the current time are arguments of \<open>handle_tool_call\<close>.
\<close>

section \<open>Capabilities\<close>

definition capabilities :: server_capabilities where
  "capabilities =
     \<lparr>sc_completions = Some (JObj []), sc_experimental = None, sc_logging = Some (JObj []),
      sc_prompts = Some \<lparr>pcap_list_changed = Some True\<rparr>,
      sc_resources = Some \<lparr>rcap_list_changed = Some True, rcap_subscribe = Some False\<rparr>,
      sc_tools = Some \<lparr>tcap_list_changed = Some True\<rparr>\<rparr>"

definition server_info :: implementation where
  "server_info = \<lparr>im_name = ''mcp-shield-echo'', im_version = CARGO_PKG_VERSION\<rparr>"

section \<open>Tools\<close>

definition echo_property :: "string \<Rightarrow> string \<Rightarrow> string \<Rightarrow> string \<times> json" where
  "echo_property name ty descr =
     (name, JObj [(''type'', JStr ty), (''description'', JStr descr)])"

definition object_schema :: "(string \<times> json) list \<Rightarrow> string list \<Rightarrow> json" where
  "object_schema props req =
     JObj [(''type'', JStr ''object''), (''properties'', JObj props),
           (''required'', JArr (map JStr req))]"

definition hints :: "bool \<Rightarrow> string \<Rightarrow> tool_annotations" where
  "hints idempotent title =
     \<lparr>ta_read_only_hint = Some True, ta_destructive_hint = Some False,
      ta_idempotent_hint = Some idempotent, ta_open_world_hint = Some False,
      ta_title = Some title\<rparr>"

definition ECHO_TOOL :: tool where
  "ECHO_TOOL =
     \<lparr>t_name = ''com.echo:echo'', t_description = Some ''Echoes back the input message as text.'',
      t_input_schema =
        object_schema [echo_property ''message'' ''string'' ''The message to echo back''] [''message''],
      t_annotations = Some (hints True ''Echo'')\<rparr>"

definition ADD_TOOL :: tool where
  "ADD_TOOL =
     \<lparr>t_name = ''com.echo:add'', t_description = Some ''Adds two integers and returns the sum.'',
      t_input_schema =
        object_schema [echo_property ''a'' ''integer'' ''First addend'',
                       echo_property ''b'' ''integer'' ''Second addend''] [''a'', ''b''],
      t_annotations = Some (hints True ''Add'')\<rparr>"

definition GET_TIME_TOOL :: tool where
  "GET_TIME_TOOL =
     \<lparr>t_name = ''com.echo:get_time'',
      t_description = Some ''Returns the current server time in RFC 3339 format.'',
      t_input_schema =
        JObj [(''type'', JStr ''object''), (''properties'', JObj []),
              (''additionalProperties'', JBool False)],
      t_annotations = Some (hints False ''Get Time'')\<rparr>"

definition UPPERCASE_TOOL :: tool where
  "UPPERCASE_TOOL =
     \<lparr>t_name = ''com.echo:uppercase'', t_description = Some ''Converts a string to uppercase.'',
      t_input_schema =
        object_schema [echo_property ''text'' ''string'' ''The text to convert''] [''text''],
      t_annotations = Some (hints True ''Uppercase'')\<rparr>"

definition echo_server_tools :: "tool list" where
  "echo_server_tools = [ECHO_TOOL, ADD_TOOL, GET_TIME_TOOL, UPPERCASE_TOOL]"

section \<open>Calls\<close>

definition echo_text :: "string \<Rightarrow> json" where
  "echo_text t = JObj [(''content'', JArr [JObj [(''type'', JStr ''text''), (''text'', JStr t)]])]"

definition required_arg :: "(json \<Rightarrow> 'a option) \<Rightarrow> json \<Rightarrow> string \<Rightarrow> ('a, string) result" where
  "required_arg d args k =
     ok_or (fmt [''Missing required argument '', quoted k]) (Option.bind (jget args k) d)"

text \<open>\<open>a + b\<close> on \<open>i64\<close> wraps in the release profile.\<close>

definition handle_tool_call ::
  "(string \<Rightarrow> string) \<Rightarrow> string \<Rightarrow> string \<Rightarrow> json \<Rightarrow> (json, string) result" where
  "handle_tool_call to_uppercase now name args =
    (if name = ''com.echo:echo'' then
       bind_result (required_arg as_str args ''message'') (\<lambda>m. Ok (echo_text (fmt [''Echo: '', m])))
     else if name = ''com.echo:add'' then
       bind_result (required_arg as_i64 args ''a'') (\<lambda>a.
       bind_result (required_arg as_i64 args ''b'') (\<lambda>b.
         Ok (echo_text (fmt [show_int (sint a), '' + '', show_int (sint b), '' = '',
                             show_int (sint (a + b))]))))
     else if name = ''com.echo:get_time'' then Ok (echo_text now)
     else if name = ''com.echo:uppercase'' then
       bind_result (required_arg as_str args ''text'') (\<lambda>t. Ok (echo_text (to_uppercase t)))
     else Err (fmt [''Unknown tool: '', name]))"

text \<open>Every listed tool is handled: a call of it fails at most for a missing argument.\<close>

lemma listed_tools_handled:
  "t \<in> set echo_server_tools \<Longrightarrow> handle_tool_call up now (t_name t) args \<noteq> Err (fmt [''Unknown tool: '', t_name t])"
  by (auto simp: echo_server_tools_def ECHO_TOOL_def ADD_TOOL_def GET_TIME_TOOL_def UPPERCASE_TOOL_def
      handle_tool_call_def required_arg_def fmt_def bind_result_def ok_or_def
      split: option.splits result.splits)

end
