(* ===== verification/Control_Plane.thy ===== *)
theory Control_Plane
  imports Rust_Str Json Threads
begin

text \<open>
  \<open>src/control_plane/db.rs\<close> and \<open>src/control_plane/postgres/mod.rs\<close>: tenants, policies, upstreams and
  rate limit rules, kept in memory or in a database behind an in-memory cache. A \<open>DateTime\<close> is an
  integer. The database is a parameter (\<open>pg_api\<close>): what its queries return and what its statements
  do. The order in which a table is listed is the hash map's own (\<open>hash_order\<close>).
\<close>

section \<open>Entries\<close>

record tenant =
  tn_id :: string
  tn_name :: string
  tn_active :: bool
  tn_config :: json
  tn_created_at :: int
  tn_updated_at :: int

record policy_entry =
  policy_id :: string
  pe_tenant_id :: string
  policy_text :: string
  pe_enabled :: bool
  pe_version :: "32 word"
  pe_created_at :: int
  pe_updated_at :: int

record upstream_entry =
  ue_server_id :: string
  ue_tenant_id :: string
  ue_transport :: string
  ue_url :: "string option"
  ue_active :: bool
  ue_created_at :: int
  ue_updated_at :: int

record stored_rule =
  sr_rule_id :: string
  sr_tenant_id :: string
  sr_name :: string
  sr_scope :: string
  sr_scope_value :: "string option"
  sr_algorithm :: string
  sr_requests_per_window :: u64
  sr_window_seconds :: "32 word"
  sr_burst_allowance :: "u64 option"
  sr_action :: string
  sr_priority :: "32 word"
  sr_enabled :: bool
  sr_created_at :: int
  sr_updated_at :: int

datatype control_plane_error =
    Database string
  | TenantNotFound string
  | PolicyNotFound string
  | Conflict string
  | IoFailure string

fun control_plane_error_text :: "control_plane_error \<Rightarrow> string" where
  "control_plane_error_text (Database m) = fmt [''Database error: '', m]"
| "control_plane_error_text (TenantNotFound m) = fmt [''Tenant not found: '', m]"
| "control_plane_error_text (PolicyNotFound m) = fmt [''Policy not found: '', m]"
| "control_plane_error_text (Conflict m) = fmt [''Conflict: '', m]"
| "control_plane_error_text (IoFailure m) = fmt [''IO error: '', m]"

section \<open>The in-memory control plane\<close>

record control_plane =
  cp_tenants :: "tenant hmap"
  cp_policies :: "policy_entry hmap"
  cp_upstreams :: "upstream_entry hmap"
  cp_rules :: "stored_rule hmap"

definition default_tenant :: "int \<Rightarrow> int \<Rightarrow> tenant" where
  "default_tenant created updated =
     \<lparr>tn_id = ''default'', tn_name = ''Default Tenant'', tn_active = True, tn_config = JObj [],
      tn_created_at = created, tn_updated_at = updated\<rparr>"

definition in_memory_new :: "int \<Rightarrow> int \<Rightarrow> control_plane" where
  "in_memory_new created updated =
     \<lparr>cp_tenants = hm_insert ''default'' (default_tenant created updated) [], cp_policies = [],
      cp_upstreams = [], cp_rules = []\<rparr>"

text \<open>\<open>iter().map(|x| (key, x)).collect()\<close>: a later entry replaces an earlier one of the same key.\<close>

definition collect_by :: "('a \<Rightarrow> string) \<Rightarrow> 'a list \<Rightarrow> 'a hmap" where
  "collect_by key xs = fold (\<lambda>x. hm_insert (key x) x) xs []"

definition with_config ::
  "tenant list \<Rightarrow> policy_entry list \<Rightarrow> upstream_entry list \<Rightarrow> stored_rule list \<Rightarrow> control_plane" where
  "with_config ts ps us rs =
     \<lparr>cp_tenants = collect_by tn_id ts, cp_policies = collect_by policy_id ps,
      cp_upstreams = collect_by ue_server_id us, cp_rules = collect_by sr_rule_id rs\<rparr>"

definition load_tenants :: "hash_order \<Rightarrow> control_plane \<Rightarrow> tenant list" where
  "load_tenants \<pi> c = filter tn_active (hm_values \<pi> (cp_tenants c))"

definition load_policies :: "hash_order \<Rightarrow> control_plane \<Rightarrow> string \<Rightarrow> policy_entry list" where
  "load_policies \<pi> c t =
     filter (\<lambda>p. pe_tenant_id p = t \<and> pe_enabled p) (hm_values \<pi> (cp_policies c))"

definition load_upstreams :: "hash_order \<Rightarrow> control_plane \<Rightarrow> string \<Rightarrow> upstream_entry list" where
  "load_upstreams \<pi> c t =
     filter (\<lambda>u. ue_tenant_id u = t \<and> ue_active u) (hm_values \<pi> (cp_upstreams c))"

definition load_rate_limit_rules :: "hash_order \<Rightarrow> control_plane \<Rightarrow> string \<Rightarrow> stored_rule list" where
  "load_rate_limit_rules \<pi> c t =
     filter (\<lambda>r. sr_tenant_id r = t \<and> sr_enabled r) (hm_values \<pi> (cp_rules c))"

definition update_policy ::
  "policy_entry \<Rightarrow> control_plane \<Rightarrow> (unit, control_plane_error) result \<times> control_plane" where
  "update_policy p c = (Ok (), c\<lparr>cp_policies := hm_insert (policy_id p) p (cp_policies c)\<rparr>)"

definition create_tenant ::
  "tenant \<Rightarrow> control_plane \<Rightarrow> (unit, control_plane_error) result \<times> control_plane" where
  "create_tenant t c =
    (if hm_contains (cp_tenants c) (tn_id t) then
       (Err (Conflict (fmt [''Tenant '', tn_id t, '' already exists''])), c)
     else (Ok (), c\<lparr>cp_tenants := hm_insert (tn_id t) t (cp_tenants c)\<rparr>))"

definition get_tenant :: "control_plane \<Rightarrow> string \<Rightarrow> tenant option" where
  "get_tenant c i = hm_get (cp_tenants c) i"

definition add_upstream ::
  "upstream_entry \<Rightarrow> control_plane \<Rightarrow> (unit, control_plane_error) result \<times> control_plane" where
  "add_upstream u c = (Ok (), c\<lparr>cp_upstreams := hm_insert (ue_server_id u) u (cp_upstreams c)\<rparr>)"

definition add_rate_limit_rule ::
  "stored_rule \<Rightarrow> control_plane \<Rightarrow> (unit, control_plane_error) result \<times> control_plane" where
  "add_rate_limit_rule r c = (Ok (), c\<lparr>cp_rules := hm_insert (sr_rule_id r) r (cp_rules c)\<rparr>)"

section \<open>The database-backed control plane\<close>

text \<open>What the statements of the module do to a database of type \<open>'d\<close>: connecting and migrating,
  the four queries of a refresh, the update of a policy, the insertion of a tenant.\<close>

record 'd pg_api =
  pg_connect :: "string \<Rightarrow> ('d, string) result"
  pg_migrate :: "'d \<Rightarrow> ('d, string) result"
  fetch_tenants :: "'d \<Rightarrow> (tenant list, string) result"
  fetch_policies :: "'d \<Rightarrow> (policy_entry list, string) result"
  fetch_upstreams :: "'d \<Rightarrow> (upstream_entry list, string) result"
  fetch_rules :: "'d \<Rightarrow> (stored_rule list, string) result"
  exec_update_policy :: "policy_entry \<Rightarrow> 'd \<Rightarrow> (unit, string) result \<times> 'd"
  exec_insert_tenant :: "tenant \<Rightarrow> 'd \<Rightarrow> (unit, string) result \<times> 'd"

text \<open>\<open>refreshing\<close>: whether the background task that refreshes the cache was started.\<close>

record 'd postgres =
  pool :: 'd
  cache :: control_plane
  refreshing :: bool

definition postgres_new ::
  "'d pg_api \<Rightarrow> int \<Rightarrow> int \<Rightarrow> string \<Rightarrow> u64 \<Rightarrow> ('d postgres, control_plane_error) result" where
  "postgres_new A created updated url ttl =
    (case pg_connect A url of
       Err e \<Rightarrow> Err (Database (fmt [''Failed to connect: '', e]))
     | Ok d \<Rightarrow>
         (case pg_migrate A d of
            Err e \<Rightarrow> Err (Database (fmt [''Migration failed: '', e]))
          | Ok d' \<Rightarrow>
              Ok \<lparr>pool = d', cache = in_memory_new created updated, refreshing = (0 < ttl)\<rparr>))"

text \<open>
  The operations hold no lock from one \<open>await\<close> to the next, so they are threads: an access for each
  statement, and one for each write to the cache. A statement that fails ends the operation.
\<close>

type_synonym 'd pg_task = "('d postgres, (unit, control_plane_error) result) thread"

definition execute :: "('d \<Rightarrow> (unit, string) result \<times> 'd) \<Rightarrow> 'd pg_task \<Rightarrow> 'd pg_task" where
  "execute stmt k =
     Atom (\<lambda>s. case stmt (pool s) of
                 (Err e, d) \<Rightarrow> Some (Done (Err (Database e)), s\<lparr>pool := d\<rparr>)
               | (Ok _, d) \<Rightarrow> Some (k, s\<lparr>pool := d\<rparr>))"

definition fetch :: "('d \<Rightarrow> ('a, string) result) \<Rightarrow> ('a \<Rightarrow> 'd pg_task) \<Rightarrow> 'd pg_task" where
  "fetch query k =
     Atom (\<lambda>s. case query (pool s) of
                 Err e \<Rightarrow> Some (Done (Err (Database e)), s)
               | Ok rows \<Rightarrow> Some (k rows, s))"

definition to_cache ::
  "(control_plane \<Rightarrow> (unit, control_plane_error) result \<times> control_plane) \<Rightarrow> 'd pg_task" where
  "to_cache f = Atom (\<lambda>s. case f (cache s) of (res, c) \<Rightarrow> Some (Done res, s\<lparr>cache := c\<rparr>))"

definition store :: "(control_plane \<Rightarrow> control_plane) \<Rightarrow> 'd pg_task \<Rightarrow> 'd pg_task" where
  "store f k = Atom (\<lambda>s. Some (k, s\<lparr>cache := f (cache s)\<rparr>))"

definition swap_cache :: "control_plane \<Rightarrow> 'd pg_task" where
  "swap_cache new_cache =
     store (\<lambda>c. c\<lparr>cp_tenants := cp_tenants new_cache\<rparr>) (
     store (\<lambda>c. c\<lparr>cp_policies := cp_policies new_cache\<rparr>) (
     store (\<lambda>c. c\<lparr>cp_upstreams := cp_upstreams new_cache\<rparr>) (
     store (\<lambda>c. c\<lparr>cp_rules := cp_rules new_cache\<rparr>) (
     Done (Ok ())))))"

definition refresh_cache :: "'d pg_api \<Rightarrow> 'd pg_task" where
  "refresh_cache A =
     fetch (fetch_tenants A) (\<lambda>ts.
     fetch (fetch_policies A) (\<lambda>ps.
     fetch (fetch_upstreams A) (\<lambda>us.
     fetch (fetch_rules A) (\<lambda>rs.
     swap_cache (with_config ts ps us rs)))))"

definition pg_update_policy :: "'d pg_api \<Rightarrow> policy_entry \<Rightarrow> 'd pg_task" where
  "pg_update_policy A p = execute (exec_update_policy A p) (to_cache (update_policy p))"

definition pg_create_tenant :: "'d pg_api \<Rightarrow> tenant \<Rightarrow> 'd pg_task" where
  "pg_create_tenant A t = execute (exec_insert_tenant A t) (to_cache (create_tenant t))"

definition pg_refresh :: "'d pg_api \<Rightarrow> 'd pg_task" where
  "pg_refresh A = refresh_cache A"

text \<open>What the background task of \<open>new\<close> does at its ticks, if it was started.\<close>

definition background :: "'d pg_api \<Rightarrow> 'd postgres \<Rightarrow> 'd pg_task set" where
  "background A s = (if refreshing s then {refresh_cache A} else {})"

text \<open>The reads go to the cache.\<close>

definition pg_load_tenants :: "hash_order \<Rightarrow> 'd postgres \<Rightarrow> tenant list" where
  "pg_load_tenants \<pi> s = load_tenants \<pi> (cache s)"

definition pg_load_policies :: "hash_order \<Rightarrow> 'd postgres \<Rightarrow> string \<Rightarrow> policy_entry list" where
  "pg_load_policies \<pi> s = load_policies \<pi> (cache s)"

definition pg_load_upstreams :: "hash_order \<Rightarrow> 'd postgres \<Rightarrow> string \<Rightarrow> upstream_entry list" where
  "pg_load_upstreams \<pi> s = load_upstreams \<pi> (cache s)"

definition pg_load_rate_limit_rules :: "hash_order \<Rightarrow> 'd postgres \<Rightarrow> string \<Rightarrow> stored_rule list" where
  "pg_load_rate_limit_rules \<pi> s = load_rate_limit_rules \<pi> (cache s)"

definition pg_get_tenant :: "'d postgres \<Rightarrow> string \<Rightarrow> tenant option" where
  "pg_get_tenant s = get_tenant (cache s)"

text \<open>The program is built without the database (the feature is off by default), so the address and
  the cache lifetime are not looked at. A build with it does not compile: the function's parameters
  are named \<open>_database_url\<close> and \<open>_cache_ttl_secs\<close>, and the module's file is not where
  \<open>db.rs\<close> declares it.\<close>

definition create_control_plane ::
  "int \<Rightarrow> int \<Rightarrow> string option \<Rightarrow> u64 \<Rightarrow> (control_plane, control_plane_error) result" where
  "create_control_plane created updated url ttl = Ok (in_memory_new created updated)"

section \<open>The contract of a control plane\<close>

text \<open>What a client of the trait relies on when it loads: only active tenants, and of a tenant only
  its own, enabled rules.\<close>

locale control_plane_reader =
  fixes tenants_of :: "'s \<Rightarrow> tenant list"
    and rules_of :: "'s \<Rightarrow> string \<Rightarrow> stored_rule list"
  assumes tenants_active: "t \<in> set (tenants_of s) \<Longrightarrow> tn_active t"
    and rules_enabled: "r \<in> set (rules_of s i) \<Longrightarrow> sr_enabled r \<and> sr_tenant_id r = i"
begin

text \<open>All rules a client loads by going through the tenants.\<close>

lemma all_loaded:
  assumes "r \<in> set (concat (map (\<lambda>t. rules_of s (tn_id t)) (tenants_of s)))"
  shows "sr_enabled r \<and> (\<exists>t \<in> set (tenants_of s). tn_active t \<and> sr_tenant_id r = tn_id t)"
  using assms rules_enabled tenants_active by fastforce

end

interpretation memory: control_plane_reader "load_tenants \<pi>" "load_rate_limit_rules \<pi>"
  by unfold_locales (auto simp: load_tenants_def load_rate_limit_rules_def)

interpretation pg: control_plane_reader "pg_load_tenants \<pi>" "pg_load_rate_limit_rules \<pi>"
  by unfold_locales
    (auto simp: pg_load_tenants_def pg_load_rate_limit_rules_def load_tenants_def load_rate_limit_rules_def)

section \<open>Runs against histories\<close>

datatype cp_op =
    UpdatePolicy policy_entry
  | CreateTenant tenant
  | AddUpstream upstream_entry
  | AddRateLimitRule stored_rule

fun cp_step :: "cp_op \<Rightarrow> control_plane \<Rightarrow> control_plane" where
  "cp_step (UpdatePolicy p) c = snd (update_policy p c)"
| "cp_step (CreateTenant t) c = snd (create_tenant t c)"
| "cp_step (AddUpstream u) c = snd (add_upstream u c)"
| "cp_step (AddRateLimitRule r) c = snd (add_rate_limit_rule r c)"

text \<open>The specification works on the history of operations alone: of the entries written under an
  identifier, the newest counts; of the tenants created under one, the oldest.\<close>

definition written_policies :: "cp_op list \<Rightarrow> policy_entry list" where
  "written_policies ops = List.map_filter (\<lambda>x. case x of UpdatePolicy p \<Rightarrow> Some p | _ \<Rightarrow> None) ops"

definition written_upstreams :: "cp_op list \<Rightarrow> upstream_entry list" where
  "written_upstreams ops = List.map_filter (\<lambda>x. case x of AddUpstream u \<Rightarrow> Some u | _ \<Rightarrow> None) ops"

definition written_rules :: "cp_op list \<Rightarrow> stored_rule list" where
  "written_rules ops = List.map_filter (\<lambda>x. case x of AddRateLimitRule r \<Rightarrow> Some r | _ \<Rightarrow> None) ops"

definition created_tenants :: "cp_op list \<Rightarrow> tenant list" where
  "created_tenants ops = List.map_filter (\<lambda>x. case x of CreateTenant t \<Rightarrow> Some t | _ \<Rightarrow> None) ops"

definition newest :: "('a \<Rightarrow> string) \<Rightarrow> string \<Rightarrow> 'a list \<Rightarrow> 'a option" where
  "newest key i xs = find (\<lambda>x. key x = i) (rev xs)"

definition oldest :: "('a \<Rightarrow> string) \<Rightarrow> string \<Rightarrow> 'a list \<Rightarrow> 'a option" where
  "oldest key i xs = find (\<lambda>x. key x = i) xs"

lemma newest_snoc: "newest key i (xs @ [x]) = (if key x = i then Some x else newest key i xs)"
  by (simp add: newest_def)

lemma newest_key: "newest key i xs = Some x \<Longrightarrow> key x = i"
  by (auto simp: newest_def find_Some_iff)

lemma oldest_snoc:
  "oldest key i (xs @ [x]) =
     (case oldest key i xs of Some y \<Rightarrow> Some y | None \<Rightarrow> if key x = i then Some x else None)"
  by (induction xs) (simp_all add: oldest_def)

lemma written_snoc [simp]:
  "written_policies (ops @ [x]) =
     written_policies ops @ (case x of UpdatePolicy p \<Rightarrow> [p] | _ \<Rightarrow> [])"
  "written_upstreams (ops @ [x]) =
     written_upstreams ops @ (case x of AddUpstream u \<Rightarrow> [u] | _ \<Rightarrow> [])"
  "written_rules (ops @ [x]) =
     written_rules ops @ (case x of AddRateLimitRule r \<Rightarrow> [r] | _ \<Rightarrow> [])"
  "created_tenants (ops @ [x]) =
     created_tenants ops @ (case x of CreateTenant t \<Rightarrow> [t] | _ \<Rightarrow> [])"
  by (simp_all add: written_policies_def written_upstreams_def written_rules_def created_tenants_def
      map_filter_def split: cp_op.split)

lemma tables_follow_history:
  fixes ops
  assumes "c = run cp_step ops (in_memory_new t1 t2)"
  shows "hm_get (cp_policies c) i = newest policy_id i (written_policies ops)"
    and "hm_get (cp_upstreams c) i = newest ue_server_id i (written_upstreams ops)"
    and "hm_get (cp_rules c) i = newest sr_rule_id i (written_rules ops)"
    and "hm_get (cp_tenants c) i = oldest tn_id i (default_tenant t1 t2 # created_tenants ops)"
proof -
  have "hm_get (cp_policies c) i = newest policy_id i (written_policies ops) \<and>
      hm_get (cp_upstreams c) i = newest ue_server_id i (written_upstreams ops) \<and>
      hm_get (cp_rules c) i = newest sr_rule_id i (written_rules ops) \<and>
      (\<forall>i. hm_get (cp_tenants c) i = oldest tn_id i (default_tenant t1 t2 # created_tenants ops))"
    using assms
  proof (induction ops arbitrary: c rule: rev_induct)
    case Nil
    then show ?case
      by (simp add: in_memory_new_def newest_def oldest_def written_policies_def map_filter_def
          written_upstreams_def written_rules_def created_tenants_def default_tenant_def)
  next
    case (snoc x ops)
    show ?case
      using snoc.IH [OF refl] snoc.prems
      by (cases x)
        (auto simp: update_policy_def create_tenant_def add_upstream_def add_rate_limit_rule_def
          newest_snoc oldest_snoc hm_contains_def simp flip: append_Cons split: option.splits)
  qed
  then show "hm_get (cp_policies c) i = newest policy_id i (written_policies ops)"
    "hm_get (cp_upstreams c) i = newest ue_server_id i (written_upstreams ops)"
    "hm_get (cp_rules c) i = newest sr_rule_id i (written_rules ops)"
    "hm_get (cp_tenants c) i = oldest tn_id i (default_tenant t1 t2 # created_tenants ops)"
    by simp_all
qed

lemma loaded_set:
  "hash_order_ok \<pi> \<Longrightarrow> set (load_policies \<pi> c t) =
     {p. \<exists>i. hm_get (cp_policies c) i = Some p \<and> pe_tenant_id p = t \<and> pe_enabled p}"
  "hash_order_ok \<pi> \<Longrightarrow> set (load_tenants \<pi> c) = {x. \<exists>i. hm_get (cp_tenants c) i = Some x \<and> tn_active x}"
  "hash_order_ok \<pi> \<Longrightarrow> set (load_rate_limit_rules \<pi> c t) =
     {r. \<exists>i. hm_get (cp_rules c) i = Some r \<and> sr_tenant_id r = t \<and> sr_enabled r}"
  by (auto simp: load_policies_def load_tenants_def load_rate_limit_rules_def hm_values_set ran_def)

section \<open>Properties\<close>

text \<open>C13: The control plane implements its specification on histories: after any operations, a tenant's
  loaded policies are the enabled ones among the newest written under their identifiers (whatever
  their version numbers), its rules likewise, and the tenant of an identifier is the oldest created
  one, the default tenant being the first of all.\<close>

theorem control_plane_refines_history:
  fixes ops
  assumes "hash_order_ok \<pi>" "c = run cp_step ops (in_memory_new t1 t2)"
  shows "set (load_policies \<pi> c t) =
           {p. newest policy_id (policy_id p) (written_policies ops) = Some p \<and>
               pe_tenant_id p = t \<and> pe_enabled p} \<and>
         set (load_rate_limit_rules \<pi> c t) =
           {r. newest sr_rule_id (sr_rule_id r) (written_rules ops) = Some r \<and>
               sr_tenant_id r = t \<and> sr_enabled r} \<and>
         get_tenant c i = oldest tn_id i (default_tenant t1 t2 # created_tenants ops)"
proof -
  have key: "(\<exists>i. newest k i xs = Some x) \<longleftrightarrow> newest k (k x) xs = Some x" for k :: "'z \<Rightarrow> string" and xs x
    by (auto simp: newest_def find_Some_iff)
  show ?thesis
    using key [of policy_id "written_policies ops"] key [of sr_rule_id "written_rules ops"]
    by (auto simp: loaded_set [OF assms(1)] tables_follow_history [OF assms(2)] get_tenant_def)
qed

definition sample_policy :: "string \<Rightarrow> 32 word \<Rightarrow> policy_entry" where
  "sample_policy t v =
     \<lparr>policy_id = ''p'', pe_tenant_id = t, policy_text = ''permit(principal, action, resource);'',
      pe_enabled = True, pe_version = v, pe_created_at = 0, pe_updated_at = 0\<rparr>"

lemma sample_policy_fields [simp]:
  "policy_id (sample_policy t v) = ''p''" "pe_tenant_id (sample_policy t v) = t"
  "pe_enabled (sample_policy t v)"
  by (simp_all add: sample_policy_def)

lemma control_plane_refines_history_witness:
  "let c = run cp_step [UpdatePolicy (sample_policy ''a'' 7), UpdatePolicy (sample_policy ''b'' 1)]
             (in_memory_new 0 0)
   in set (load_policies (\<lambda>xs. xs) c ''a'') = {} \<and>
      set (load_policies (\<lambda>xs. xs) c ''b'') = {sample_policy ''b'' 1}"
proof -
  let ?ops = "[UpdatePolicy (sample_policy ''a'' 7), UpdatePolicy (sample_policy ''b'' 1)]"
  have "hash_order_ok (\<lambda>xs. xs)" by (simp add: hash_order_ok_def)
  note R = control_plane_refines_history [OF this refl, of ?ops 0 0]
  have W: "written_policies ?ops = [sample_policy ''a'' 7, sample_policy ''b'' 1]"
    by (simp add: written_policies_def map_filter_def)
  show ?thesis
    unfolding Let_def conjunct1 [OF R] W
    by (auto simp: newest_def split: if_splits)
qed

text \<open>A policy write is not confined to its tenant: the table is keyed by the policy's identifier
  alone, so after a write no tenant is served another policy of that identifier, and the tenant
  that had one has lost it.\<close>

theorem policy_write_crosses_tenants:
  fixes ops
  assumes "hash_order_ok \<pi>" "c = run cp_step ops (in_memory_new t1 t2)"
    and "q \<in> set (load_policies \<pi> (snd (update_policy p c)) t)" "policy_id q = policy_id p"
  shows "q = p"
proof -
  have c': "snd (update_policy p c) = run cp_step (ops @ [UpdatePolicy p]) (in_memory_new t1 t2)"
    by (simp add: assms(2))
  obtain i where i: "hm_get (cp_policies (snd (update_policy p c))) i = Some q"
    using assms(3) unfolding loaded_set [OF assms(1)] by blast
  then have n: "newest policy_id i (written_policies (ops @ [UpdatePolicy p])) = Some q"
    by (simp only: tables_follow_history(1) [OF c'])
  then have "(if policy_id p = i then Some p else newest policy_id i (written_policies ops)) = Some q"
    by (simp add: newest_snoc)
  moreover have "policy_id q = i" by (rule newest_key [OF n])
  ultimately show "q = p" using assms(4) by auto
qed

lemma policy_write_crosses_tenants_witness:
  "\<exists>q. q \<in> set (load_policies (\<lambda>xs. xs) (snd (update_policy (sample_policy ''b'' 1)
          (run cp_step [UpdatePolicy (sample_policy ''a'' 7)] (in_memory_new 0 0)))) ''b'') \<and>
       q = sample_policy ''b'' 1"
proof -
  have o: "hash_order_ok (\<lambda>xs. xs)" by (simp add: hash_order_ok_def)
  let ?c = "run cp_step [UpdatePolicy (sample_policy ''a'' 7)] (in_memory_new 0 0)"
  have m: "load_policies (\<lambda>xs. xs) (snd (update_policy (sample_policy ''b'' 1) ?c)) ''b'' = [sample_policy ''b'' 1]"
    by code_simp
  then have "sample_policy ''b'' 1 = sample_policy ''b'' 1"
    using policy_write_crosses_tenants [OF o refl, of "sample_policy ''b'' 1" "sample_policy ''b'' 1"
        "[UpdatePolicy (sample_policy ''a'' 7)]" 0 0 "''b''"] by simp
  with m show ?thesis by simp
qed

text \<open>What other programs do to the database.\<close>

definition database_change :: "('d \<Rightarrow> 'd) \<Rightarrow> 'd pg_task" where
  "database_change f = Atom (\<lambda>s. Some (Done (Ok ()), s\<lparr>pool := f (pool s)\<rparr>))"

text \<open>With a cache lifetime of zero, which is documented as "no cache", every read is served from a
  cache that is never filled unless it is refreshed by hand: whatever the database holds or comes to
  hold, the only tenant is the default one, and there are no policies, upstreams or rules.\<close>

theorem zero_ttl_reads_nothing:
  assumes "postgres_new A t1 t2 url 0 = Ok s"
    and "(pool_step (background A s \<union> range database_change))\<^sup>*\<^sup>* (s, []) (s', ts)"
  shows "cache s' = in_memory_new t1 t2 \<and> load_policies \<pi> (cache s') t = [] \<and>
         load_rate_limit_rules \<pi> (cache s') t = []"
proof -
  have s: "background A s = {}" "cache s = in_memory_new t1 t2"
    using assms(1) by (auto simp: postgres_new_def background_def split: result.splits)
  have "keeps (\<lambda>x. cache x = cache s) t" if "t \<in> background A s \<union> range database_change" for t
    using that s(1) by (auto simp: database_change_def intro: keeps_Atom keeps_Done)
  from pool_keeps [OF assms(2), of "\<lambda>x. cache x = cache s", OF refl this] have "cache s' = cache s" by simp
  then have "cache s' = in_memory_new t1 t2" by (simp add: s(2))
  then show ?thesis
    by (simp add: load_policies_def load_rate_limit_rules_def in_memory_new_def hm_values_def
        map_filter_def hm_get_def filter_empty_conv)
qed

definition sample_pg :: "bool pg_api" where
  "sample_pg =
     \<lparr>pg_connect = (\<lambda>_. Ok False), pg_migrate = Ok, fetch_tenants = (\<lambda>_. Ok []),
      fetch_policies = (\<lambda>d. Ok (if d then [sample_policy ''default'' 1] else [])),
      fetch_upstreams = (\<lambda>_. Ok []), fetch_rules = (\<lambda>_. Ok []),
      exec_update_policy = (\<lambda>_ _. (Ok (), True)), exec_insert_tenant = (\<lambda>_ d. (Ok (), d))\<rparr>"

lemma zero_ttl_reads_nothing_witness:
  "\<exists>s s' ts. postgres_new sample_pg 0 0 ''db'' 0 = Ok s \<and> pool s' \<and>
       (pool_step (background sample_pg s \<union> range database_change))\<^sup>*\<^sup>* (s, []) (s', ts) \<and>
       load_policies (\<lambda>xs. xs) (cache s') ''default'' = []"
proof -
  obtain s where s: "postgres_new sample_pg 0 0 ''db'' 0 = Ok s"
    by (simp add: postgres_new_def sample_pg_def)
  let ?A = "background sample_pg s \<union> range database_change"
  have "(pool_step ?A)\<^sup>*\<^sup>* (s, []) (s\<lparr>pool := True\<rparr>, [] @ [Done (Ok ())])"
    by (rule pool_alone [of "database_change (\<lambda>_. True)"]) (simp_all add: database_change_def)
  from zero_ttl_reads_nothing [OF s this, of "\<lambda>xs. xs" "''default''"] this s show ?thesis by force
qed

end
