(* ===== verification/Float64.thy ===== *)
theory Float64
  imports Prelude "HOL-Library.Word" "HOL-Library.Log_Nat"
begin

text \<open>
  Rust's \<open>f64\<close>: a finite value is the rational number it stands for, and every operation is the
  exact one rounded to the nearest double, ties to even (overflow gives an infinity). Signed zeros
  are not told apart; the program's values are never negative, so no negative zero arises.
\<close>

section \<open>Rounding\<close>

definition pow2 :: "int \<Rightarrow> rat" where
  "pow2 k = (if 0 \<le> k then 2 ^ nat k else 1 / 2 ^ nat (- k))"

text \<open>The binary exponent of a positive number.\<close>

definition ilog2 :: "rat \<Rightarrow> int" where
  "ilog2 q =
    (case quotient_of q of (n, d) \<Rightarrow>
       (let k = int (floorlog 2 (nat n)) - int (floorlog 2 (nat d))
        in if pow2 k \<le> q then k else k - 1))"

text \<open>The exponent of the last place: 53 significant bits, but not below the subnormal step.\<close>

definition ulp_exp :: "rat \<Rightarrow> int" where
  "ulp_exp q = max (- 1074) (ilog2 \<bar>q\<bar> - 52)"

definition round_even :: "rat \<Rightarrow> int" where
  "round_even y =
    (let f = \<lfloor>y\<rfloor>; r = y - of_int f
     in if r < 1 / 2 then f else if 1 / 2 < r then f + 1 else if even f then f else f + 1)"

definition rnd :: "rat \<Rightarrow> rat" where
  "rnd q = (if q = 0 then 0 else of_int (round_even (q / pow2 (ulp_exp q))) * pow2 (ulp_exp q))"

section \<open>Doubles\<close>

datatype f64 = Fin rat | PosInf | NegInf | NaN

definition to_f64 :: "rat \<Rightarrow> f64" where
  "to_f64 q =
    (let x = rnd q in if pow2 1024 \<le> x then PosInf else if x \<le> - pow2 1024 then NegInf else Fin x)"

definition f64_of_nat :: "nat \<Rightarrow> f64" where
  "f64_of_nat n = to_f64 (of_nat n)"

fun f64_neg :: "f64 \<Rightarrow> f64" where
  "f64_neg (Fin x) = Fin (- x)"
| "f64_neg PosInf = NegInf"
| "f64_neg NegInf = PosInf"
| "f64_neg NaN = NaN"

fun f64_add :: "f64 \<Rightarrow> f64 \<Rightarrow> f64" where
  "f64_add (Fin x) (Fin y) = to_f64 (x + y)"
| "f64_add NaN _ = NaN"
| "f64_add _ NaN = NaN"
| "f64_add PosInf NegInf = NaN"
| "f64_add NegInf PosInf = NaN"
| "f64_add PosInf _ = PosInf"
| "f64_add NegInf _ = NegInf"
| "f64_add (Fin x) y = y"

text \<open>An infinity of the given sign, for products and quotients.\<close>

definition signed_inf :: "bool \<Rightarrow> f64" where
  "signed_inf negative = (if negative then NegInf else PosInf)"

fun f64_negative :: "f64 \<Rightarrow> bool" where
  "f64_negative (Fin x) = (x < 0)"
| "f64_negative NegInf = True"
| "f64_negative _ = False"

fun f64_mul :: "f64 \<Rightarrow> f64 \<Rightarrow> f64" where
  "f64_mul (Fin x) (Fin y) = to_f64 (x * y)"
| "f64_mul NaN _ = NaN"
| "f64_mul _ NaN = NaN"
| "f64_mul x y =
     (if x = Fin 0 \<or> y = Fin 0 then NaN else signed_inf (f64_negative x \<noteq> f64_negative y))"

text \<open>A quotient by zero takes the sign of the numerator: the zeros here are positive.\<close>

fun f64_div :: "f64 \<Rightarrow> f64 \<Rightarrow> f64" where
  "f64_div NaN _ = NaN"
| "f64_div _ NaN = NaN"
| "f64_div (Fin x) (Fin y) =
     (if y = 0 then (if x = 0 then NaN else signed_inf (x < 0)) else to_f64 (x / y))"
| "f64_div (Fin x) _ = Fin 0"
| "f64_div x (Fin y) = signed_inf (f64_negative x \<noteq> (y < 0))"
| "f64_div _ _ = NaN"

text \<open>The partial order of the comparison operators: \<open>NaN\<close> is below and above nothing.\<close>

instantiation f64 :: ord
begin

fun less_eq_f64 :: "f64 \<Rightarrow> f64 \<Rightarrow> bool" where
  "less_eq_f64 NaN _ = False"
| "less_eq_f64 _ NaN = False"
| "less_eq_f64 (Fin x) (Fin y) = (x \<le> y)"
| "less_eq_f64 NegInf _ = True"
| "less_eq_f64 _ PosInf = True"
| "less_eq_f64 _ _ = False"

definition less_f64 :: "f64 \<Rightarrow> f64 \<Rightarrow> bool" where
  "less_f64 x y = (x \<le> y \<and> \<not> y \<le> x)"

instance ..

end

instantiation f64 :: "{zero, one, plus, minus, times}"
begin

definition zero_f64 :: f64 where "zero_f64 = Fin 0"
definition one_f64 :: f64 where "one_f64 = Fin 1"
definition plus_f64 :: "f64 \<Rightarrow> f64 \<Rightarrow> f64" where "plus_f64 x y = f64_add x y"
definition minus_f64 :: "f64 \<Rightarrow> f64 \<Rightarrow> f64" where "minus_f64 x y = f64_add x (f64_neg y)"
definition times_f64 :: "f64 \<Rightarrow> f64 \<Rightarrow> f64" where "times_f64 x y = f64_mul x y"

instance ..

end

lemmas f64_arith = zero_f64_def one_f64_def plus_f64_def minus_f64_def times_f64_def

text \<open>\<open>f64::min\<close>: the other argument if one is \<open>NaN\<close>.\<close>

definition f64_min :: "f64 \<Rightarrow> f64 \<Rightarrow> f64" where
  "f64_min x y = (if x = NaN then y else if y = NaN then x else if x \<le> y then x else y)"

text \<open>\<open>x.floor() as u64\<close>: saturating, and 0 for \<open>NaN\<close>.\<close>

fun floor_u64 :: "f64 \<Rightarrow> 64 word" where
  "floor_u64 (Fin x) =
     (if \<lfloor>x\<rfloor> < 0 then 0 else if 2 ^ 64 \<le> \<lfloor>x\<rfloor> then - 1 else word_of_int \<lfloor>x\<rfloor>)"
| "floor_u64 PosInf = - 1"
| "floor_u64 _ = 0"


section \<open>Rounding lemmas\<close>

lemma pow2_powi: "pow2 k = 2 powi k"
  unfolding pow2_def power_int_def by (simp only: power_inverse divide_inverse mult_1_left)

lemma pow2_pos [simp]: "0 < pow2 k"
  by (simp add: pow2_def)

lemma pow2_ne [simp]: "pow2 k \<noteq> 0"
  using pow2_pos [of k] by linarith

lemma pow2_nonneg [simp]: "0 \<le> pow2 k"
  using pow2_pos [of k] by linarith

lemma pow2_add: "pow2 (a + b) = pow2 a * pow2 b"
  by (simp add: pow2_powi power_int_add)

lemma pow2_nat: "pow2 (int n) = 2 ^ n"
  by (simp add: pow2_def)

lemma pow2_less_iff [simp]: "pow2 a < pow2 b \<longleftrightarrow> a < b"
proof
  assume "pow2 a < pow2 b"
  then show "a < b"
    using power_int_increasing [of b a "2::rat"] by (force simp: pow2_powi)
next
  assume "a < b"
  then show "pow2 a < pow2 b"
    using power_int_strict_increasing [of a b "2::rat"] by (simp add: pow2_powi)
qed

lemma pow2_le_iff [simp]: "pow2 a \<le> pow2 b \<longleftrightarrow> a \<le> b"
  using pow2_less_iff [of b a] by linarith

lemma pow2_grid: "a \<le> b \<Longrightarrow> \<exists>m. pow2 b = of_int m * pow2 a"
proof -
  assume "a \<le> b"
  then have "pow2 b = of_int (2 ^ nat (b - a)) * pow2 a"
    using pow2_add [of "b - a" a] by (simp add: pow2_def)
  then show ?thesis by blast
qed

lemma floorlog2_bounds:
  assumes "0 < n"
  shows "pow2 (int (floorlog 2 (nat n)) - 1) \<le> of_int n" "of_int n < pow2 (int (floorlog 2 (nat n)))"
proof -
  let ?k = "floorlog 2 (nat n)"
  have b: "2 ^ (?k - 1) \<le> nat n" "nat n < 2 ^ ?k" "0 < ?k"
    using floorlog_bounds [of "nat n" 2] assms by (auto simp: floorlog_def)
  have "pow2 (int ?k - 1) = 2 ^ (?k - 1)"
    using b(3) pow2_nat [of "?k - 1"] by (simp add: of_nat_diff)
  also have "\<dots> \<le> of_int n"
  proof -
    have "int (2 ^ (?k - 1)) \<le> int (nat n)" using b(1) by (simp only: zle_int)
    then have "2 ^ (?k - 1) \<le> n" using assms by simp
    then have "rat_of_int (2 ^ (?k - 1)) \<le> of_int n" by (simp only: of_int_le_iff)
    then show ?thesis by simp
  qed
  finally show "pow2 (int ?k - 1) \<le> of_int n" .
  have "int (nat n) < 2 ^ ?k"
    using b(2) by (metis of_nat_less_iff of_nat_numeral of_nat_power)
  then have "n < 2 ^ ?k" using assms by simp
  then have "rat_of_int n < of_int (2 ^ ?k)" by (simp only: of_int_less_iff)
  then show "of_int n < pow2 (int ?k)" by (simp add: pow2_nat)
qed

lemma ilog2_bounds:
  assumes "0 < q"
  shows "pow2 (ilog2 q) \<le> q" "q < pow2 (ilog2 q + 1)"
proof -
  obtain n d where nd: "quotient_of q = (n, d)" by force
  have d: "0 < d" and q: "q = of_int n / of_int d"
    using quotient_of_denom_pos [OF nd] quotient_of_div [OF nd] by auto
  have n: "0 < n"
    using assms d unfolding q by (simp add: zero_less_divide_iff)
  let ?a = "int (floorlog 2 (nat n))" and ?b = "int (floorlog 2 (nat d))"
  have "pow2 (?a - ?b - 1) * of_int d \<le> pow2 (?a - ?b - 1) * pow2 ?b"
    using floorlog2_bounds(2) [OF d] by simp
  also have "\<dots> = pow2 (?a - 1)" by (simp flip: pow2_add)
  also have "\<dots> \<le> of_int n" by (rule floorlog2_bounds(1) [OF n])
  finally have lo: "pow2 (?a - ?b - 1) \<le> q"
    using d unfolding q by (simp add: pos_le_divide_eq)
  have "of_int n < pow2 ?a" by (rule floorlog2_bounds(2) [OF n])
  also have "\<dots> = pow2 (?a - ?b + 1) * pow2 (?b - 1)" by (simp flip: pow2_add)
  also have "\<dots> \<le> pow2 (?a - ?b + 1) * of_int d"
    using floorlog2_bounds(1) [OF d] by simp
  finally have hi: "q < pow2 (?a - ?b + 1)"
    using d unfolding q by (simp add: pos_divide_less_eq)
  show "pow2 (ilog2 q) \<le> q" "q < pow2 (ilog2 q + 1)"
    using lo hi by (auto simp: ilog2_def nd Let_def not_le)
qed

lemma ilog2_unique: "pow2 e \<le> q \<Longrightarrow> q < pow2 (e + 1) \<Longrightarrow> ilog2 q = e"
proof -
  assume e: "pow2 e \<le> q" "q < pow2 (e + 1)"
  then have "0 < q" using pow2_pos [of e] by linarith
  note b = ilog2_bounds [OF this]
  have "pow2 (ilog2 q) < pow2 (e + 1)" "pow2 e < pow2 (ilog2 q + 1)"
    using b e by linarith+
  then show "ilog2 q = e" by simp
qed

lemma ilog2_mono: "0 < x \<Longrightarrow> x \<le> y \<Longrightarrow> ilog2 x \<le> ilog2 y"
proof -
  assume "0 < x" "x \<le> y"
  then have "pow2 (ilog2 x) < pow2 (ilog2 y + 1)"
    using ilog2_bounds(1) [of x] ilog2_bounds(2) [of y] by linarith
  then show ?thesis by simp
qed

lemma ulp_exp_mono: "0 < x \<Longrightarrow> x \<le> y \<Longrightarrow> ulp_exp x \<le> ulp_exp y"
  using ilog2_mono [of x y] by (auto simp: ulp_exp_def)

lemma round_even_int [simp]: "round_even (of_int n) = n"
  by (simp add: round_even_def)

lemma round_even_le: "y \<le> of_int n \<Longrightarrow> round_even y \<le> n"
proof -
  assume "y \<le> of_int n"
  then have "\<lfloor>y\<rfloor> < n \<or> y = of_int n" by (metis floor_less_iff order_less_le)
  then show ?thesis by (auto simp: round_even_def Let_def)
qed

lemma round_even_ge: "of_int n \<le> y \<Longrightarrow> n \<le> round_even y"
  using le_floor_iff [of n y] by (auto simp: round_even_def Let_def)

lemma rnd_0 [simp]: "rnd 0 = 0"
  by (simp add: rnd_def)

text \<open>Values on the grid of the argument bound the rounded value as they bound the argument.\<close>

lemma rnd_le_grid:
  assumes "x \<le> y" "y = of_int m * pow2 (ulp_exp x)" "x \<noteq> 0"
  shows "rnd x \<le> y"
proof -
  have "x / pow2 (ulp_exp x) \<le> of_int m"
    using assms(1,2) by (simp add: pos_divide_le_eq)
  from round_even_le [OF this] show ?thesis
    using assms(2,3) by (simp add: rnd_def)
qed

lemma rnd_ge_grid:
  assumes "y \<le> x" "y = of_int m * pow2 (ulp_exp x)" "x \<noteq> 0"
  shows "y \<le> rnd x"
proof -
  have "of_int m \<le> x / pow2 (ulp_exp x)"
    using assms(1,2) by (simp add: pos_le_divide_eq)
  from round_even_ge [OF this] show ?thesis
    using assms(2,3) by (simp add: rnd_def)
qed

lemma rnd_nonneg: "0 \<le> x \<Longrightarrow> 0 \<le> rnd x"
  using rnd_ge_grid [of 0 x 0] by (cases "x = 0") auto

text \<open>A double: a value that rounding leaves alone. Those are the values on their own grid.\<close>

definition is_double :: "rat \<Rightarrow> bool" where
  "is_double q = (rnd q = q)"

lemma is_double_0 [simp]: "is_double 0"
  by (simp add: is_double_def)

lemma rnd_is_multiple: "q \<noteq> 0 \<Longrightarrow> \<exists>m. rnd q = of_int m * pow2 (ulp_exp q)"
  by (auto simp: rnd_def)

lemma is_double_grid: "is_double q \<Longrightarrow> \<exists>m. q = of_int m * pow2 (ulp_exp q)"
proof (cases "q = 0")
  case False
  then show "is_double q \<Longrightarrow> ?thesis" using rnd_is_multiple [of q] by (auto simp: is_double_def)
qed (auto intro: exI [of _ 0])

lemma grid_is_double:
  assumes "q = of_int m * pow2 e" "ulp_exp q \<le> e"
  shows "is_double q"
proof (cases "q = 0")
  case False
  obtain k where "pow2 e = of_int k * pow2 (ulp_exp q)" using pow2_grid [OF assms(2)] by blast
  then have "q = of_int (m * k) * pow2 (ulp_exp q)" using assms(1) by simp
  then have "q / pow2 (ulp_exp q) = of_int (m * k)"
    by (metis nonzero_mult_div_cancel_right pow2_ne)
  then have "rnd q = of_int (m * k) * pow2 (ulp_exp q)"
    using False by (simp only: rnd_def round_even_int if_False)
  then show ?thesis
    using \<open>q = of_int (m * k) * pow2 (ulp_exp q)\<close> by (simp only: is_double_def)
qed simp

lemma pow2_is_double: "- 1074 \<le> j \<Longrightarrow> is_double (pow2 j)"
proof (rule grid_is_double [of _ 1 j])
  assume "- 1074 \<le> j"
  moreover have "ilog2 (pow2 j) = j" by (rule ilog2_unique) simp_all
  ultimately show "ulp_exp (pow2 j) \<le> j" by (simp add: ulp_exp_def)
qed simp

lemma coarser_grid:
  assumes "is_double y" "e \<le> ulp_exp y"
  shows "\<exists>m. y = of_int m * pow2 e"
proof -
  obtain m k where "y = of_int m * pow2 (ulp_exp y)" "pow2 (ulp_exp y) = of_int k * pow2 e"
    using is_double_grid [OF assms(1)] pow2_grid [OF assms(2)] by blast
  then have "y = of_int (m * k) * pow2 e" by simp
  then show ?thesis by blast
qed

lemma rnd_le: "0 \<le> x \<Longrightarrow> x \<le> y \<Longrightarrow> is_double y \<Longrightarrow> rnd x \<le> y"
proof (cases "x = 0")
  case False
  assume xy: "0 \<le> x" "x \<le> y" "is_double y"
  then obtain m where "y = of_int m * pow2 (ulp_exp x)"
    using coarser_grid [OF xy(3) ulp_exp_mono] False by force
  then show ?thesis using rnd_le_grid xy(2) False by blast
qed simp

lemma rnd_ge: "0 \<le> y \<Longrightarrow> y \<le> x \<Longrightarrow> is_double y \<Longrightarrow> y \<le> rnd x"
proof (cases "y = 0")
  case True
  then show "y \<le> x \<Longrightarrow> ?thesis" by (simp add: rnd_nonneg)
next
  case False
  assume xy: "0 \<le> y" "y \<le> x" "is_double y"
  then have pos: "0 < y" "0 < x" using False by auto
  show ?thesis
  proof (cases "ulp_exp x = ulp_exp y")
    case True
    then obtain m where "y = of_int m * pow2 (ulp_exp x)" using is_double_grid [OF xy(3)] by metis
    then show ?thesis using rnd_ge_grid xy(2) pos(2) by blast
  next
    case False
    then have lt: "ulp_exp y < ulp_exp x" using ulp_exp_mono [OF pos(1) xy(2)] by simp
    then have e: "ulp_exp x \<le> ilog2 x" "ilog2 y < ilog2 x"
      using pos by (auto simp: ulp_exp_def)
    obtain m where m: "pow2 (ilog2 x) = of_int m * pow2 (ulp_exp x)" using pow2_grid [OF e(1)] by blast
    have "y < pow2 (ilog2 x)"
      using ilog2_bounds(2) [OF pos(1)] pow2_le_iff [of "ilog2 y + 1" "ilog2 x"] e(2) by linarith
    also have "\<dots> \<le> rnd x"
      by (rule rnd_ge_grid [OF ilog2_bounds(1) [OF pos(2)] m]) (use pos in simp)
    finally show ?thesis by simp
  qed
qed

lemma rnd_is_double: "0 \<le> q \<Longrightarrow> is_double (rnd q)"
proof (cases "q = 0 \<or> rnd q = 0")
  case False
  assume "0 \<le> q"
  with False have q: "0 < q" and r: "0 < rnd q" using rnd_nonneg [of q] by auto
  obtain m where m: "rnd q = of_int m * pow2 (ulp_exp q)" using rnd_is_multiple [of q] q by auto
  let ?t = "ilog2 q + 1"
  show ?thesis
  proof (cases "ulp_exp (rnd q) \<le> ulp_exp q")
    case True
    then show ?thesis by (rule grid_is_double [OF m])
  next
    case False
    have up: "ulp_exp q \<le> ?t \<or> ulp_exp q = - 1074" using q by (auto simp: ulp_exp_def)
    show ?thesis
    proof (cases "ulp_exp q \<le> ?t")
      case True
      then obtain k where "pow2 ?t = of_int k * pow2 (ulp_exp q)" using pow2_grid by blast
      then have le: "rnd q \<le> pow2 ?t"
        using rnd_le_grid [of q "pow2 ?t" k] ilog2_bounds(2) [OF q] q by simp
      have "\<not> rnd q < pow2 ?t"
      proof
        assume "rnd q < pow2 ?t"
        then have "ilog2 (rnd q) < ?t"
          using ilog2_bounds(1) [OF r] pow2_less_iff [of "ilog2 (rnd q)" ?t] by linarith
        then have "ulp_exp (rnd q) \<le> ulp_exp q" using q r by (simp add: ulp_exp_def)
        with \<open>\<not> ulp_exp (rnd q) \<le> ulp_exp q\<close> show False by simp
      qed
      with le have "rnd q = pow2 ?t" by simp
      moreover have "- 1074 \<le> ?t" using True by (simp add: ulp_exp_def)
      ultimately show ?thesis by (simp add: pow2_is_double)
    next
      case False
      then have t: "?t < - 1074" and e: "ulp_exp q = - 1074" using up by (auto simp: ulp_exp_def)
      have "q \<le> pow2 (- 1074)"
        using ilog2_bounds(2) [OF q] pow2_less_iff [of ?t "- 1074"] t by linarith
      then have "rnd q \<le> pow2 (- 1074)" using rnd_le_grid [of q _ 1] e q by simp
      then have "ilog2 (rnd q) \<le> - 1074"
        using ilog2_bounds(1) [OF r] pow2_le_iff [of "ilog2 (rnd q)" "- 1074"] by linarith
      then have "ulp_exp (rnd q) \<le> ulp_exp q" using r e by (simp add: ulp_exp_def)
      with \<open>\<not> ulp_exp (rnd q) \<le> ulp_exp q\<close> show ?thesis by simp
    qed
  qed
qed auto

lemma nat_is_double:
  assumes "n \<le> 2 ^ 53"
  shows "is_double (of_nat n)"
proof (cases "n = 0 \<or> n = 2 ^ 53")
  case True
  then show ?thesis using pow2_is_double [of 53] pow2_nat [of 53] by (auto simp: pow2_def)
next
  case False
  then have n: "0 < n" "n < 2 ^ 53" using assms by auto
  then have "(of_nat n :: rat) < of_nat (2 ^ 53)" by (simp only: of_nat_less_iff)
  then have "of_nat n < pow2 53" by (simp add: pow2_def)
  then have "ilog2 (of_nat n) < 53"
    using ilog2_bounds(1) [of "of_nat n"] n(1) pow2_less_iff [of "ilog2 (of_nat n)" 53]
    by linarith
  then have "ulp_exp (of_nat n) \<le> 0" using n(1) by (simp add: ulp_exp_def)
  then show ?thesis by (intro grid_is_double [of _ "int n" 0]) (simp_all add: pow2_def)
qed

section \<open>Operations on finite, non-negative doubles\<close>

definition nonneg_double :: "f64 \<Rightarrow> bool" where
  "nonneg_double v = (\<exists>x. v = Fin x \<and> 0 \<le> x \<and> x < pow2 1024 \<and> is_double x)"

text \<open>\<open>NaN\<close> or not below zero: what sums, products and quotients of such values are.\<close>

definition nonneg_f64 :: "f64 \<Rightarrow> bool" where
  "nonneg_f64 v = (v = NaN \<or> v = PosInf \<or> nonneg_double v)"

lemma nonneg_f64_cases:
  assumes "nonneg_f64 v"
  obtains (nan) "v = NaN" | (inf) "v = PosInf" | (fin) x where "v = Fin x" "0 \<le> x"
  using assms by (auto simp: nonneg_f64_def nonneg_double_def)

lemma nonneg_f64_simps [simp]: "nonneg_f64 NaN" "nonneg_f64 PosInf" "nonneg_f64 (Fin 0)"
  by (simp_all add: nonneg_f64_def nonneg_double_def)

lemma nonneg_double_f64: "nonneg_double v \<Longrightarrow> nonneg_f64 v"
  by (simp add: nonneg_f64_def)

lemma to_f64_double:
  "is_double x \<Longrightarrow> 0 \<le> x \<Longrightarrow> x < pow2 1024 \<Longrightarrow> to_f64 x = Fin x"
  using pow2_pos [of 1024] unfolding to_f64_def is_double_def Let_def by simp

lemma to_f64_nonneg:
  assumes "0 \<le> x"
  shows "nonneg_f64 (to_f64 x)"
  using rnd_nonneg [OF assms] rnd_is_double [OF assms] pow2_pos [of 1024]
  unfolding to_f64_def Let_def nonneg_f64_def nonneg_double_def by auto

lemma to_f64_below:
  assumes "0 \<le> x" "x \<le> y" "is_double y" "y < pow2 1024"
  shows "to_f64 x = Fin (rnd x)" "rnd x \<le> y"
proof -
  show le: "rnd x \<le> y" by (rule rnd_le [OF assms(1-3)])
  show "to_f64 x = Fin (rnd x)"
    using le assms(4) rnd_nonneg [OF assms(1)] pow2_pos [of 1024]
    unfolding to_f64_def Let_def by auto
qed

lemma pow2_1024_gt: "n \<le> 64 \<Longrightarrow> pow2 n < pow2 1024"
  by simp

lemma f64_of_nat_bound:
  assumes "n < 2 ^ 64"
  shows "\<exists>x. f64_of_nat n = Fin x \<and> 0 \<le> x \<and> x \<le> pow2 64 \<and> is_double x \<and> (n \<le> 2 ^ 53 \<longrightarrow> x = of_nat n)"
proof -
  have "rat_of_nat n < of_nat (2 ^ 64)" using assms by (simp only: of_nat_less_iff)
  then have "rat_of_nat n \<le> pow2 64" by (simp add: pow2_def)
  note b = to_f64_below [OF _ this pow2_is_double pow2_1024_gt]
  have "f64_of_nat n = Fin (rnd (of_nat n))" "rnd (of_nat n) \<le> pow2 64"
    unfolding f64_of_nat_def using b by simp_all
  moreover have "n \<le> 2 ^ 53 \<longrightarrow> rnd (of_nat n) = of_nat n"
    using nat_is_double [of n] by (simp add: is_double_def)
  ultimately show ?thesis using rnd_nonneg [of "of_nat n"] rnd_is_double [of "of_nat n"] by auto
qed

lemma f64_of_nat_small: "n \<le> 2 ^ 53 \<Longrightarrow> f64_of_nat n = Fin (of_nat n)"
  using f64_of_nat_bound [of n] by auto

text \<open>The minimum with a non-negative double is one, whatever the other argument was, unless that
  is below zero.\<close>

lemma f64_min_bounded:
  assumes "nonneg_double c" "nonneg_f64 u"
  shows "nonneg_double (f64_min u c)" "f64_min u c \<le> c"
  using assms by (auto simp: f64_min_def nonneg_double_def nonneg_f64_def)

lemma nonneg_add: "nonneg_f64 u \<Longrightarrow> nonneg_f64 v \<Longrightarrow> nonneg_f64 (u + v)"
  unfolding plus_f64_def by (elim nonneg_f64_cases) (simp_all add: to_f64_nonneg)

lemma nonneg_mul: "nonneg_f64 u \<Longrightarrow> nonneg_f64 v \<Longrightarrow> nonneg_f64 (u * v)"
  unfolding times_f64_def by (elim nonneg_f64_cases) (simp_all add: to_f64_nonneg signed_inf_def)

lemma nonneg_div: "nonneg_f64 u \<Longrightarrow> nonneg_f64 v \<Longrightarrow> nonneg_f64 (f64_div u v)"
  by (elim nonneg_f64_cases) (simp_all add: to_f64_nonneg signed_inf_def)

text \<open>A smaller double taken away leaves a double between zero and the larger one.\<close>

lemma nonneg_minus:
  assumes "nonneg_double u" "nonneg_double v" "v \<le> u"
  shows "nonneg_double (u - v)" "u - v \<le> u"
proof -
  obtain x y where x: "u = Fin x" "0 \<le> x" "x < pow2 1024" "is_double x"
    and y: "v = Fin y" "0 \<le> y"
    using assms(1,2) unfolding nonneg_double_def by blast
  have "y \<le> x" using assms(3) by (simp add: x(1) y(1))
  then have d: "0 \<le> x - y" "x - y \<le> x" using y(2) by simp_all
  have "u - v = Fin (rnd (x - y))" "rnd (x - y) \<le> x"
    using to_f64_below [OF d x(4,3)] by (simp_all add: minus_f64_def x(1) y(1))
  then show "nonneg_double (u - v)" "u - v \<le> u"
    using rnd_nonneg [OF d(1)] rnd_is_double [OF d(1)] x(1,3) by (auto simp: nonneg_double_def)
qed

section \<open>How much rounding adds\<close>

lemma round_even_upper: "of_int (round_even y) \<le> y + 1 / 2"
proof -
  have "of_int \<lfloor>y\<rfloor> \<le> y" "y < of_int \<lfloor>y\<rfloor> + 1" by linarith+
  moreover from this have "of_int \<lfloor>y\<rfloor> \<le> y + 1 / 2" by linarith
  ultimately show ?thesis by (auto simp: round_even_def Let_def)
qed

text \<open>In the range of the normal doubles a value is rounded up by at most one part in \<open>2^53\<close>.\<close>

lemma rnd_upper:
  assumes "q = 0 \<or> pow2 (- 1022) \<le> q"
  shows "rnd q \<le> q * (1 + pow2 (- 53))"
proof (cases "q = 0")
  case False
  then have q: "pow2 (- 1022) \<le> q" "0 < q" using assms pow2_pos [of "- 1022"] by (auto simp del: pow2_pos)
  let ?k = "ilog2 q"
  have "pow2 (- 1022) < pow2 (?k + 1)" using q(1) ilog2_bounds(2) [OF q(2)] by linarith
  then have "- 1022 \<le> ?k" by simp
  then have e: "ulp_exp q = ?k - 52" using q(2) by (simp add: ulp_exp_def)
  have "rnd q \<le> (q / pow2 (?k - 52) + 1 / 2) * pow2 (?k - 52)"
    using False round_even_upper by (simp add: rnd_def e mult_right_mono)
  also have "\<dots> = q + pow2 (?k - 52) / 2" by (simp add: field_simps)
  also have "pow2 (?k - 52) / 2 = pow2 ?k * pow2 (- 53)"
    using pow2_add [of ?k "- 53"] pow2_add [of "?k - 53" 1] by (simp add: pow2_def)
  also have "q + pow2 ?k * pow2 (- 53) \<le> q + q * pow2 (- 53)"
    using ilog2_bounds(1) [OF q(2)] by (simp add: mult_right_mono)
  finally show ?thesis by (simp add: field_simps)
qed simp

text \<open>A finite value that is zero or not too small, and at most \<open>q\<close>.\<close>

definition near :: "int \<Rightarrow> rat \<Rightarrow> f64 \<Rightarrow> bool" where
  "near j q v \<longleftrightarrow> (\<exists>x. v = Fin x \<and> (x = 0 \<or> pow2 j \<le> x) \<and> x \<le> q)"

abbreviation excess :: rat where "excess \<equiv> 1 + pow2 (- 53)"

lemma near_to_f64:
  assumes "x = 0 \<or> pow2 j \<le> x" "- 1022 \<le> j" "x \<le> q" "q * excess < pow2 1024"
  shows "near j (q * excess) (to_f64 x)"
proof -
  have "pow2 (- 1022) \<le> pow2 j" using assms(2) by (simp only: pow2_le_iff)
  then have u: "rnd x \<le> x * excess" using assms(1) by (intro rnd_upper) linarith
  have "x * excess \<le> q * excess" using assms(3) by (intro mult_right_mono) (simp_all add: add_nonneg_nonneg)
  then have le: "rnd x \<le> q * excess" using u by linarith
  have lo: "x = 0 \<or> pow2 j \<le> rnd x" using assms(1,2) rnd_ge [of "pow2 j" x] pow2_is_double [of j] by auto
  then have "0 \<le> rnd x" using pow2_nonneg [of j] by (auto simp del: pow2_nonneg)
  then have "to_f64 x = Fin (rnd x)"
    using le assms(4) pow2_pos [of 1024] unfolding to_f64_def Let_def by (auto simp del: pow2_pos)
  then show ?thesis using le lo by (auto simp: near_def)
qed

lemma near_mult:
  assumes "near i p v" "near j q w" "- 1022 \<le> i + j" "p * q * excess < pow2 1024"
  shows "near (i + j) (p * q * excess) (v * w)"
proof -
  obtain x y where v: "v = Fin x" "x = 0 \<or> pow2 i \<le> x" "x \<le> p"
      and w: "w = Fin y" "y = 0 \<or> pow2 j \<le> y" "y \<le> q"
    using assms(1,2) by (auto simp: near_def)
  have nn: "0 \<le> x" "0 \<le> y" using v(2) w(2) pow2_nonneg [of i] pow2_nonneg [of j] by (auto simp del: pow2_nonneg)
  have "x * y = 0 \<or> pow2 (i + j) \<le> x * y"
    using v(2) w(2) by (auto simp: pow2_add intro: mult_mono nn)
  moreover have "x * y \<le> p * q" using v(3) w(3) nn by (intro mult_mono) auto
  ultimately show ?thesis
    unfolding v(1) w(1) times_f64_def using near_to_f64 [OF _ assms(3) _ assms(4)] by simp
qed

lemma near_add:
  assumes "near j p v" "near j q w" "- 1022 \<le> j" "(p + q) * excess < pow2 1024"
  shows "near j ((p + q) * excess) (v + w)"
proof -
  obtain x y where v: "v = Fin x" "x = 0 \<or> pow2 j \<le> x" "x \<le> p"
      and w: "w = Fin y" "y = 0 \<or> pow2 j \<le> y" "y \<le> q"
    using assms(1,2) by (auto simp: near_def)
  have "x + y = 0 \<or> pow2 j \<le> x + y" using v(2) w(2) pow2_nonneg [of j] by (auto simp del: pow2_nonneg)
  then show ?thesis
    unfolding v(1) w(1) plus_f64_def using near_to_f64 [OF _ assms(3) _ assms(4), of "x + y"] v(3) w(3) by simp
qed

lemma near_mono: "near i p v \<Longrightarrow> j \<le> i \<Longrightarrow> p \<le> q \<Longrightarrow> near j q v"
  unfolding near_def by (metis order_trans pow2_le_iff)

lemma pow2_le_1024: "x \<le> pow2 j \<Longrightarrow> j < 1024 \<Longrightarrow> x < pow2 1024"
  using pow2_less_iff [of j 1024] by linarith

lemma excess_bounds: "1 \<le> excess" "excess ^ n \<le> 2 ^ n" "1 \<le> excess ^ n"
  by (simp_all add: pow2_def power_mono)

lemma near_nat:
  assumes "n < 2 ^ 64"
  shows "near 0 (of_nat n * excess) (f64_of_nat n)"
proof -
  have "rat_of_nat n < 2 ^ 64" using assms by (metis of_nat_less_iff of_nat_numeral of_nat_power)
  then have "of_nat n * excess \<le> 2 ^ 64 * 2" by (intro mult_mono) (simp_all add: pow2_def)
  then have "of_nat n * excess < pow2 1024" by (intro pow2_le_1024 [of _ 65]) (simp_all add: pow2_def)
  moreover have "rat_of_nat n = 0 \<or> pow2 0 \<le> rat_of_nat n" by (cases n) (simp_all add: pow2_def)
  ultimately show ?thesis unfolding f64_of_nat_def by (intro near_to_f64) simp_all
qed

lemma near_div_nat:
  assumes "near i p v" "0 < n" "n \<le> 2 ^ m" "m \<le> 53" "- 1022 \<le> i - int m" "p / of_nat n * excess < pow2 1024"
  shows "near (i - int m) (p / of_nat n * excess) (f64_div v (f64_of_nat n))"
proof -
  have "n \<le> 2 ^ 53" using assms(3) power_increasing [OF assms(4), of "2 :: nat"] by simp
  note n = f64_of_nat_small [OF this]
  obtain x where v: "v = Fin x" "x = 0 \<or> pow2 i \<le> x" "x \<le> p" using assms(1) by (auto simp: near_def)
  have "rat_of_nat n \<le> of_nat (2 ^ m)" using assms(3) by (simp only: of_nat_le_iff)
  then have "pow2 (i - int m) * of_nat n \<le> pow2 (i - int m) * pow2 (int m)"
    by (intro mult_left_mono) (simp_all add: pow2_nat)
  also have "\<dots> = pow2 i" by (simp add: pow2_add [symmetric])
  finally have "x / of_nat n = 0 \<or> pow2 (i - int m) \<le> x / of_nat n"
    using v(2) assms(2) by (auto simp: pos_le_divide_eq)
  moreover have "x / of_nat n \<le> p / of_nat n" using v(3) by (simp add: divide_right_mono)
  ultimately show ?thesis
    unfolding v(1) n using near_to_f64 [OF _ assms(5) _ assms(6)] assms(2) by simp
qed

end
