(* ===== verification/Rate_Limiter.thy ===== *)
theory Rate_Limiter
  imports Rust_Str Float64
begin

text \<open>
  \<open>src/telemetry/rate_limiter.rs\<close>: rules, token buckets over \<open>f64\<close> and the limiter with its two
  tables. An \<open>Instant\<close> is a number of nanoseconds and \<open>duration_since\<close> saturates at zero; each
  operation that reads the clock is given the instants it reads, in order. The request path of
  the gateway does not call the limiter.
\<close>

section \<open>Keys, rules, results\<close>

record rate_limit_key =
  rk_scope :: string
  rk_value :: string

definition as_string :: "rate_limit_key \<Rightarrow> string" where
  "as_string k = fmt [rk_scope k, '':'', rk_value k]"

datatype rate_limit_algorithm = TokenBucketAlgorithm | SlidingWindow | FixedWindow

datatype rate_limit_action = RejectAction | ThrottleAction | QueueAction

record rate_limit_rule =
  rule_id :: string
  rr_scope :: string
  scope_value :: "string option"
  algorithm :: rate_limit_algorithm
  requests_per_window :: "64 word"
  window_seconds :: "32 word"
  burst_allowance :: "64 word option"
  rr_action :: rate_limit_action
  priority :: "32 word"
  rr_enabled :: bool

record rate_limit_result =
  allowed :: bool
  remaining_requests :: "64 word"
  reset_after :: f64
  limit :: "64 word"
  applied_rule :: "string option"
  taken_action :: "rate_limit_action option"

datatype rate_limit_error = Exceeded string | RuleNotFound string | InvalidConfig string

fun rate_limit_error_text :: "rate_limit_error \<Rightarrow> string" where
  "rate_limit_error_text (Exceeded m) = fmt [''Rate limit exceeded: '', m]"
| "rate_limit_error_text (RuleNotFound m) = fmt [''Rule not found: '', m]"
| "rate_limit_error_text (InvalidConfig m) = fmt [''Invalid configuration: '', m]"

section \<open>Token buckets\<close>

record token_bucket =
  tokens :: f64
  last_refill :: nat
  capacity :: "64 word"
  refill_rate :: f64

definition u64_f64 :: "64 word \<Rightarrow> f64" where
  "u64_f64 w = f64_of_nat (unat w)"

text \<open>\<open>Duration::as_secs_f64\<close> of a number of nanoseconds.\<close>

definition secs_f64 :: "nat \<Rightarrow> f64" where
  "secs_f64 d = f64_of_nat (d div 10 ^ 9) + f64_div (f64_of_nat (d mod 10 ^ 9)) (f64_of_nat (10 ^ 9))"

definition bucket_new :: "nat \<Rightarrow> 64 word \<Rightarrow> f64 \<Rightarrow> token_bucket" where
  "bucket_new now cap rate =
     \<lparr>tokens = u64_f64 cap, last_refill = now, capacity = cap, refill_rate = rate\<rparr>"

definition refill :: "nat \<Rightarrow> token_bucket \<Rightarrow> token_bucket" where
  "refill now b =
     b\<lparr>tokens := f64_min (tokens b + secs_f64 (now - last_refill b) * refill_rate b)
                  (u64_f64 (capacity b)),
       last_refill := now\<rparr>"

definition try_consume :: "nat \<Rightarrow> f64 \<Rightarrow> token_bucket \<Rightarrow> bool \<times> token_bucket" where
  "try_consume now n b =
    (let b' = refill now b
     in if n \<le> tokens b' then (True, b'\<lparr>tokens := tokens b' - n\<rparr>) else (False, b'))"

definition remaining :: "nat \<Rightarrow> token_bucket \<Rightarrow> 64 word \<times> token_bucket" where
  "remaining now b = (let b' = refill now b in (floor_u64 (tokens b'), b'))"

definition reset_after_secs :: "token_bucket \<Rightarrow> f64" where
  "reset_after_secs b =
     (if 1 \<le> tokens b then 0 else f64_div (1 - tokens b) (refill_rate b))"

section \<open>The limiter\<close>

record limiter =
  buckets :: "token_bucket hmap"
  rules :: "rate_limit_rule list"
  default_rule :: "rate_limit_rule option"

definition limiter_new :: limiter where
  "limiter_new = \<lparr>buckets = [], rules = [], default_rule = None\<rparr>"

definition with_default_rule :: "rate_limit_rule \<Rightarrow> limiter" where
  "with_default_rule r = \<lparr>buckets = [], rules = [], default_rule = Some r\<rparr>"

definition rule_bucket :: "nat \<Rightarrow> rate_limit_rule \<Rightarrow> token_bucket" where
  "rule_bucket now r =
     bucket_new now
       (case burst_allowance r of Some n \<Rightarrow> n | None \<Rightarrow> requests_per_window r)
       (f64_div (u64_f64 (requests_per_window r)) (f64_of_nat (unat (window_seconds r))))"

definition get_or_create_bucket ::
  "nat \<Rightarrow> string \<Rightarrow> rate_limit_rule \<Rightarrow> limiter \<Rightarrow> token_bucket \<times> limiter" where
  "get_or_create_bucket now key r l =
    (case hm_get (buckets l) key of
       Some b \<Rightarrow> (b, l)
     | None \<Rightarrow> (rule_bucket now r, l\<lparr>buckets := hm_insert key (rule_bucket now r) (buckets l)\<rparr>))"

text \<open>The sort key \<open>-r.priority\<close>: the negation of an \<open>i32\<close> wraps in the release profile.\<close>

definition sort_value :: "rate_limit_rule \<Rightarrow> int" where
  "sort_value r = sint (- priority r)"

definition rule_matches :: "rate_limit_key \<Rightarrow> rate_limit_rule \<Rightarrow> bool" where
  "rule_matches k r =
    (rr_enabled r \<and>
     (rr_scope r = ''global'' \<or>
      rr_scope r = rk_scope k \<and> (scope_value r = None \<or> scope_value r = Some (rk_value k))))"

definition find_matching_rule :: "rate_limit_key \<Rightarrow> limiter \<Rightarrow> rate_limit_rule option" where
  "find_matching_rule k l =
    (case sort_key sort_value (filter (rule_matches k) (rules l)) of
       r # _ \<Rightarrow> Some r
     | [] \<Rightarrow> default_rule l)"

definition with_bucket ::
  "nat \<Rightarrow> string \<Rightarrow> rate_limit_rule \<Rightarrow> (token_bucket \<Rightarrow> 'a \<times> token_bucket) \<Rightarrow> limiter \<Rightarrow> 'a \<times> limiter" where
  "with_bucket now key r f l =
    (let b = (case hm_get (buckets l) key of Some b \<Rightarrow> b | None \<Rightarrow> rule_bucket now r);
         (a, b') = f b
     in (a, l\<lparr>buckets := hm_insert key b' (buckets l)\<rparr>))"

definition NO_RULE :: rate_limit_error where
  "NO_RULE = InvalidConfig ''No matching rate limit rule found''"

text \<open>The instants an operation reads: for a new bucket, for the first refill, for the second.\<close>

type_synonym clock = "nat \<times> nat \<times> nat"

definition check_bucket ::
  "nat \<Rightarrow> nat \<Rightarrow> rate_limit_rule \<Rightarrow> token_bucket \<Rightarrow> rate_limit_result \<times> token_bucket" where
  "check_bucket t1 t2 r b =
    (let (ok, b1) = try_consume t1 1 b;
         (rest, b2) = (if ok then remaining t2 b1 else (0, b1))
     in (\<lparr>allowed = ok, remaining_requests = rest, reset_after = reset_after_secs b2,
          limit = requests_per_window r, applied_rule = Some (rule_id r),
          taken_action = (if ok then None else Some (rr_action r))\<rparr>, b2))"

definition check ::
  "clock \<Rightarrow> rate_limit_key \<Rightarrow> limiter \<Rightarrow> (rate_limit_result, rate_limit_error) result \<times> limiter" where
  "check c k l =
    (case (c, find_matching_rule k l) of
       (_, None) \<Rightarrow> (Err NO_RULE, l)
     | ((t0, t1, t2), Some r) \<Rightarrow>
         (let (res, l') = with_bucket t0 (as_string k) r (check_bucket t1 t2 r) l in (Ok res, l')))"

definition peek_bucket ::
  "nat \<Rightarrow> rate_limit_rule \<Rightarrow> token_bucket \<Rightarrow> rate_limit_result \<times> token_bucket" where
  "peek_bucket t1 r b =
    (let (rest, b') = remaining t1 b
     in (\<lparr>allowed = (0 < rest), remaining_requests = rest, reset_after = reset_after_secs b',
          limit = requests_per_window r, applied_rule = Some (rule_id r), taken_action = None\<rparr>, b'))"

definition peek ::
  "clock \<Rightarrow> rate_limit_key \<Rightarrow> limiter \<Rightarrow> (rate_limit_result, rate_limit_error) result \<times> limiter" where
  "peek c k l =
    (case (c, find_matching_rule k l) of
       (_, None) \<Rightarrow> (Err NO_RULE, l)
     | ((t0, t1, _), Some r) \<Rightarrow>
         (let (res, l') = with_bucket t0 (as_string k) r (peek_bucket t1 r) l in (Ok res, l')))"

definition reset :: "rate_limit_key \<Rightarrow> limiter \<Rightarrow> (unit, rate_limit_error) result \<times> limiter" where
  "reset k l = (Ok (), l\<lparr>buckets := hm_remove (as_string k) (buckets l)\<rparr>)"

definition add_rule ::
  "rate_limit_rule \<Rightarrow> limiter \<Rightarrow> (unit, rate_limit_error) result \<times> limiter" where
  "add_rule r l =
    (if \<exists>x \<in> set (rules l). rule_id x = rule_id r then
       (Err (InvalidConfig (fmt [''Rule with ID '', quoted (rule_id r), '' already exists''])), l)
     else (Ok (), l\<lparr>rules := sort_key sort_value (rules l @ [r])\<rparr>))"

fun remove_first :: "('a \<Rightarrow> bool) \<Rightarrow> 'a list \<Rightarrow> 'a list" where
  "remove_first p [] = []"
| "remove_first p (x # xs) = (if p x then xs else x # remove_first p xs)"

definition remove_rule :: "string \<Rightarrow> limiter \<Rightarrow> (unit, rate_limit_error) result \<times> limiter" where
  "remove_rule i l =
    (if \<exists>x \<in> set (rules l). rule_id x = i
     then (Ok (), l\<lparr>rules := remove_first (\<lambda>x. rule_id x = i) (rules l)\<rparr>)
     else (Err (RuleNotFound i), l))"

section \<open>Runs\<close>

datatype limiter_op =
    Check clock rate_limit_key
  | Peek clock rate_limit_key
  | Reset rate_limit_key
  | AddRule rate_limit_rule
  | RemoveRule string

fun limiter_step :: "limiter_op \<Rightarrow> limiter \<Rightarrow> limiter" where
  "limiter_step (Check c k) l = snd (check c k l)"
| "limiter_step (Peek c k) l = snd (peek c k l)"
| "limiter_step (Reset k) l = snd (reset k l)"
| "limiter_step (AddRule r) l = snd (add_rule r l)"
| "limiter_step (RemoveRule i) l = snd (remove_rule i l)"

section \<open>Buckets stay within their bounds\<close>

lemma u64_f64_double: "nonneg_double (u64_f64 w)"
proof -
  have "unat w < 2 ^ 64" using unsigned_less [of w] by simp
  from f64_of_nat_bound [OF this] obtain x where
    "u64_f64 w = Fin x" "0 \<le> x" "x \<le> pow2 64" "is_double x"
    unfolding u64_f64_def by blast
  then show ?thesis
    using order_le_less_trans [OF _ pow2_1024_gt [of 64]] unfolding nonneg_double_def by blast
qed

lemma f64_of_nat_nonneg: "nonneg_f64 (f64_of_nat n)"
  by (simp add: f64_of_nat_def to_f64_nonneg)

lemma secs_nonneg: "nonneg_f64 (secs_f64 d)"
  by (simp add: secs_f64_def nonneg_add nonneg_div f64_of_nat_nonneg)

text \<open>What the invariant says of a bucket, with its rate.\<close>

definition bucket_inv :: "token_bucket \<Rightarrow> bool" where
  "bucket_inv b \<longleftrightarrow> nonneg_double (tokens b) \<and> tokens b \<le> u64_f64 (capacity b) \<and> nonneg_f64 (refill_rate b)"

lemma refill_inv: "bucket_inv b \<Longrightarrow> bucket_inv (refill now b)"
  by (simp add: bucket_inv_def refill_def f64_min_bounded u64_f64_double nonneg_add nonneg_mul
      secs_nonneg nonneg_double_f64)

lemma f64_le_trans: "(x::f64) \<le> y \<Longrightarrow> y \<le> z \<Longrightarrow> x \<le> z"
  by (cases x; cases y; cases z) simp_all

lemma one_nonneg: "nonneg_double 1"
  using u64_f64_double [of 1] f64_of_nat_small [of 1] by (simp add: u64_f64_def one_f64_def)

lemma try_consume_inv:
  "bucket_inv b \<Longrightarrow> nonneg_double n \<Longrightarrow> bucket_inv (snd (try_consume now n b))"
  using refill_inv [of b now] nonneg_minus [of "tokens (refill now b)" n]
  by (auto simp: try_consume_def Let_def bucket_inv_def intro: f64_le_trans)

lemma remaining_inv: "bucket_inv b \<Longrightarrow> bucket_inv (snd (remaining now b))"
  by (simp add: remaining_def Let_def refill_inv)

lemma rule_bucket_inv: "bucket_inv (rule_bucket now r)"
proof -
  have "x \<le> x" if "nonneg_double x" for x using that by (auto simp: nonneg_double_def)
  then show ?thesis
    by (simp add: bucket_inv_def rule_bucket_def bucket_new_def u64_f64_double nonneg_div
        nonneg_double_f64 f64_of_nat_nonneg)
qed

lemma check_bucket_inv: "bucket_inv b \<Longrightarrow> bucket_inv (snd (check_bucket t1 t2 r b))"
  by (simp add: check_bucket_def Let_def case_prod_beta try_consume_inv one_nonneg remaining_inv)

lemma peek_bucket_inv: "bucket_inv b \<Longrightarrow> bucket_inv (snd (peek_bucket t1 r b))"
  by (simp add: peek_bucket_def Let_def case_prod_beta remaining_inv)

section \<open>The invariant of the limiter\<close>

text \<open>Every bucket holds between zero and its capacity; the rules have distinct identifiers and
  are in the order of their sort values.\<close>

definition limiter_inv :: "limiter \<Rightarrow> bool" where
  "limiter_inv l =
    ((\<forall>k b. hm_get (buckets l) k = Some b \<longrightarrow> bucket_inv b) \<and>
     distinct (map rule_id (rules l)) \<and> sorted (map sort_value (rules l)))"

lemma with_bucket_inv:
  assumes "limiter_inv l" "\<And>b. bucket_inv b \<Longrightarrow> bucket_inv (snd (f b))"
  shows "limiter_inv (snd (with_bucket now key r f l))"
  using assms rule_bucket_inv
  by (auto simp: limiter_inv_def with_bucket_def Let_def split: prod.splits option.splits if_splits)
    (metis snd_conv)+

lemma remove_first_keeps:
  "set (remove_first p xs) \<subseteq> set xs"
  "distinct (map g xs) \<Longrightarrow> distinct (map g (remove_first p xs))"
  "sorted (map h xs) \<Longrightarrow> sorted (map h (remove_first p xs))"
proof -
  show sub: "set (remove_first p xs) \<subseteq> set xs" for xs
    by (induction xs) auto
  show "distinct (map g xs) \<Longrightarrow> distinct (map g (remove_first p xs))"
    using sub by (induction xs) fastforce+
  show "sorted (map h xs) \<Longrightarrow> sorted (map h (remove_first p xs))"
    using sub by (induction xs) fastforce+
qed

lemma limiter_inv_step: "limiter_inv l \<Longrightarrow> limiter_inv (limiter_step x l)"
proof (cases x)
  case (Check c k)
  assume "limiter_inv l"
  with Check show ?thesis
    by (simp add: check_def case_prod_beta with_bucket_inv check_bucket_inv split: option.split)
next
  case (Peek c k)
  assume "limiter_inv l"
  with Peek show ?thesis
    by (simp add: peek_def case_prod_beta with_bucket_inv peek_bucket_inv split: option.split)
next
  case (AddRule r)
  assume "limiter_inv l"
  moreover have "distinct (map rule_id (sort_key sort_value xs)) = distinct (map rule_id xs)" for xs
    by (metis mset_eq_imp_distinct_iff mset_map mset_sort)
  ultimately show ?thesis
    using AddRule by (auto simp: add_rule_def limiter_inv_def)
next
  case (RemoveRule i)
  assume "limiter_inv l"
  then show ?thesis
    using RemoveRule by (simp add: remove_rule_def limiter_inv_def remove_first_keeps)
qed (auto simp: reset_def limiter_inv_def)

interpretation rl: machine "limiter_new" limiter_step limiter_inv
  by unfold_locales (simp_all add: limiter_inv_step, simp add: limiter_inv_def limiter_new_def)

section \<open>Keys that share nothing\<close>

text \<open>What a client of a limiter may rely on: an operation on one key leaves the bucket of every key
  apart from it alone.\<close>

locale keyed_limiter =
  fixes check_on :: "'c \<Rightarrow> 'k \<Rightarrow> 's \<Rightarrow> 's"
    and peek_on :: "'c \<Rightarrow> 'k \<Rightarrow> 's \<Rightarrow> 's"
    and reset_on :: "'k \<Rightarrow> 's \<Rightarrow> 's"
    and bucket_of :: "'s \<Rightarrow> 'k \<Rightarrow> 'b"
    and apart :: "'k \<Rightarrow> 'k \<Rightarrow> bool"
  assumes check_frame: "apart k k' \<Longrightarrow> bucket_of (check_on c k s) k' = bucket_of s k'"
    and peek_frame: "apart k k' \<Longrightarrow> bucket_of (peek_on c k s) k' = bucket_of s k'"
    and reset_frame: "apart k k' \<Longrightarrow> bucket_of (reset_on k s) k' = bucket_of s k'"
begin

lemma others_frame:
  assumes "\<And>x s. x \<in> set ops \<Longrightarrow>
      \<exists>k c. apart k k' \<and> (step x s = check_on c k s \<or> step x s = peek_on c k s \<or> step x s = reset_on k s)"
  shows "bucket_of (run step ops s) k' = bucket_of s k'"
  using assms
proof (induction ops arbitrary: s)
  case (Cons x ops)
  obtain k c where "apart k k'"
      "step x s = check_on c k s \<or> step x s = peek_on c k s \<or> step x s = reset_on k s"
    using Cons.prems [of x s] by auto
  then have "bucket_of (step x s) k' = bucket_of s k'"
    using check_frame peek_frame reset_frame by metis
  then show ?case using Cons.IH [of "step x s"] Cons.prems by simp
qed simp

end

definition bucket_of :: "limiter \<Rightarrow> rate_limit_key \<Rightarrow> token_bucket option" where
  "bucket_of l k = hm_get (buckets l) (as_string k)"

definition keys_apart :: "rate_limit_key \<Rightarrow> rate_limit_key \<Rightarrow> bool" where
  "keys_apart k k' = (as_string k \<noteq> as_string k')"

lemma with_bucket_frame:
  "key \<noteq> key' \<Longrightarrow> hm_get (buckets (snd (with_bucket t key r f l))) key' = hm_get (buckets l) key'"
  by (simp add: with_bucket_def Let_def case_prod_beta)

interpretation keyed: keyed_limiter "\<lambda>c k l. snd (check c k l)" "\<lambda>c k l. snd (peek c k l)"
  "\<lambda>k l. snd (reset k l)" bucket_of keys_apart
  by unfold_locales
    (simp_all add: bucket_of_def keys_apart_def check_def peek_def reset_def case_prod_beta
      with_bucket_frame split: option.split)

lemma ops_keep_rules:
  "rules (snd (check c k l)) = rules l" "rules (snd (peek c k l)) = rules l"
  "rules (snd (reset k l)) = rules l" "default_rule (snd (check c k l)) = default_rule l"
  "default_rule (snd (peek c k l)) = default_rule l" "default_rule (snd (reset k l)) = default_rule l"
  by (simp_all add: check_def peek_def reset_def with_bucket_def Let_def case_prod_beta split: option.split)

text \<open>The operations of a run that concern other keys only and change no rule.\<close>

fun on_other_key :: "rate_limit_key \<Rightarrow> limiter_op \<Rightarrow> bool" where
  "on_other_key k' (Check c k) = keys_apart k k'"
| "on_other_key k' (Peek c k) = keys_apart k k'"
| "on_other_key k' (Reset k) = keys_apart k k'"
| "on_other_key k' _ = False"

lemma other_key_keeps:
  assumes "list_all (on_other_key k') ops"
  shows "bucket_of (run limiter_step ops l) k' = bucket_of l k'"
    and "rules (run limiter_step ops l) = rules l"
    and "default_rule (run limiter_step ops l) = default_rule l"
proof -
  have "\<exists>k c. keys_apart k k' \<and>
      (limiter_step x s = snd (check c k s) \<or> limiter_step x s = snd (peek c k s) \<or>
       limiter_step x s = snd (reset k s))" if "x \<in> set ops" for x s
    using assms that by (cases x) (simp_all only: list_all_iff limiter_step.simps, fastforce+)
  then show "bucket_of (run limiter_step ops l) k' = bucket_of l k'" by (rule keyed.others_frame)
  have "rules (limiter_step x s) = rules s \<and> default_rule (limiter_step x s) = default_rule s"
    if "x \<in> set ops" for x s
    using assms that by (cases x) (auto simp: list_all_iff ops_keep_rules)
  then have "rules (run limiter_step ops l) = rules l \<and>
      default_rule (run limiter_step ops l) = default_rule l"
    using assms by (induction ops arbitrary: l) auto
  then show "rules (run limiter_step ops l) = rules l"
    "default_rule (run limiter_step ops l) = default_rule l" by simp_all
qed

lemma check_cong:
  assumes "bucket_of l k = bucket_of l' k" "rules l = rules l'" "default_rule l = default_rule l'"
  shows "fst (check c k l) = fst (check c k l')"
proof -
  have "find_matching_rule k l = find_matching_rule k l'"
    by (simp add: find_matching_rule_def assms split: list.split)
  then show ?thesis
    using assms(1) by (simp add: check_def with_bucket_def bucket_of_def Let_def case_prod_beta split: option.split)
qed

section \<open>Bursts\<close>

text \<open>The verdicts of a sequence of checks on one key.\<close>

fun verdicts :: "clock list \<Rightarrow> rate_limit_key \<Rightarrow> limiter \<Rightarrow> bool list" where
  "verdicts [] k l = []"
| "verdicts (c # cs) k l =
     (case check c k l of
        (Ok r, l') \<Rightarrow> allowed r # verdicts cs k l'
      | (Err _, l') \<Rightarrow> False # verdicts cs k l')"

definition rule_capacity :: "rate_limit_rule \<Rightarrow> 64 word" where
  "rule_capacity r = (case burst_allowance r of Some n \<Rightarrow> n | None \<Rightarrow> requests_per_window r)"

text \<open>The bucket a check works on: the key's, or a new one for the rule.\<close>

definition current_bucket :: "clock \<Rightarrow> rate_limit_key \<Rightarrow> rate_limit_rule \<Rightarrow> limiter \<Rightarrow> token_bucket" where
  "current_bucket c k r l = (case bucket_of l k of Some b \<Rightarrow> b | None \<Rightarrow> rule_bucket (fst c) r)"

lemma check_known:
  assumes "find_matching_rule k l = Some r"
  shows "\<exists>res l'. check c k l = (Ok res, l') \<and>
    check_bucket (fst (snd c)) (snd (snd c)) r (current_bucket c k r l) = (res, the (bucket_of l' k)) \<and>
    bucket_of l' k \<noteq> None \<and> find_matching_rule k l' = Some r"
proof -
  let ?b = "current_bucket c k r l"
  obtain res b' where cb: "check_bucket (fst (snd c)) (snd (snd c)) r ?b = (res, b')" by force
  let ?l' = "l\<lparr>buckets := hm_insert (as_string k) b' (buckets l)\<rparr>"
  have "check c k l = (Ok res, ?l')"
    using cb by (simp add: check_def assms with_bucket_def current_bucket_def bucket_of_def Let_def case_prod_beta)
  moreover have "bucket_of ?l' k = Some b'" by (simp add: bucket_of_def)
  moreover have "find_matching_rule k ?l' = Some r" using assms by (simp add: find_matching_rule_def split: list.splits)
  ultimately show ?thesis using cb by auto
qed

text \<open>An invariant of the bucket under which every check has a known verdict decides the sequence.\<close>

lemma verdicts_replicate:
  assumes "find_matching_rule k l = Some r"
    and "\<And>c. c \<in> set cs \<Longrightarrow> P (current_bucket c k r l)"
    and "\<And>b c res b'. P b \<Longrightarrow> c \<in> set cs \<Longrightarrow> check_bucket (fst (snd c)) (snd (snd c)) r b = (res, b') \<Longrightarrow>
           allowed res = v \<and> P b'"
  shows "verdicts cs k l = replicate (length cs) v"
  using assms
proof (induction cs arbitrary: l)
  case (Cons c cs)
  obtain res l' where ck: "check c k l = (Ok res, l')"
    and cb: "check_bucket (fst (snd c)) (snd (snd c)) r (current_bucket c k r l) = (res, the (bucket_of l' k))"
    and l': "bucket_of l' k \<noteq> None" "find_matching_rule k l' = Some r"
    using check_known [OF Cons.prems(1), of c] by blast
  have ok: "allowed res = v \<and> P (the (bucket_of l' k))"
    by (rule Cons.prems(3) [OF _ _ cb]) (simp_all add: Cons.prems(2))
  moreover have "current_bucket d k r l' = the (bucket_of l' k)" for d
    using l'(1) by (auto simp: current_bucket_def)
  ultimately have "verdicts cs k l' = replicate (length cs) v"
    by (intro Cons.IH l'(2)) (simp, rule Cons.prems(3), simp_all only: list.set insert_iff simp_thms)
  with ck ok show ?case by simp
qed simp

text \<open>A bucket at the instant of its last refill, with a whole number of tokens.\<close>

definition counting :: "nat \<Rightarrow> nat \<Rightarrow> token_bucket \<Rightarrow> bool" where
  "counting t n b \<longleftrightarrow>
     tokens b = Fin (of_nat n) \<and> last_refill b = t \<and> n \<le> 2 ^ 53 \<and>
     Fin (of_nat n) \<le> u64_f64 (capacity b) \<and> (\<exists>x. refill_rate b = Fin x)"

lemma nat_lt_2_1024: "n \<le> 2 ^ 53 \<Longrightarrow> rat_of_nat n < pow2 1024"
proof -
  assume "n \<le> 2 ^ 53"
  then have "rat_of_nat n \<le> of_nat (2 ^ 53)" by (simp only: of_nat_le_iff)
  also have "\<dots> = pow2 53" by (simp add: pow2_def)
  finally show ?thesis using pow2_less_iff [of 53 1024] by linarith
qed

lemma to_f64_nat: "n \<le> 2 ^ 53 \<Longrightarrow> to_f64 (of_nat n) = Fin (of_nat n)"
  by (rule to_f64_double) (simp_all add: nat_is_double nat_lt_2_1024)

lemma to_f64_0 [simp]: "to_f64 0 = Fin 0"
  using to_f64_nat [of 0] by simp

lemma secs_0 [simp]: "secs_f64 0 = Fin 0"
  using f64_of_nat_small [of 0] f64_of_nat_small [of "10 ^ 9"]
  by (simp add: secs_f64_def plus_f64_def)

lemma refill_counting:
  assumes "counting t n b"
  shows "refill t b = b"
proof -
  obtain x where b: "tokens b = Fin (of_nat n)" "last_refill b = t" "n \<le> 2 ^ 53"
      "Fin (of_nat n) \<le> u64_f64 (capacity b)" "refill_rate b = Fin x"
    using assms unfolding counting_def by blast
  have "tokens b + secs_f64 (t - last_refill b) * refill_rate b = tokens b"
    by (simp add: b(1,2,5) plus_f64_def times_f64_def to_f64_nat [OF b(3)])
  moreover have "f64_min (tokens b) (u64_f64 (capacity b)) = tokens b"
    using b(1,4) u64_f64_double [of "capacity b"] by (auto simp: f64_min_def nonneg_double_def)
  ultimately show ?thesis using b(2) by (simp add: refill_def)
qed

lemma counting_consume:
  assumes "counting t n b"
  shows "try_consume t 1 b = (0 < n, if 0 < n then b\<lparr>tokens := Fin (of_nat (n - 1))\<rparr> else b)"
    and "0 < n \<Longrightarrow> counting t (n - 1) (b\<lparr>tokens := Fin (of_nat (n - 1))\<rparr>)"
proof -
  have b: "tokens b = Fin (of_nat n)" "n \<le> 2 ^ 53" "Fin (of_nat n) \<le> u64_f64 (capacity b)"
    using assms unfolding counting_def by blast+
  have "Fin (rat_of_nat n) - Fin 1 = Fin (of_nat (n - 1))" if "0 < n"
    using to_f64_nat [of "n - 1"] b(2) that by (simp add: minus_f64_def of_nat_diff)
  moreover have "rat_of_nat 1 \<le> of_nat n \<longleftrightarrow> 0 < n" by (simp only: of_nat_le_iff) auto
  ultimately show "try_consume t 1 b = (0 < n, if 0 < n then b\<lparr>tokens := Fin (of_nat (n - 1))\<rparr> else b)"
    by (simp add: try_consume_def refill_counting [OF assms] one_f64_def b(1))
  have "Fin (rat_of_nat (n - 1)) \<le> Fin (of_nat n)" by simp
  then have "Fin (of_nat (n - 1)) \<le> u64_f64 (capacity b)" using b(3) f64_le_trans by blast
  then show "counting t (n - 1) (b\<lparr>tokens := Fin (of_nat (n - 1))\<rparr>)"
    using assms by (auto simp: counting_def)
qed

lemma check_counting:
  assumes "counting t n b" "check_bucket t t r b = (res, b')"
  shows "allowed res = (0 < n) \<and> counting t (n - 1) b'"
  using assms counting_consume [OF assms(1)] refill_counting
  by (cases "0 < n") (auto simp: check_bucket_def remaining_def Let_def)

lemma rule_bucket_counting:
  assumes "window_seconds r \<noteq> 0" "unat (rule_capacity r) \<le> 2 ^ 53"
  shows "counting t (unat (rule_capacity r)) (rule_bucket t r)"
proof -
  obtain n where n: "unat (window_seconds r) = n" by simp
  have "unat (window_seconds r) < 2 ^ 32" using unsigned_less [of "window_seconds r"] by simp
  then have "n < 2 ^ 32" by (simp only: n)
  moreover have "n \<noteq> 0" using assms(1) n unat_0_iff by auto
  ultimately have w: "0 < n" "n \<le> 2 ^ 53" by simp_all
  have "unat (requests_per_window r) < 2 ^ 64"
    using unsigned_less [of "requests_per_window r"] by simp
  from f64_of_nat_bound [OF this] obtain x where
    x: "u64_f64 (requests_per_window r) = Fin x" "0 \<le> x" "x \<le> pow2 64" "is_double x"
    unfolding u64_f64_def by blast
  have "1 \<le> rat_of_nat n" using w(1) by simp
  then have "x / of_nat n \<le> x" "0 \<le> x / of_nat n"
    using x(2) mult_left_mono [of 1 "rat_of_nat n" x]
w(1)
    by (simp_all add: pos_divide_le_eq)
  then have "to_f64 (x / of_nat n) = Fin (rnd (x / of_nat n))"
    using to_f64_below(1) [OF _ _ x(4)] x(3) pow2_1024_gt [of 64] by fastforce
  then have "\<exists>z. refill_rate (rule_bucket t r) = Fin z"
    using w(1) by (simp add: rule_bucket_def bucket_new_def n x(1) f64_of_nat_small [OF w(2)])
  moreover have "u64_f64 (rule_capacity r) = Fin (of_nat (unat (rule_capacity r)))"
    unfolding u64_f64_def by (rule f64_of_nat_small [OF assms(2)])
  ultimately show ?thesis
    using assms(2) by (simp add: counting_def rule_bucket_def bucket_new_def rule_capacity_def)
qed

lemma verdicts_counting:
  assumes "find_matching_rule k l = Some r" "counting t n (current_bucket (t, t, t) k r l)"
  shows "verdicts (replicate m (t, t, t)) k l = replicate (min m n) True @ replicate (m - n) False"
  using assms
proof (induction m arbitrary: l n)
  case (Suc m)
  obtain res l' where ck: "check (t, t, t) k l = (Ok res, l')"
    and cb: "check_bucket t t r (current_bucket (t, t, t) k r l) = (res, the (bucket_of l' k))"
    and l': "bucket_of l' k \<noteq> None" "find_matching_rule k l' = Some r"
    using check_known [OF Suc.prems(1), of "(t, t, t)"] by auto
  note step = check_counting [OF Suc.prems(2) cb]
  then have "counting t (n - 1) (current_bucket (t, t, t) k r l')"
    using l'(1) by (auto simp: current_bucket_def)
  note IH = Suc.IH [OF l'(2) this]
  show ?case
    using step by (cases n) (simp_all add: ck IH)
qed simp

section \<open>Limits that do not limit\<close>

text \<open>With \<open>window_seconds\<close> 0 the rate is infinite or not a number, and so is what a refill adds:
  the minimum then is the capacity.\<close>

definition unlimited :: "token_bucket \<Rightarrow> bool" where
  "unlimited b \<longleftrightarrow> (refill_rate b = PosInf \<or> refill_rate b = NaN) \<and> bucket_inv b \<and> Fin 1 \<le> u64_f64 (capacity b)"

lemma unlimited_refill:
  assumes "unlimited b"
  shows "tokens (refill now b) = u64_f64 (capacity b)"
proof -
  have rate: "refill_rate b = PosInf \<or> refill_rate b = NaN" and inv: "bucket_inv b"
    using assms by (simp_all add: unlimited_def)
  have s: "nonneg_f64 (secs_f64 (now - last_refill b))" by (rule secs_nonneg)
  let ?d = "secs_f64 (now - last_refill b) * refill_rate b"
  have "?d = NaN \<or> ?d = PosInf"
    using rate s by (elim nonneg_f64_cases disjE) (simp_all add: times_f64_def signed_inf_def)
  moreover obtain x where x: "tokens b = Fin x"
    using inv by (auto simp: bucket_inv_def nonneg_double_def)
  ultimately have "tokens b + ?d = NaN \<or> tokens b + ?d = PosInf"
    by (auto simp: plus_f64_def)
  then show ?thesis
    using u64_f64_double [of "capacity b"] by (auto simp: refill_def f64_min_def nonneg_double_def)
qed

lemma unlimited_check:
  assumes "unlimited b" "check_bucket t1 t2 r b = (res, b')"
  shows "allowed res \<and> unlimited b'"
proof -
  have one: "1 \<le> tokens (refill t1 b)"
    using unlimited_refill [OF assms(1)] assms(1) by (simp add: unlimited_def one_f64_def)
  have keep: "refill_rate b' = refill_rate b" "capacity b' = capacity b"
    using assms(2) by (auto simp: check_bucket_def try_consume_def remaining_def refill_def Let_def
        split: if_splits)
  moreover have "bucket_inv b'"
    using check_bucket_inv [of b t1 t2 r] assms by (simp add: unlimited_def)
  ultimately show ?thesis
    using assms one by (auto simp: unlimited_def check_bucket_def try_consume_def Let_def case_prod_beta)
qed

lemma zero_window_bucket:
  assumes "window_seconds r = 0" "rule_capacity r \<noteq> 0"
  shows "unlimited (rule_bucket t r)"
proof -
  obtain x where x: "u64_f64 (requests_per_window r) = Fin x" "0 \<le> x"
    using u64_f64_double [of "requests_per_window r"] by (auto simp: nonneg_double_def)
  have rate: "refill_rate (rule_bucket t r) = PosInf \<or> refill_rate (rule_bucket t r) = NaN"
    using assms(1) x(2) f64_of_nat_small [of 0]
    by (simp add: rule_bucket_def bucket_new_def x(1) signed_inf_def)
  have "rat_of_nat 1 \<le> of_nat (unat (rule_capacity r))"
    using assms(2) by (simp only: of_nat_le_iff) (simp add: unat_gt_0 Suc_le_eq)
  then have "1 \<le> rnd (of_nat (unat (rule_capacity r)))"
    using rnd_ge [of 1] nat_is_double [of 1] by simp
  moreover have "u64_f64 (rule_capacity r) = Fin (rnd (of_nat (unat (rule_capacity r))))"
    using u64_f64_double [of "rule_capacity r"]
    by (auto simp: u64_f64_def f64_of_nat_def to_f64_def Let_def nonneg_double_def split: if_splits)
  ultimately show ?thesis
    using rate rule_bucket_inv [of t r]
    by (simp add: unlimited_def rule_bucket_def bucket_new_def rule_capacity_def)
qed

section \<open>Choosing a rule\<close>

definition I32_MIN :: "32 word" where "I32_MIN = - (2 ^ 31)"

lemma sort_value_priority:
  "sort_value r = (if priority r = I32_MIN then - (2 ^ 31) else - sint (priority r))"
proof (cases "priority r = I32_MIN")
  case True
  then show ?thesis by (simp add: sort_value_def I32_MIN_def)
next
  case False
  have "word_of_int (sint (priority r)) \<noteq> (word_of_int (- (2 ^ 31)) :: 32 word)"
    using False by (simp add: I32_MIN_def)
  then have "sint (priority r) \<noteq> - (2 ^ 31)" by metis
  moreover have "- (2 ^ 31) \<le> sint (priority r)" "sint (priority r) < 2 ^ 31"
    using sint_ge [of "priority r"] sint_lt [of "priority r"] by simp_all
  ultimately have "signed_take_bit 31 (- sint (priority r)) = - sint (priority r)"
    by (intro signed_take_bit_int_eq_self) simp_all
  then show ?thesis
    using False by (simp add: sort_value_def sint_word_ariths)
qed

lemma find_matching_best:
  assumes "x \<in> set (rules l)" "rule_matches k x"
  shows "\<exists>r. find_matching_rule k l = Some r \<and> r \<in> set (rules l) \<and> rule_matches k r \<and>
           (\<forall>y \<in> set (rules l). rule_matches k y \<longrightarrow> sort_value r \<le> sort_value y)"
proof -
  let ?xs = "sort_key sort_value (filter (rule_matches k) (rules l))"
  have set: "set ?xs = {y \<in> set (rules l). rule_matches k y}" by simp
  have sorted: "sorted (map sort_value ?xs)" by simp
  obtain r rs where r: "?xs = r # rs"
    using assms set by (cases ?xs) auto
  have "\<forall>y \<in> set ?xs. sort_value r \<le> sort_value y" using sorted unfolding r by auto
  moreover have "r \<in> set ?xs" unfolding r by simp
  ultimately show ?thesis unfolding set by (simp add: find_matching_rule_def r)
qed

section \<open>Properties\<close>

text \<open>C17: Whatever is checked, reset, added or removed, and whatever the clock says, every bucket
  holds a number of tokens between zero and its capacity (never an infinity or \<open>NaN\<close>), the rules
  are in the order in which they are tried, and no two have the same identifier.\<close>

theorem limiter_consistent:
  "limiter_inv (run limiter_step ops limiter_new) \<and>
   limiter_inv (run limiter_step ops (with_default_rule r))"
proof
  show "limiter_inv (run limiter_step ops limiter_new)" by (rule rl.inv_run)
  show "limiter_inv (run limiter_step ops (with_default_rule r))"
    by (rule rl.inv_run_from) (simp add: limiter_inv_def with_default_rule_def)
qed

text \<open>C20: A fresh key gets exactly its burst: of any number of checks at one instant, the first ones
  up to the rule's capacity are admitted and all others are refused.\<close>

theorem burst_is_exact:
  assumes "find_matching_rule k l = Some r" "bucket_of l k = None"
    and "window_seconds r \<noteq> 0" "unat (rule_capacity r) \<le> 2 ^ 53"
  shows "verdicts (replicate m (t, t, t)) k l =
           replicate (min m (unat (rule_capacity r))) True @
           replicate (m - unat (rule_capacity r)) False"
  by (rule verdicts_counting [OF assms(1)])
    (simp add: current_bucket_def assms(2) rule_bucket_counting [OF assms(3,4)])

definition sample_rule :: rate_limit_rule where
  "sample_rule =
     \<lparr>rule_id = ''r'', rr_scope = ''global'', scope_value = None, algorithm = TokenBucketAlgorithm,
      requests_per_window = 2, window_seconds = 60, burst_allowance = None,
      rr_action = RejectAction, priority = 0, rr_enabled = True\<rparr>"

definition sample_key :: rate_limit_key where
  "sample_key = \<lparr>rk_scope = ''user'', rk_value = ''u''\<rparr>"

lemma burst_is_exact_witness:
  "verdicts (replicate 3 (7, 7, 7)) sample_key (with_default_rule sample_rule) = [True, True, False]"
proof -
  have c: "unat (rule_capacity sample_rule) = 2" by (simp add: rule_capacity_def sample_rule_def)
  have "verdicts (replicate 3 (7, 7, 7)) sample_key (with_default_rule sample_rule) =
      replicate (min 3 (unat (rule_capacity sample_rule))) True @
      replicate (3 - unat (rule_capacity sample_rule)) False"
    by (rule burst_is_exact)
      (simp_all add: c find_matching_rule_def with_default_rule_def bucket_of_def,
        simp add: sample_rule_def)
  then show ?thesis by (simp only: c) (simp add: numeral_eq_Suc)
qed

text \<open>A rule whose window is zero seconds long limits nothing: with a capacity of at least one,
  every check of a fresh key is admitted, at whatever instants. (Nothing rejects such a rule.)\<close>

theorem zero_window_never_refuses:
  assumes "find_matching_rule k l = Some r" "bucket_of l k = None"
    and "window_seconds r = 0" "rule_capacity r \<noteq> 0"
  shows "verdicts cs k l = replicate (length cs) True"
proof (rule verdicts_replicate [OF assms(1), where P = unlimited])
  fix c
  show "unlimited (current_bucket c k r l)"
    by (simp add: current_bucket_def assms(2) zero_window_bucket [OF assms(3,4)])
next
  fix b c res b'
  assume "unlimited b" "check_bucket (fst (snd c)) (snd (snd c)) r b = (res, b')"
  then show "allowed res = True \<and> unlimited b'" using unlimited_check by simp
qed

lemma zero_window_never_refuses_witness:
  "verdicts [(0, 0, 0), (0, 0, 0), (0, 0, 0)] sample_key
     (with_default_rule (sample_rule\<lparr>window_seconds := 0\<rparr>)) = [True, True, True]"
proof -
  let ?r = "sample_rule\<lparr>window_seconds := 0\<rparr>"
  have "verdicts [(0, 0, 0), (0, 0, 0), (0, 0, 0)] sample_key (with_default_rule ?r) =
      replicate (length [(0, 0, 0), (0, 0, 0), (0::nat, 0::nat, 0::nat)]) True"
    by (rule zero_window_never_refuses [of _ _ ?r])
      (simp_all add: find_matching_rule_def with_default_rule_def bucket_of_def rule_capacity_def,
        simp add: sample_rule_def)
  then show ?thesis by (simp only: list.size replicate.simps) simp
qed

text \<open>C21: Among the enabled rules that match a key, one of the highest priority is applied, as long
  as none has the priority \<open>i32::MIN\<close>. That one wraps when it is negated for sorting and is then
  applied before all others.\<close>

theorem rule_selection:
  assumes "x \<in> set (rules l)" "rule_matches k x"
  shows "\<exists>r. find_matching_rule k l = Some r \<and> r \<in> set (rules l) \<and> rule_matches k r \<and>
           (if priority x = I32_MIN then priority r = I32_MIN
            else priority r = I32_MIN \<or> sint (priority x) \<le> sint (priority r))"
proof -
  obtain r where r: "find_matching_rule k l = Some r" "r \<in> set (rules l)" "rule_matches k r"
      "sort_value r \<le> sort_value x"
    using find_matching_best [OF assms] assms by blast
  have "sint (priority r) < 2 ^ 31"
    using sint_lt [of "priority r"] by simp
  then have "if priority x = I32_MIN then priority r = I32_MIN
      else priority r = I32_MIN \<or> sint (priority x) \<le> sint (priority r)"
    using r(4) unfolding sort_value_priority
    by (cases "priority x = I32_MIN"; cases "priority r = I32_MIN") simp_all
  with r show ?thesis by blast
qed

lemma rule_selection_witness:
  "(let low = sample_rule\<lparr>rule_id := ''low'', priority := I32_MIN\<rparr>;
        l = run limiter_step [AddRule sample_rule, AddRule low] limiter_new
    in map_option priority (find_matching_rule sample_key l)) = Some I32_MIN"
proof -
  let ?low = "sample_rule\<lparr>rule_id := ''low'', priority := I32_MIN\<rparr>"
  let ?l = "run limiter_step [AddRule sample_rule, AddRule ?low] limiter_new"
  have "?low \<in> set (rules ?l)"
    by (simp add: add_rule_def limiter_new_def sample_rule_def)
  moreover have "rule_matches sample_key ?low"
    by (simp add: rule_matches_def sample_rule_def)
  ultimately show ?thesis
    using rule_selection [of ?low ?l sample_key] by (auto simp: Let_def)
qed



section \<open>Recovery\<close>

text \<open>At least a positive power of two, infinity included.\<close>

definition at_least :: "int \<Rightarrow> f64 \<Rightarrow> bool" where
  "at_least k v \<longleftrightarrow> v = PosInf \<or> (\<exists>x. v = Fin x \<and> pow2 k \<le> x)"

lemma to_f64_at_least: "- 1074 \<le> k \<Longrightarrow> pow2 k \<le> q \<Longrightarrow> at_least k (to_f64 q)"
proof -
  assume k: "- 1074 \<le> k" "pow2 k \<le> q"
  then have "pow2 k \<le> rnd q" by (intro rnd_ge pow2_is_double) simp_all
  moreover from this have "\<not> rnd q \<le> - pow2 1024"
    using pow2_pos [of k] pow2_pos [of 1024] by linarith
  ultimately show ?thesis by (simp add: at_least_def to_f64_def Let_def)
qed

lemma at_least_add: "- 1074 \<le> k \<Longrightarrow> at_least k u \<Longrightarrow> nonneg_double v \<Longrightarrow> at_least k (u + v)"
proof -
  assume k: "- 1074 \<le> k" and u: "at_least k u" and v: "nonneg_double v"
  obtain y where y: "v = Fin y" "0 \<le> y" using v by (auto simp: nonneg_double_def)
  consider x where "u = Fin x" "pow2 k \<le> x" | "u = PosInf" using u by (auto simp: at_least_def)
  then show ?thesis
  proof cases
    case 1
    then have "pow2 k \<le> x + y" using y(2) by simp
    then show ?thesis using to_f64_at_least [OF k] by (simp add: 1(1) y(1) plus_f64_def)
  qed (simp add: y(1) plus_f64_def at_least_def)
qed

lemma at_least_mul:
  assumes "- 1074 \<le> j + k" "at_least j u" "at_least k v"
  shows "at_least (j + k) (u * v)"
proof -
  have pos: "0 < x \<and> x \<noteq> 0 \<and> \<not> x < 0" if "pow2 i \<le> x" for i and x :: rat
    using that pow2_pos [of i] by linarith
  consider x y where "u = Fin x" "v = Fin y" "pow2 j \<le> x" "pow2 k \<le> y"
    | "u * v = PosInf"
    using assms(2,3) pos
    by (auto simp: at_least_def times_f64_def signed_inf_def)
  then show ?thesis
  proof cases
    case 1
    then have "pow2 (j + k) \<le> x * y" using pow2_nonneg [of j] pow2_nonneg [of k] by (auto simp only: pow2_add intro!: mult_mono)
    then show ?thesis using to_f64_at_least [OF assms(1)] 1 by (simp add: times_f64_def)
  qed (simp add: at_least_def)
qed

lemma secs_fraction: "nonneg_double (f64_div (f64_of_nat (d mod 10 ^ 9)) (f64_of_nat (10 ^ 9)))"
proof -
  have "d mod 10 ^ 9 \<le> (2 ^ 53 :: nat)" using mod_less_divisor [of "10 ^ 9" d] by simp
  note m = f64_of_nat_small [OF this]
  have "rat_of_nat (d mod 10 ^ 9) \<le> of_nat (10 ^ 9)"
    using mod_less_divisor [of "10 ^ 9" d] by (simp only: of_nat_le_iff) simp
  then have q: "0 \<le> rat_of_nat (d mod 10 ^ 9) / of_nat (10 ^ 9)"
      "rat_of_nat (d mod 10 ^ 9) / of_nat (10 ^ 9) \<le> 1"
    by (simp_all add: field_simps)
  have "(1::rat) < pow2 1024" using pow2_less_iff [of 0 1024] by (simp add: pow2_def)
  note b = to_f64_below [OF q _ this]
  have "is_double 1" using nat_is_double [of 1] by simp
  then show ?thesis
    using b rnd_nonneg [OF q(1)] rnd_is_double [OF q(1)] \<open>1 < pow2 1024\<close>
    unfolding m f64_of_nat_small [of "10 ^ 9", simplified]
    by (auto simp: nonneg_double_def f64_of_nat_small)
qed

text \<open>A window is within a factor of two of a power of two, where the arithmetic is exact.\<close>

lemma window_power:
  fixes n :: nat
  assumes "0 < n" "n < 2 ^ 32"
  obtains j :: nat where "n \<le> 2 ^ j" "2 ^ j \<le> 2 * n" "j \<le> 32"
proof (cases "n = 1")
  case True
  with that [of 0] show ?thesis by simp
next
  case False
  with assms(1) have "2 \<le> n" by simp
  from ex_power_ivl2 [OF _ this, of 2] obtain i where i: "2 ^ i < n" "n \<le> 2 ^ (i + 1)" by auto
  from i(1) assms(2) have "(2::nat) ^ i < 2 ^ 32" by simp
  then have "i < 32" by (simp only: power_strict_increasing_iff)
  with i that [of "i + 1"] show ?thesis by simp
qed

lemma secs_at_least:
  assumes "2 ^ j * 10 ^ 9 \<le> d"
  shows "at_least (int j) (secs_f64 d)"
proof -
  have "(2 ^ j :: nat) \<le> d div 10 ^ 9" using assms by (simp add: less_eq_div_iff_mult_less_eq)
  then have "rat_of_nat (2 ^ j) \<le> of_nat (d div 10 ^ 9)" by (simp only: of_nat_le_iff)
  then have "pow2 (int j) \<le> rat_of_nat (d div 10 ^ 9)" by (simp add: pow2_def)
  then have "at_least (int j) (f64_of_nat (d div 10 ^ 9))"
    unfolding f64_of_nat_def by (rule to_f64_at_least [rotated]) simp
  then show ?thesis
    unfolding secs_f64_def by (intro at_least_add secs_fraction) simp_all
qed

lemma rule_rate_at_least:
  assumes "requests_per_window r \<noteq> 0" "window_seconds r \<noteq> 0"
    and "unat (window_seconds r) \<le> 2 ^ j" "j \<le> 32"
  shows "at_least (- int j) (refill_rate (rule_bucket t r))"
proof -
  obtain n m where n: "unat (window_seconds r) = n" and m: "unat (requests_per_window r) = m" by simp
  have "n \<noteq> 0" using assms(2) n unat_0_iff by auto
  moreover have "n \<le> 2 ^ 32" using assms(3) power_increasing [OF assms(4), of "2 :: nat"] n by simp
  ultimately have w: "0 < n" "n \<le> 2 ^ 53" "n \<le> 2 ^ j" using assms(3) n by simp_all
  have "unat (requests_per_window r) < 2 ^ 64" using unsigned_less [of "requests_per_window r"] by simp
  then have m64: "m < 2 ^ 64" by (simp only: m)
  have "m \<noteq> 0" using assms(1) m unat_0_iff by auto
  then have "1 \<le> m" by simp
  from f64_of_nat_bound [OF m64] obtain x where x: "f64_of_nat m = Fin x" "x = rnd (of_nat m)"
    by (auto simp: f64_of_nat_def to_f64_def Let_def split: if_splits)
  have "1 \<le> x"
    using rnd_ge [of 1 "of_nat m"] nat_is_double [of 1] \<open>1 \<le> m\<close> by (simp add: x(2))
  have "pow2 (- int j) = 1 / rat_of_nat (2 ^ j)" by (cases "j = 0") (simp_all add: pow2_def)
  also have "\<dots> \<le> 1 / rat_of_nat n" using w(1,3) by (intro divide_left_mono) (simp_all del: of_nat_power)
  also have "\<dots> \<le> x / of_nat n" using \<open>1 \<le> x\<close> w(1) by (simp add: divide_right_mono)
  finally have "at_least (- int j) (to_f64 (x / of_nat n))"
    using assms(4) by (intro to_f64_at_least) simp_all
  then show ?thesis
    using w(1) by (simp add: rule_bucket_def bucket_new_def u64_f64_def n m x(1) f64_of_nat_small [OF w(2)])
qed

text \<open>A refill that brings a token leaves one, if the bucket can hold one.\<close>

lemma refill_token:
  assumes "bucket_inv b" "capacity b \<noteq> 0" "at_least 0 (secs_f64 (now - last_refill b) * refill_rate b)"
  shows "1 \<le> tokens (refill now b)"
proof -
  let ?d = "secs_f64 (now - last_refill b) * refill_rate b"
  have "?d + tokens b = tokens b + ?d"
    by (cases ?d; cases "tokens b") (simp_all add: plus_f64_def add.commute)
  moreover have "at_least 0 (?d + tokens b)"
    using assms(1) by (intro at_least_add [OF _ assms(3)]) (simp_all add: bucket_inv_def)
  ultimately have "at_least 0 (tokens b + ?d)" by simp
  moreover have "at_least 0 (u64_f64 (capacity b))"
  proof -
    obtain n where n: "unat (capacity b) = n" by simp
    then have "1 \<le> n" using assms(2) unat_0_iff [of "capacity b"] by (cases n) auto
    then show ?thesis
      unfolding u64_f64_def f64_of_nat_def n by (intro to_f64_at_least) (simp_all add: pow2_def)
  qed
  ultimately show ?thesis
    by (auto simp: refill_def f64_min_def at_least_def one_f64_def pow2_def split: if_splits)
qed

text \<open>C18: No key starves: whatever has happened, a key whose rule has a positive limit, a positive
  window and a positive capacity is admitted again at every instant that is at least two windows
  after the last refill of its bucket, provided the bucket was made for that rule. (Two windows
  and not one: the rate is rounded, so a single window can bring a little less than a token.)\<close>

theorem starved_key_recovers:
  fixes ops
  assumes "l = run limiter_step ops limiter_new" "find_matching_rule k l = Some r"
    and "bucket_of l k = Some b" "refill_rate b = refill_rate (rule_bucket 0 r)"
    and "requests_per_window r \<noteq> 0" "window_seconds r \<noteq> 0" "capacity b \<noteq> 0"
    and "last_refill b + 2 * unat (window_seconds r) * 10 ^ 9 \<le> t"
  shows "\<exists>res l'. check (t0, t, t2) k l = (Ok res, l') \<and> allowed res"
proof -
  have inv: "bucket_inv b"
    using rl.inv_run [of ops] assms(1,3) by (auto simp: limiter_inv_def bucket_of_def)
  obtain j where j: "unat (window_seconds r) \<le> 2 ^ j" "2 ^ j \<le> 2 * unat (window_seconds r)" "j \<le> 32"
    using window_power [of "unat (window_seconds r)"] assms(6) unsigned_less [of "window_seconds r"]
    by (auto simp: unat_gt_0)
  have "2 ^ j * 10 ^ 9 \<le> 2 * unat (window_seconds r) * 10 ^ 9" using j(2) by (simp only: mult_le_mono1)
  then have "2 ^ j * 10 ^ 9 \<le> t - last_refill b" using assms(8) by linarith
  then have "at_least (int j + - int j) (secs_f64 (t - last_refill b) * refill_rate b)"
    using secs_at_least [of j "t - last_refill b"] rule_rate_at_least [OF assms(5,6) j(1,3)] assms(4)
    by (intro at_least_mul) simp_all
  then have "1 \<le> tokens (refill t b)" using refill_token [OF inv assms(7)] by simp
  then have "fst (try_consume t 1 b)" by (simp add: try_consume_def Let_def)
  then show ?thesis
    using check_known [OF assms(2), of "(t0, t, t2)"] assms(3)
    by (auto simp: current_bucket_def check_bucket_def case_prod_beta Let_def)
qed

text \<open>A check moves the tokens and the instant of a bucket, not its rate and capacity.\<close>

lemma check_bucket_keeps:
  "refill_rate (snd (check_bucket t1 t2 r b)) = refill_rate b"
  "capacity (snd (check_bucket t1 t2 r b)) = capacity b"
  "last_refill (snd (check_bucket t t r b)) = t"
  by (simp_all add: check_bucket_def try_consume_def remaining_def refill_def Let_def case_prod_beta)

lemma starved_key_recovers_witness:
  "\<exists>res l'. check (0, 120 * 10 ^ 9, 0) sample_key
     (run limiter_step [AddRule sample_rule, Check (0, 0, 0) sample_key] limiter_new) = (Ok res, l') \<and> allowed res"
proof -
  let ?m = "run limiter_step [AddRule sample_rule] limiter_new"
  let ?l = "run limiter_step [AddRule sample_rule, Check (0, 0, 0) sample_key] limiter_new"
  have r0: "find_matching_rule sample_key ?m = Some sample_rule"
    by (simp add: find_matching_rule_def add_rule_def limiter_new_def rule_matches_def sample_rule_def)
  have "bucket_of ?m sample_key = None" by (simp add: bucket_of_def add_rule_def limiter_new_def)
  then have c: "current_bucket (0, 0, 0) sample_key sample_rule ?m = rule_bucket 0 sample_rule"
    by (simp add: current_bucket_def)
  obtain res l' where ck: "check (0, 0, 0) sample_key ?m = (Ok res, l')"
      "check_bucket 0 0 sample_rule (rule_bucket 0 sample_rule) = (res, the (bucket_of l' sample_key))"
      "bucket_of l' sample_key \<noteq> None" "find_matching_rule sample_key l' = Some sample_rule"
    using check_known [OF r0, of "(0, 0, 0)"] unfolding c by auto
  have l: "l' = ?l" using ck(1) by simp
  obtain b where b: "bucket_of ?l sample_key = Some b"
      "b = snd (check_bucket 0 0 sample_rule (rule_bucket 0 sample_rule))"
    using ck(2,3) unfolding l by auto
  have k: "refill_rate b = refill_rate (rule_bucket 0 sample_rule)" "last_refill b = 0"
      "capacity b = capacity (rule_bucket 0 sample_rule)"
    unfolding b(2) by (simp_all only: check_bucket_keeps)
  have "capacity b \<noteq> 0" unfolding k(3) by (simp add: rule_bucket_def bucket_new_def sample_rule_def)
  then show ?thesis
    using k(2) by (intro starved_key_recovers [OF refl ck(4) [unfolded l] b(1) k(1)]) (simp_all add: sample_rule_def)
qed
end
