(* ===== verification/Oauth.thy ===== *)
theory Oauth
  imports Errors
begin

text \<open>
  \<open>src/auth/oauth.rs\<close>: the responses for missing and insufficient authorization and the two
  discovery documents with their routes. Which strings the HTTP library accepts as a header value is
  a parameter (\<open>header_ok\<close>); the code unwraps the result, so another value panics (\<open>None\<close>).
\<close>

section \<open>Responses\<close>

record oauth_response =
  or_status :: nat
  www_authenticate :: "string option"
  or_body :: json

definition denial_body :: "i64 \<Rightarrow> string \<Rightarrow> json" where
  "denial_body code message =
     JObj [(''jsonrpc'', JStr ''2.0''),
           (''error'', JObj [(''code'', of_i64 code), (''message'', JStr message)]),
           (''id'', JNull)]"

definition UNAUTHORIZED_MESSAGE :: string where
  "UNAUTHORIZED_MESSAGE = ''Unauthorized: valid OAuth 2.1 Bearer token required''"

definition unauthorized_response :: "(string \<Rightarrow> bool) \<Rightarrow> string \<Rightarrow> oauth_response option" where
  "unauthorized_response header_ok prm_url =
    (let value = fmt [''Bearer resource_metadata='', dquoted prm_url]
     in if header_ok value then
          Some \<lparr>or_status = 401, www_authenticate = Some value,
                or_body = denial_body (- 32001) UNAUTHORIZED_MESSAGE\<rparr>
        else None)"

definition forbidden_response :: "string \<Rightarrow> oauth_response" where
  "forbidden_response message =
     \<lparr>or_status = 403, www_authenticate = None, or_body = denial_body (- 32002) message\<rparr>"

section \<open>Discovery\<close>

definition strings :: "string list \<Rightarrow> json" where
  "strings xs = JArr (map JStr xs)"

definition protected_resource_metadata :: "string \<Rightarrow> string list \<Rightarrow> json" where
  "protected_resource_metadata resource_url servers =
     JObj [(''resource'', JStr resource_url), (''authorization_servers'', strings servers)]"

definition authorization_server_metadata ::
  "string \<Rightarrow> string \<Rightarrow> string \<Rightarrow> string \<Rightarrow> string list \<Rightarrow> json" where
  "authorization_server_metadata issuer auth_endpoint token_endpoint jwks_uri scopes =
     JObj [(''issuer'', JStr issuer), (''authorization_endpoint'', JStr auth_endpoint),
           (''token_endpoint'', JStr token_endpoint), (''jwks_uri'', JStr jwks_uri),
           (''scopes_supported'', strings scopes),
           (''code_challenge_methods_supported'', strings [''S256'']),
           (''grant_types_supported'',
             strings [''authorization_code'', ''refresh_token'', ''client_credentials'']),
           (''response_types_supported'', strings [''code'']),
           (''token_endpoint_auth_methods_supported'',
             strings [''client_secret_basic'', ''client_secret_post'', ''private_key_jwt'']),
           (''subject_types_supported'', strings [''public'']),
           (''id_token_signing_alg_values_supported'',
             strings [''RS256'', ''RS384'', ''RS512'', ''ES256'', ''ES384''])]"

definition ok_json :: "json \<Rightarrow> oauth_response" where
  "ok_json v = \<lparr>or_status = 200, www_authenticate = None, or_body = v\<rparr>"

definition prm_handler :: "string \<Rightarrow> string list \<Rightarrow> oauth_response" where
  "prm_handler resource_url servers = ok_json (protected_resource_metadata resource_url servers)"

definition as_metadata_handler ::
  "string \<Rightarrow> string \<Rightarrow> string \<Rightarrow> string \<Rightarrow> string list \<Rightarrow> oauth_response" where
  "as_metadata_handler issuer auth_endpoint token_endpoint jwks_uri scopes =
     ok_json (authorization_server_metadata issuer auth_endpoint token_endpoint jwks_uri scopes)"

definition PRM_PATH :: string where "PRM_PATH = ''/.well-known/oauth-protected-resource''"

definition AS_METADATA_PATH :: string where
  "AS_METADATA_PATH = ''/.well-known/oauth-authorization-server''"

text \<open>The routes: what a GET of a path answers; \<open>None\<close> is not found.\<close>

definition oauth_discovery_routes ::
  "string \<Rightarrow> string \<Rightarrow> string \<Rightarrow> string \<Rightarrow> string \<Rightarrow> string \<Rightarrow> string list \<Rightarrow> string \<Rightarrow> oauth_response option" where
  "oauth_discovery_routes resource_url server_url issuer auth_endpoint token_endpoint jwks_uri scopes path =
    (if path = PRM_PATH then Some (ok_json (protected_resource_metadata resource_url [server_url]))
     else if path = AS_METADATA_PATH then
       Some (ok_json (authorization_server_metadata issuer auth_endpoint token_endpoint jwks_uri scopes))
     else None)"

section \<open>Properties\<close>

text \<open>The two denials agree with the error type: they have the status and the JSON-RPC code of an
  \<open>Unauthorized\<close> and a \<open>ScopeDenied\<close> error, the 403 is exactly the response such an error turns
  into when it is given the error's text, and a 401 always names the metadata document.\<close>

theorem denials_match_errors:
  "forbidden_response (error_text (ScopeDenied m)) =
     \<lparr>or_status = fst (into_response (ScopeDenied m)), www_authenticate = None,
      or_body = snd (into_response (ScopeDenied m))\<rparr> \<and>
   (case unauthorized_response header_ok prm_url of
      None \<Rightarrow> \<not> header_ok (fmt [''Bearer resource_metadata='', dquoted prm_url])
    | Some r \<Rightarrow> or_status r = http_status (Unauthorized m) \<and>
        (\<exists>e. jget (or_body r) ''error'' = Some e \<and>
             jget e ''code'' = Some (of_i64 (error_code (Unauthorized m)))) \<and>
        www_authenticate r = Some (fmt [''Bearer resource_metadata='', dquoted prm_url]))"
  by (simp add: forbidden_response_def into_response_def denial_body_def unauthorized_response_def
      Let_def error_code_defs del: error_text.simps)

end
