(* ===== verification/Startup.thy ===== *)
theory Startup
  imports Config Transports Echo_Server Control_Plane Rate_Limiter Oauth
begin

text \<open>
  \<open>src/main.rs\<close>: from the environment and the configuration file to a running gateway. What the
  program asks its host for (variables, files, the metrics exporter, the clock, the crates that parse
  TOML, Cedar policies and header values) is an argument; what it assembles from the answers is
  defined here. The listeners, tracing and the shutdown signal are outside; of an HTTP server the
  model keeps its routes and its CORS policy.
\<close>

section \<open>The host\<close>

record host =
  h_vars :: env_vars
  h_exists :: "string \<Rightarrow> bool"
  h_read :: "string \<Rightarrow> (string, string) result"
  h_toml :: toml_crate
  h_exporter :: "(unit, string) result"
  h_now :: "string \<Rightarrow> int"
  h_header_ok :: "string \<Rightarrow> bool"
  h_order :: hash_order

definition CONFIG_PATH :: string where "CONFIG_PATH = ''config/default.toml''"

definition load_config :: "host \<Rightarrow> (config, string) result" where
  "load_config h =
    (let path = (case h_vars h ''MCP_SHIELD_CONFIG'' of Some p \<Rightarrow> p | None \<Rightarrow> CONFIG_PATH)
     in if h_exists h path
        then bind_result (config_from_file (h_toml h) (h_read h path)) (\<lambda>c. Ok (load_with_env (h_vars h) c))
        else Ok (load_with_env (h_vars h) config_default))"

section \<open>Tools and upstreams\<close>

definition has_echo_upstream :: "hash_order \<Rightarrow> config \<Rightarrow> bool" where
  "has_echo_upstream \<pi> c = list_ex uc_echo_server (hm_values \<pi> (upstreams (proxy_section c)))"

text \<open>A tool that is refused is only logged.\<close>

definition init_registry :: "host \<Rightarrow> config \<Rightarrow> registry" where
  "init_registry h c =
    (let r = registry_with_config (rc_enforce_prefix_format (registry_section c))
               (rc_allowed_prefixes (registry_section c))
     in if upstreams (proxy_section c) = [] \<or> has_echo_upstream (h_order h) c
        then fold (\<lambda>t r. snd (register_tool t ''echo'' (h_now h (t_name t)) r)) echo_server_tools r
        else r)"

definition echo_upstream :: upstream_server where
  "echo_upstream =
     \<lparr>us_id = ''echo'', us_transport = StreamableHttp, us_url = None, us_is_echo = True\<rparr>"

definition transport_of_name :: "string \<Rightarrow> upstream_transport" where
  "transport_of_name t =
    (if t = ''sse'' then SseTransport else if t = ''stdio'' then StdioTransport else StreamableHttp)"

definition configured_upstream :: "string \<times> upstream_config \<Rightarrow> upstream_server" where
  "configured_upstream x =
     \<lparr>us_id = fst x, us_transport = transport_of_name (uc_transport (snd x)), us_url = uc_url (snd x),
      us_is_echo = uc_echo_server (snd x)\<rparr>"

definition hm_entries :: "hash_order \<Rightarrow> 'v hmap \<Rightarrow> (string \<times> 'v) list" where
  "hm_entries \<pi> m = List.map_filter (\<lambda>k. map_option (Pair k) (hm_get m k)) (\<pi> (hm_keys m))"

definition init_proxy :: "hash_order \<Rightarrow> config \<Rightarrow> proxy" where
  "init_proxy \<pi> c =
     fold (\<lambda>x. register_server (configured_upstream x)) (hm_entries \<pi> (upstreams (proxy_section c)))
       (register_server echo_upstream
         (proxy_new (unat (Config.max_concurrent_requests (proxy_section c)))))"

section \<open>Policies and sessions\<close>

definition init_authorizer ::
  "('u, 'x, 'n, 'es, 'q, 'ps) cedar_engine \<Rightarrow> host \<Rightarrow> config \<Rightarrow>
     ((auth_request \<Rightarrow> (auth_response, cedar_error) result) option, string) result" where
  "init_authorizer E h c =
    (if policy_enabled (policy_section c) then
       (let path = policy_file (policy_section c)
        in if h_exists h path then
             (case authorizer_from_file E (h_read h path) of
                Ok a \<Rightarrow> Ok (Some (authorizer_evaluate E (CedarPolicyAuthorizer a)))
              | Err e \<Rightarrow> Err (cedar_error_text e))
           else Ok None)
     else Ok None)"

definition init_sessions :: "config \<Rightarrow> sessions option" where
  "init_sessions c = (if session_locking (guardrails_section c) then Some [] else None)"

section \<open>Rate limits\<close>

definition algorithm_of_name :: "string \<Rightarrow> rate_limit_algorithm" where
  "algorithm_of_name a =
    (if a = ''token_bucket'' then TokenBucketAlgorithm
     else if a = ''sliding_window'' then SlidingWindow
     else if a = ''fixed_window'' then FixedWindow
     else TokenBucketAlgorithm)"

definition action_of_name :: "string \<Rightarrow> rate_limit_action" where
  "action_of_name a =
    (if a = ''reject'' then RejectAction
     else if a = ''throttle'' then ThrottleAction
     else if a = ''queue'' then QueueAction
     else RejectAction)"

definition telemetry_rule :: "stored_rule \<Rightarrow> rate_limit_rule" where
  "telemetry_rule r =
     \<lparr>rule_id = sr_rule_id r, rr_scope = sr_scope r, scope_value = sr_scope_value r,
      algorithm = algorithm_of_name (sr_algorithm r),
      requests_per_window = sr_requests_per_window r, window_seconds = sr_window_seconds r,
      burst_allowance = sr_burst_allowance r, rr_action = action_of_name (sr_action r),
      priority = sr_priority r, rr_enabled = sr_enabled r\<rparr>"

definition default_rate_limit :: rate_limit_rule where
  "default_rate_limit =
     \<lparr>rule_id = ''default'', rr_scope = ''global'', scope_value = None,
      algorithm = TokenBucketAlgorithm, requests_per_window = 1000, window_seconds = 60,
      burst_allowance = Some 100, rr_action = RejectAction, priority = 0, rr_enabled = True\<rparr>"

text \<open>The default rule goes into a new limiter, so its \<open>unwrap\<close> does not panic; a stored rule that is
  refused is dropped.\<close>

definition load_rules :: "hash_order \<Rightarrow> control_plane \<Rightarrow> limiter \<Rightarrow> limiter" where
  "load_rules \<pi> cp l =
     fold (\<lambda>t. fold (\<lambda>r l. snd (add_rule (telemetry_rule r) l)) (load_rate_limit_rules \<pi> cp (tn_id t)))
       (load_tenants \<pi> cp) l"

definition init_limiter :: "hash_order \<Rightarrow> control_plane \<Rightarrow> limiter" where
  "init_limiter \<pi> cp = load_rules \<pi> cp (snd (add_rule default_rate_limit limiter_new))"

section \<open>The HTTP server\<close>

datatype route =
    McpRoute
  | SseStreamRoute
  | SseMessagesRoute
  | PrmRoute oauth_response
  | HealthRoute string

datatype cors = AnyOrigin | Origins "string list"

definition build_cors_layer :: "(string \<Rightarrow> bool) \<Rightarrow> config \<Rightarrow> cors" where
  "build_cors_layer header_ok c =
    (if cors_origins (server_section c) = [] then AnyOrigin
     else Origins (filter header_ok (cors_origins (server_section c))))"

definition health_handler :: string where "health_handler = ''ok''"

definition auth_server_url :: "config \<Rightarrow> string" where
  "auth_server_url c =
    (case authorization_server (auth_section c) of
       Some s \<Rightarrow> s
     | None \<Rightarrow> fmt [''http://'', show_addr (bind_addr (server_section c))])"

definition http_routes :: "config \<Rightarrow> (string \<times> route) list" where
  "http_routes c =
     [(''/mcp'', McpRoute)] @
     (if enable_sse (server_section c)
      then [(''/sse'', SseStreamRoute), (''/messages'', SseMessagesRoute)] else []) @
     (if auth_enabled (auth_section c)
      then [(''/.well-known/oauth-protected-resource'',
             PrmRoute (ok_json (protected_resource_metadata
               (fmt [''http://'', show_addr (bind_addr (server_section c)), ''/mcp''])
               [auth_server_url c])))]
      else []) @
     [(''/healthz'', HealthRoute health_handler), (''/readyz'', HealthRoute health_handler)]"

datatype listener = HttpListener cors "(string \<times> route) list" | StdioListener | NoListener

definition choose_listener :: "host \<Rightarrow> config \<Rightarrow> listener" where
  "choose_listener h c =
    (if enable_http (server_section c)
     then HttpListener (build_cors_layer (h_header_ok h) c) (http_routes c)
     else if enable_stdio (server_section c) then StdioListener
     else NoListener)"

section \<open>The gateway\<close>

record 'v gateway =
  gw_router :: "'v router"
  gw_enforcer :: scope_enforcer
  gw_limiter :: limiter
  gw_control_plane :: control_plane
  gw_listener :: listener

text \<open>Both branches of the code take the permissive enforcer.\<close>

definition init_enforcer :: "config \<Rightarrow> scope_enforcer" where
  "init_enforcer c = (if auth_enabled (auth_section c) then enforcer_permissive else enforcer_permissive)"

definition init_router ::
  "host \<Rightarrow> config \<Rightarrow> (auth_request \<Rightarrow> (auth_response, cedar_error) result) option \<Rightarrow> 'v router" where
  "init_router h c auth =
     with_full_config (init_registry h c) (init_proxy (h_order h) c) []
       (si_name (Config.server_info (server_section c)))
       (si_version (Config.server_info (server_section c)))
       auth (init_sessions c) (Some (LoggingProducer []))"

definition assemble ::
  "('u, 'x, 'n, 'es, 'q, 'ps) cedar_engine \<Rightarrow> host \<Rightarrow> config \<Rightarrow> ('v gateway, string) result" where
  "assemble E h c =
     bind_result (h_exporter h) (\<lambda>_.
     bind_result (init_authorizer E h c) (\<lambda>auth.
     bind_result
       (map_err control_plane_error_text
         (create_control_plane (h_now h ''created'') (h_now h ''updated'') (h_vars h ''DATABASE_URL'')
           (of_nat (length (kafka_bootstrap_servers (telemetry_section c)))))) (\<lambda>cp.
       Ok \<lparr>gw_router = init_router h c auth, gw_enforcer = init_enforcer c,
           gw_limiter = init_limiter (h_order h) cp, gw_control_plane = cp,
           gw_listener = choose_listener h c\<rparr>)))"

definition main ::
  "('u, 'x, 'n, 'es, 'q, 'ps) cedar_engine \<Rightarrow> host \<Rightarrow> ('v gateway, string) result" where
  "main E h = bind_result (load_config h) (assemble E h)"

section \<open>An empty session table is as good as none\<close>

definition unsessioned :: "'v router \<Rightarrow> 'v router" where
  "unsessioned s = s\<lparr>sessions := None\<rparr>"

text \<open>A step that does the same with an empty session table and without one, and keeps it empty.\<close>

definition blind :: "('v router, 'a) step \<Rightarrow> bool" where
  "blind m \<longleftrightarrow>
     (\<forall>s. no_sessions s \<longrightarrow>
        m (unsessioned s) = map_option (map_prod id unsessioned) (m s) \<and>
        (\<forall>r s'. m s = Some (r, s') \<longrightarrow> no_sessions s'))"

lemma blindD:
  assumes "blind m" "no_sessions s"
  shows "m (unsessioned s) = map_option (map_prod id unsessioned) (m s)"
    and "m s = Some (r, s') \<Longrightarrow> no_sessions s'"
  using assms unfolding blind_def by blast+

lemma blind_bind: "blind m \<Longrightarrow> (\<And>a. blind (f a)) \<Longrightarrow> blind (step_bind m f)"
proof -
  assume m: "blind m" and f: "\<And>a. blind (f a)"
  have "step_bind m f (unsessioned s) = map_option (map_prod id unsessioned) (step_bind m f s) \<and>
      (\<forall>r s'. step_bind m f s = Some (r, s') \<longrightarrow> no_sessions s')" if P: "no_sessions s" for s
  proof (cases "m s")
    case None
    then show ?thesis using blindD(1) [OF m P] by (simp add: step_bind_def)
  next
    case (Some x)
    obtain r s1 where x: "x = (r, s1)" by force
    have s1: "no_sessions s1" "m (unsessioned s) = Some (r, unsessioned s1)"
      using blindD [OF m P] Some x by simp_all
    show ?thesis
    proof (cases r)
      case (Ok a)
      then have "step_bind m f s = f a s1" "step_bind m f (unsessioned s) = f a (unsessioned s1)"
        using Some x s1(2) by (simp_all add: step_bind_def)
      then show ?thesis using blindD(1) [OF f s1(1), of a] blindD(2) [OF f s1(1), of a] by auto
    next
      case (Err e)
      then show ?thesis using Some x s1 by (simp add: step_bind_def)
    qed
  qed
  then show "blind (step_bind m f)" by (simp only: blind_def) blast
qed

lemma blind_lift: "blind (step_lift r)"
  by (simp add: blind_def step_lift_def)

lemma blind_if: "blind f \<Longrightarrow> blind g \<Longrightarrow> blind (if b then f else g)"
  by simp

lemma unsessioned_simps [simp]:
  "registry (unsessioned s) = registry s" "proxy (unsessioned s) = proxy s"
  "schema_cache (unsessioned s) = schema_cache s" "metrics (unsessioned s) = metrics s"
  "server_name (unsessioned s) = server_name s" "server_version (unsessioned s) = server_version s"
  "authorizer (unsessioned s) = authorizer s" "ecpa_guardrail (unsessioned s) = ecpa_guardrail s"
  "egress_inspector (unsessioned s) = egress_inspector s"
  "audit_producer (unsessioned s) = audit_producer s" "sessions (unsessioned s) = None"
  by (simp_all add: unsessioned_def)

lemma unsessioned_update [simp]:
  "unsessioned (s\<lparr>schema_cache := c\<rparr>) = (unsessioned s)\<lparr>schema_cache := c\<rparr>"
  "unsessioned (s\<lparr>metrics := l\<rparr>) = (unsessioned s)\<lparr>metrics := l\<rparr>"
  "unsessioned (s\<lparr>proxy := p\<rparr>) = (unsessioned s)\<lparr>proxy := p\<rparr>"
  "unsessioned (blocked reason s) = blocked reason (unsessioned s)"
  by (simp_all add: unsessioned_def blocked_def)

lemma blindI:
  assumes "\<And>s. no_sessions s \<Longrightarrow> m (unsessioned s) = map_option (map_prod id unsessioned) (m s)"
    and "\<And>s r s'. no_sessions s \<Longrightarrow> m s = Some (r, s') \<Longrightarrow> sessions s' = sessions s"
  shows "blind m"
  using assms unfolding blind_def by metis

lemma blind_stages:
  "blind (find_tool tool)" "blind (schema_stage V t args)" "blind (ecpa_stage tool args)"
  "blind (cedar_stage V e method params)" "blind (proxy_forward V srv m)"
  "blind (method_stage e method)"
proof -
  show "blind (find_tool tool)"
    by (rule blindI) (auto simp: find_tool_def split: option.splits result.splits)
  show "blind (schema_stage V t args)"
    by (rule blindI) (auto simp: schema_stage_def split: option.splits result.splits prod.splits if_splits)
  show "blind (ecpa_stage tool args)"
    by (rule blindI) (auto simp: ecpa_stage_def split: option.splits result.splits if_splits)
  show "blind (cedar_stage V e method params)"
    by (rule blindI) (auto simp: cedar_stage_def cedar_request_def split: option.splits result.splits if_splits)
  show "blind (proxy_forward V srv m)"
    by (rule blindI) (auto simp: proxy_forward_def split: option.splits prod.splits)
  show "blind (method_stage e method)"
    by (simp add: method_stage_def blind_lift)
qed

lemma blind_session_stage: "blind (session_stage V tool args sid)"
proof -
  have "session_stage V tool args sid s = Some (Ok (), s)" if "no_sessions s" for s :: "'a router"
  proof -
    have "s\<lparr>sessions := Some []\<rparr> = s" using that [symmetric] by simp
    then show ?thesis
      using that
      by (cases sid)
        (simp_all add: session_stage_def Let_def check_context_access_def log_tool_call_def)
  qed
  then show ?thesis by (auto simp: blind_def session_stage_def)
qed

lemma blind_forward_stage: "blind (forward_stage V i tool srv params)"
  unfolding blind_def
proof (intro allI impI)
  fix s :: "'a router"
  assume P: "no_sessions s"
  have b: "blind (step_bind (proxy_forward V srv (Request i METHOD_TOOLS_CALL (Some params)))
      (\<lambda>r s'. Some (Ok (egress_filter (egress_inspector s) tool srv r), s')))"
    by (rule blind_bind, rule blind_stages) (simp add: blind_def)
  show "forward_stage V i tool srv params (unsessioned s) =
        map_option (map_prod id unsessioned) (forward_stage V i tool srv params s) \<and>
      (\<forall>r s'. forward_stage V i tool srv params s = Some (r, s') \<longrightarrow> no_sessions s')"
    using blindD [OF b P] by (auto simp: forward_stage_def)
qed

lemma blind_tools_call: "blind (handle_tools_call V i params e sid)"
  unfolding handle_tools_call_def Let_def
  by (intro blind_bind blind_lift blind_stages blind_session_stage blind_forward_stage)

lemma blind_proxy_to_upstream: "blind (proxy_to_upstream V i method params)"
  unfolding blind_def
proof (intro allI impI)
  fix s :: "'a router"
  assume P: "no_sessions s"
  show "proxy_to_upstream V i method params (unsessioned s) =
        map_option (map_prod id unsessioned) (proxy_to_upstream V i method params s) \<and>
      (\<forall>r s'. proxy_to_upstream V i method params s = Some (r, s') \<longrightarrow> no_sessions s')"
    using blindD [OF blind_stages(5) P] P
    by (cases "default_server_id (server_order V) (proxy s)") (simp_all add: proxy_to_upstream_def)
qed

lemma blind_dispatch: "blind (dispatch V i method params e sid)"
proof -
  have "blind (handle_initialize V i params)" "blind (handle_tools_list V i)"
    by (simp_all add: blind_def handle_initialize_def handle_tools_list_def Let_def split: option.split)
  then show ?thesis
    unfolding dispatch_def
    by (intro blind_if blind_lift blind_tools_call blind_proxy_to_upstream)
qed

lemma blind_core: "blind (core V m e sid)"
proof (cases m)
  case (Request i meth ps)
  show ?thesis
    unfolding Request core.simps handle_request_def
    by (intro blind_if blind_lift blind_bind blind_stages blind_dispatch)
qed (simp_all add: blind_lift)

lemma blind_message: "blind (handle_message V m e sid)"
proof -
  have fin: "unsessioned (finish V m' e sid r s) = finish V m' e sid r (unsessioned s)" for m' r and s :: "'a router"
    by (simp add: finish_def unsessioned_def)
  show ?thesis
    unfolding blind_def
  proof (intro allI impI)
    fix s :: "'a router"
    assume P: "no_sessions s"
    note B = blindD [OF blind_core [of V "leaf m" e sid] P]
    show "handle_message V m e sid (unsessioned s) =
          map_option (map_prod id unsessioned) (handle_message V m e sid s) \<and>
        (\<forall>r s'. handle_message V m e sid s = Some (r, s') \<longrightarrow> no_sessions s')"
      using B(1) B(2) by (cases "core V (leaf m) e sid s") (auto simp: handle_message_core and_finish_def fin)
  qed
qed

section \<open>Properties\<close>

text \<open>What a started gateway answers to a sequence of messages: per message the answer or the error,
  or \<open>None\<close> when none is given (the state is then as before).\<close>

fun answers ::
  "('v env \<times> message \<times> string option) list \<Rightarrow> scope_enforcer \<Rightarrow> 'v router \<Rightarrow>
     (message, mcp_error) result option list" where
  "answers [] e s = []"
| "answers ((V, m, sid) # xs) e s =
    (case handle_message V m e sid s of
       None \<Rightarrow> None # answers xs e s
     | Some (r, s') \<Rightarrow> Some r # answers xs e s')"

lemma answers_unsessioned: "no_sessions s \<Longrightarrow> answers xs e (unsessioned s) = answers xs e s"
proof (induction xs arbitrary: s)
  case (Cons x xs)
  obtain V m sid where x: "x = (V, m, sid)" by (cases x) auto
  note B = blindD [OF blind_message [of V m e sid] Cons.prems]
  show ?case
  proof (cases "handle_message V m e sid s")
    case None
    then show ?thesis using B(1) Cons by (simp add: x)
  next
    case (Some y)
    obtain r s' where y: "y = (r, s')" by force
    then have "no_sessions s'" using B(2) Some by simp
    then show ?thesis using B(1) Cons.IH Some y by (simp add: x)
  qed
qed simp

lemma assemble_Ok:
  assumes "assemble E h c = Ok g"
  obtains auth where "init_authorizer E h c = Ok auth" "gw_router g = init_router h c auth"
    "gw_enforcer g = enforcer_permissive"
    "gw_limiter g = init_limiter (h_order h) (gw_control_plane g)"
    "gw_control_plane g = in_memory_new (h_now h ''created'') (h_now h ''updated'')"
    "gw_listener g = choose_listener h c"
  using assms
  by (auto simp: assemble_def bind_result_Ok create_control_plane_def init_enforcer_def)

text \<open>The configuration with other security switches.\<close>

definition with_security :: "auth_config \<Rightarrow> guardrails_config \<Rightarrow> config \<Rightarrow> config" where
  "with_security a gr c = c\<lparr>auth_section := a, guardrails_section := gr\<rparr>"

lemma init_router_sessions:
  "unsessioned (init_router h (with_security a gr c) auth) = unsessioned (init_router h c auth)"
  "sessions (init_router h c auth) = None \<or> no_sessions (init_router h c auth)"
  by (simp_all add: init_router_def with_full_config_def unsessioned_def init_registry_def
      has_echo_upstream_def init_proxy_def with_security_def init_sessions_def)

lemma answers_sessionless:
  assumes "sessions s = None \<or> no_sessions s"
  shows "answers xs e s = answers xs e (unsessioned s)"
  using assms
proof
  assume "sessions s = None"
  then have "unsessioned s = s" by (cases s) (simp add: unsessioned_def)
  then show ?thesis by simp
qed (simp add: answers_unsessioned)

text \<open>C5: The security switches do nothing: whatever the sections \<open>auth\<close> and \<open>guardrails\<close> say (so
  with authentication, ePCA constraints, egress inspection and session locking all switched on), the
  gateway starts under the same conditions, and it gives every sequence of messages the answers it
  gives with all of them off.\<close>

theorem security_switches_change_no_answer:
  fixes g :: "'v gateway"
  assumes "assemble E h c = Ok g"
  shows "\<exists>g'. assemble E h (with_security a gr c) = Ok g' \<and>
           answers xs (gw_enforcer g') (gw_router g') = answers xs (gw_enforcer g) (gw_router g)"
proof -
  obtain auth where auth: "init_authorizer E h c = Ok auth" "gw_router g = init_router h c auth"
      "gw_enforcer g = enforcer_permissive"
    using assemble_Ok [OF assms] by metis
  have "init_authorizer E h (with_security a gr c) = init_authorizer E h c"
    by (simp add: init_authorizer_def with_security_def)
  with auth(1) have "init_authorizer E h (with_security a gr c) = Ok auth" by simp
  moreover have "h_exporter h = Ok ()"
    using assms by (auto simp: assemble_def bind_result_Ok)
  ultimately obtain g' :: "'v gateway" where g': "assemble E h (with_security a gr c) = Ok g'"
      "gw_router g' = init_router h (with_security a gr c) auth" "gw_enforcer g' = enforcer_permissive"
    by (simp add: assemble_def create_control_plane_def init_enforcer_def)
  have "answers xs e (init_router h (with_security a gr c) auth) = answers xs e (init_router h c auth)" for e
    using answers_sessionless [OF init_router_sessions(2)] init_router_sessions(1) by metis
  with g' auth show ?thesis by auto
qed
definition sample_host :: host where
  "sample_host =
     \<lparr>h_vars = (\<lambda>_. None), h_exists = (\<lambda>_. False), h_read = (\<lambda>_. Err ''no such file''),
      h_toml = \<lparr>tc_parse = (\<lambda>_. Ok (TomlTable [])), tc_message = (\<lambda>_. [])\<rparr>, h_exporter = Ok (),
      h_now = (\<lambda>_. 0), h_header_ok = (\<lambda>_. True), h_order = (\<lambda>xs. xs)\<rparr>"

lemma sample_gateway:
  assumes "\<not> policy_enabled (policy_section c)"
  shows "\<exists>g. assemble sample_cedar sample_host c = Ok g"
  using assms by (simp add: assemble_def sample_host_def init_authorizer_def create_control_plane_def)

lemma default_policy_off: "\<not> policy_enabled (policy_section config_default)"
  by (simp add: section_defaults)

lemma security_switches_change_no_answer_witness:
  "\<exists>(g :: string gateway) g'. assemble sample_cedar sample_host config_default = Ok g \<and>
     assemble sample_cedar sample_host (with_security auth_config_default
       \<lparr>ecpa_enabled = True, egress_enabled = True, session_locking = True\<rparr> config_default) = Ok g' \<and>
     answers [(sample_env, echo_call_message, None)] (gw_enforcer g') (gw_router g') =
       answers [(sample_env, echo_call_message, None)] (gw_enforcer g) (gw_router g)"
  using sample_gateway [OF default_policy_off] security_switches_change_no_answer by blast

text \<open>The document that configures the program: the file that \<open>MCP_SHIELD_CONFIG\<close> names, or the default
  file; without the file, an empty document.\<close>

definition config_path :: "host \<Rightarrow> string" where
  "config_path h = (case h_vars h ''MCP_SHIELD_CONFIG'' of Some p \<Rightarrow> p | None \<Rightarrow> ''config/default.toml'')"

definition config_document :: "host \<Rightarrow> (toml, string) result" where
  "config_document h =
    (if h_exists h (config_path h)
     then (case h_read h (config_path h) of Err x \<Rightarrow> Err x | Ok content \<Rightarrow> tc_parse (h_toml h) content)
     else Ok (TomlTable []))"

lemma load_config_document:
  "load_config h =
    (case config_document h of
       Err x \<Rightarrow> Err x
     | Ok doc \<Rightarrow>
         (case config_from_toml doc of
            None \<Rightarrow> Err (tc_message (h_toml h) doc)
          | Some c \<Rightarrow> Ok (load_with_env (h_vars h) c)))"
proof -
  have l: "load_config h =
      (if h_exists h (config_path h)
       then bind_result (config_from_file (h_toml h) (h_read h (config_path h))) (\<lambda>c. Ok (load_with_env (h_vars h) c))
       else Ok (load_with_env (h_vars h) config_default))"
    unfolding load_config_def config_path_def CONFIG_PATH_def Let_def ..
  show ?thesis
  proof (cases "h_exists h (config_path h)")
    case True
    then show ?thesis
      unfolding l config_document_def config_from_file_def config_from_str_def bind_result_def ok_or_def
      by (cases "h_read h (config_path h)") (simp_all split: result.split option.split)
  qed (simp add: l config_document_def empty_document)
qed


lemma without_policy:
  "init_router h (c\<lparr>policy_section := p\<rparr>) = init_router h c"
  "choose_listener h (c\<lparr>policy_section := p\<rparr>) = choose_listener h c"
  by (simp_all add: fun_eq_iff init_router_def init_registry_def has_echo_upstream_def init_proxy_def
      init_sessions_def choose_listener_def build_cors_layer_def http_routes_def auth_server_url_def
      cong: option.case_cong)

text \<open>A Cedar policy file that is not there turns policy enforcement off: the gateway that starts
  is the one of the configuration with policies disabled, so every method is open to every caller.\<close>

theorem missing_policy_file_fails_open:
  assumes "policy_enabled (policy_section c)" "\<not> h_exists h (policy_file (policy_section c))"
  shows "assemble E h c =
           assemble E h (c\<lparr>policy_section := (policy_section c)\<lparr>policy_enabled := False\<rparr>\<rparr>)"
proof -
  let ?c = "c\<lparr>policy_section := (policy_section c)\<lparr>policy_enabled := False\<rparr>\<rparr>"
  have "init_authorizer E h ?c = init_authorizer E h c"
    using assms by (simp add: init_authorizer_def)
  then show ?thesis by (simp add: assemble_def init_enforcer_def without_policy)
qed

lemma missing_policy_file_fails_open_witness:
  "let c = config_default\<lparr>policy_section := \<lparr>policy_enabled = True, policy_file = ''p''\<rparr>\<rparr>;
       c' = config_default\<lparr>policy_section := \<lparr>policy_enabled = False, policy_file = ''p''\<rparr>\<rparr>
   in assemble sample_cedar sample_host c = (assemble sample_cedar sample_host c' :: (string gateway, string) result)"
  using missing_policy_file_fails_open [of "config_default\<lparr>policy_section := \<lparr>policy_enabled = True, policy_file = ''p''\<rparr>\<rparr>"
      sample_host sample_cedar]
  by (simp add: sample_host_def)

text \<open>A started gateway has exactly one rate limit rule, the built-in one, whatever rules were meant
  to be loaded (the control plane it asks starts with none); it covers every key, and checking,
  peeking and resetting never change that.\<close>

theorem started_limiter_one_rule:
  assumes "assemble E h c = Ok g"
    and "list_all (\<lambda>x. case x of AddRule _ \<Rightarrow> False | RemoveRule _ \<Rightarrow> False | _ \<Rightarrow> True) ops"
  shows "rules (run limiter_step ops (gw_limiter g)) = [default_rate_limit] \<and>
         find_matching_rule k (run limiter_step ops (gw_limiter g)) = Some default_rate_limit"
proof -
  have "load_rate_limit_rules \<pi> (in_memory_new t1 t2) i = []" for \<pi> t1 t2 i
    by (simp add: load_rate_limit_rules_def in_memory_new_def hm_values_def map_filter_def
        filter_empty_conv)
  moreover have "fold (\<lambda>_ l. l) xs l = l" for xs :: "tenant list" and l :: limiter
    by (induction xs) simp_all
  ultimately have L: "load_rules \<pi> (in_memory_new t1 t2) l = l" for \<pi> t1 t2 l
    by (simp add: load_rules_def id_def)
  have "rules (gw_limiter g) = [default_rate_limit]"
    by (rule assemble_Ok [OF assms(1)]) (simp add: L init_limiter_def add_rule_def limiter_new_def)
  then have "rules (run limiter_step ops (gw_limiter g)) = [default_rate_limit]"
    using assms(2)
  proof (induction ops arbitrary: g)
    case (Cons x ops)
    have "rules (limiter_step x l) = rules l" if "case x of AddRule _ \<Rightarrow> False | RemoveRule _ \<Rightarrow> False | _ \<Rightarrow> True" for l
      using that by (cases x)
        (auto simp: check_def peek_def reset_def with_bucket_def Let_def split: option.splits prod.splits)
    then show ?case using Cons.prems Cons.IH [of "g\<lparr>gw_limiter := limiter_step x (gw_limiter g)\<rparr>"] by simp
  qed simp
  then show ?thesis
    by (simp add: find_matching_rule_def rule_matches_def default_rate_limit_def)
qed

lemma started_limiter_one_rule_witness:
  "\<exists>g :: string gateway. assemble sample_cedar sample_host config_default = Ok g \<and>
     find_matching_rule \<lparr>rk_scope = ''ip'', rk_value = ''::1''\<rparr>
       (run limiter_step [Reset \<lparr>rk_scope = ''ip'', rk_value = ''::1''\<rparr>] (gw_limiter g)) = Some default_rate_limit"
proof -
  obtain g :: "string gateway" where g: "assemble sample_cedar sample_host config_default = Ok g"
    using sample_gateway [OF default_policy_off] by blast
  have "find_matching_rule \<lparr>rk_scope = ''ip'', rk_value = ''::1''\<rparr>
      (run limiter_step [Reset \<lparr>rk_scope = ''ip'', rk_value = ''::1''\<rparr>] (gw_limiter g)) = Some default_rate_limit"
    by (rule started_limiter_one_rule [OF g, THEN conjunct2]) simp
  with g show ?thesis by blast
qed
section \<open>The advertised tools\<close>

lemma gateway_frame:
  "registry (run gateway_step xs s) = registry s \<and> servers (proxy (run gateway_step xs s)) = servers (proxy s)"
proof (induction xs arbitrary: s)
  case (Cons x xs)
  have "registry (gateway_step x s) = registry s \<and> servers (proxy (gateway_step x s)) = servers (proxy s)"
  proof (cases x)
    case (fields V m e sid)
    show ?thesis
      using core_unaudited [of V "leaf m" e sid s]
      by (auto simp: gateway_step_def fields handle_message_Some unaudited_def split: option.split)
  qed
  then show ?case using Cons by simp
qed simp

lemma register_all_lookup:
  "lookup (fold (\<lambda>t r. snd (register_tool t srv (f t) r)) ts r) q = Some t \<Longrightarrow>
     lookup r q = Some t \<or> rt_tool t \<in> set ts \<and> server_id t = srv"
proof (induction ts arbitrary: r)
  case (Cons x ts)
  obtain res r' where R: "register_tool x srv (f x) r = (res, r')" by force
  have "lookup r' q = Some t \<Longrightarrow> lookup r q = Some t \<or> rt_tool t = x \<and> server_id t = srv"
    using R by (cases rule: register_tool_cases) (auto simp: lookup_def split: if_splits)
  moreover note R
  ultimately have "lookup (snd (register_tool x srv (f x) r)) q = Some t \<Longrightarrow>
      lookup r q = Some t \<or> rt_tool t = x \<and> server_id t = srv"
    by simp
  then show ?case using Cons by fastforce
qed simp

lemma parsed_names:
  "parse_tool_name ''com.echo:echo'' True = Ok (''com.echo'', ''echo'')"
  "parse_tool_name ''com.echo:add'' True = Ok (''com.echo'', ''add'')"
  "parse_tool_name ''com.echo:get_time'' True = Ok (''com.echo'', ''get_time'')"
  "parse_tool_name ''com.echo:uppercase'' True = Ok (''com.echo'', ''uppercase'')"
  by code_simp+

text \<open>What the default registry section and no upstreams give.\<close>

lemma uppercase_registered:
  assumes "registry_section c = registry_config_default" "upstreams (proxy_section c) = []"
  shows "\<exists>t. lookup (init_registry h c) ''com.echo:uppercase'' = Some t \<and> server_id t = ''echo'' \<and>
           rt_tool t = UPPERCASE_TOOL"
proof -
  have names: "t_name ECHO_TOOL = ''com.echo:echo''" "t_name ADD_TOOL = ''com.echo:add''"
    "t_name GET_TIME_TOOL = ''com.echo:get_time''" "t_name UPPERCASE_TOOL = ''com.echo:uppercase''"
    by (simp_all add: ECHO_TOOL_def ADD_TOOL_def GET_TIME_TOOL_def UPPERCASE_TOOL_def)
  have q: "qualify ''com.echo'' ''echo'' = ''com.echo:echo''" "qualify ''com.echo'' ''add'' = ''com.echo:add''"
    "qualify ''com.echo'' ''get_time'' = ''com.echo:get_time''"
    "qualify ''com.echo'' ''uppercase'' = ''com.echo:uppercase''"
    by (simp_all add: qualify_def fmt_def)
  show ?thesis
    using assms
    by (simp add: init_registry_def registry_config_default_def registry_with_config_def
        echo_server_tools_def register_tool_def parsed_names names q lookup_def)
qed

lemma echo_refuses_uppercase:
  assumes "hm_get (servers p) ''echo'' = Some echo_upstream" "jget ps ''name'' = Some (JStr ''com.echo:uppercase'')"
    and "forward_request V ''echo'' (Request i METHOD_TOOLS_CALL (Some ps)) p = Some (res, p')"
  shows "\<not> is_ok res"
  using assms
  by (auto simp: forward_request_def echo_upstream_def forward_to_echo_def echo_result_def method_defs
      echo_call_def str_member_def split: if_splits)

lemma register_all_servers:
  "hm_get (servers p) i \<noteq> None \<Longrightarrow>
     hm_get (servers (fold (\<lambda>x. register_server (f x)) xs p)) i \<noteq> None"
  by (induction xs arbitrary: p) (auto simp: register_server_def)

text \<open>C31: Every tool a started gateway has registered, after any messages, is one of the built-in test
  server's, and the upstream it is registered for exists: no tool call is lost for an unknown
  upstream. Tools of configured upstreams are never registered.\<close>

theorem started_tools_served:
  assumes "assemble E h c = Ok g" "s = run gateway_step xs (gw_router g)"
    and "lookup (registry s) q = Some t"
  shows "rt_tool t \<in> set echo_server_tools \<and> server_id t = ''echo'' \<and>
         hm_get (servers (proxy s)) (server_id t) \<noteq> None"
proof -
  obtain auth where r: "gw_router g = init_router h c auth" using assemble_Ok [OF assms(1)] by metis
  have reg: "registry s = init_registry h c" and srv: "servers (proxy s) = servers (init_proxy (h_order h) c)"
    by (simp_all add: assms(2) gateway_frame r init_router_def with_full_config_def)
  have "hm_get (servers (init_proxy (h_order h) c)) ''echo'' \<noteq> None"
    unfolding init_proxy_def
    by (rule register_all_servers) (simp add: register_server_def echo_upstream_def)
  moreover have "rt_tool t \<in> set echo_server_tools \<and> server_id t = ''echo''"
    using assms(3) register_all_lookup [of "''echo''" "\<lambda>x. h_now h (t_name x)" echo_server_tools]
    by (fastforce simp: reg init_registry_def Let_def lookup_def registry_with_config_def split: if_splits)
  ultimately show ?thesis by (simp add: srv)
qed

lemma started_tools_served_witness:
  "\<exists>(g :: string gateway) t. assemble sample_cedar sample_host config_default = Ok g \<and>
     lookup (registry (gw_router g)) ''com.echo:uppercase'' = Some t \<and> server_id t = ''echo'' \<and>
     hm_get (servers (proxy (gw_router g))) (server_id t) \<noteq> None"
proof -
  obtain g :: "string gateway" where g: "assemble sample_cedar sample_host config_default = Ok g"
    using sample_gateway [OF default_policy_off] by blast
  obtain auth where "gw_router g = init_router sample_host config_default auth"
    using assemble_Ok [OF g] by metis
  then have "registry (gw_router g) = init_registry sample_host config_default"
    by (simp add: init_router_def with_full_config_def)
  then obtain t where t: "lookup (registry (gw_router g)) ''com.echo:uppercase'' = Some t"
    using uppercase_registered [of config_default sample_host] by (auto simp: section_defaults)
  from started_tools_served [OF g, of "gw_router g" "[]", OF _ t] g t show ?thesis by auto
qed

text \<open>C32: A gateway without configured upstreams advertises the tool \<open>com.echo:uppercase\<close>, and no call of
  it ever succeeds, after any messages and with any scopes, session and arguments: the proxy's own
  echo server does not know the tool, and the echo server that does is never called.\<close>

theorem advertised_tool_never_works:
  assumes "assemble E h c = Ok g" "registry_section c = registry_config_default"
    and "upstreams (proxy_section c) = []" "s = run gateway_step xs (gw_router g)"
    and "handle_message V (Request i METHOD_TOOLS_CALL (Some ps)) e sid s = Some (res, s')"
    and "jget ps ''name'' = Some (JStr ''com.echo:uppercase'')"
  shows "(\<exists>t. lookup (registry s) ''com.echo:uppercase'' = Some t \<and> rt_tool t = UPPERCASE_TOOL) \<and>
         \<not> is_ok res"
proof -
  obtain auth where r: "gw_router g = init_router h c auth" using assemble_Ok [OF assms(1)] by metis
  have reg: "registry s = init_registry h c"
    and srv: "hm_get (servers (proxy s)) ''echo'' = Some echo_upstream"
    using assms(3) by (simp_all add: assms(4) gateway_frame r init_router_def with_full_config_def
        init_proxy_def hm_entries_def hm_keys_def hm_get_def register_server_def proxy_new_def echo_upstream_def
        map_filter_def hm_insert_def filter_empty_conv)
  obtain t where t: "lookup (registry s) ''com.echo:uppercase'' = Some t" "server_id t = ''echo''"
      "rt_tool t = UPPERCASE_TOOL"
    using uppercase_registered [OF assms(2,3)] unfolding reg by blast
  obtain s1 where "handle_request V i METHOD_TOOLS_CALL (Some ps) e sid s = Some (res, s1)"
    using assms(5) by (auto simp: and_finish_def)
  then have "\<not> is_ok res"
  proof (cases rule: request_cases)
    case unknown
    then show ?thesis by (simp add: known_method_def is_valid_method_def VALID_METHODS_def method_defs)
  next
    case dispatched
    then have "handle_tools_call V i (Some ps) e sid s = Some (res, s1)"
      by (simp add: dispatch_def method_defs)
    then show ?thesis
    proof (cases rule: tools_call_cases)
      case (admitted tool t' s2)
      then have "lookup_any (registry s) ''com.echo:uppercase'' = Ok (Some t')" "tool = ''com.echo:uppercase''"
        using assms(6) by (simp_all add: tools_call_admitted_def call_params_def)
      then have "t' = t" using lookup_any_lookup t(1) by fastforce
      have "hm_get (servers (proxy s2)) ''echo'' = Some echo_upstream"
        using srv admitted(2) by (simp add: quiet_def)
      then show ?thesis
        using forward_stage_cases(3) [OF admitted(3)] t(2) \<open>t' = t\<close> echo_refuses_uppercase assms(6)
        by (cases res) (fastforce simp: proxy_forward_def call_params_def split: option.splits)+
    qed auto
  qed auto
  with t show ?thesis by blast
qed
definition uppercase_params :: json where
  "uppercase_params =
     JObj [(''name'', JStr ''com.echo:uppercase''), (''arguments'', JObj [(''text'', JStr ''hi'')])]"

lemma default_router:
  "init_router sample_host config_default None =
     with_full_config
       (fold (\<lambda>t r. snd (register_tool t ''echo'' 0 r)) echo_server_tools registry_new)
       (register_server echo_upstream (proxy_new 100)) [] ''mcp-shield'' ''0.1.0'' None None
       (Some (LoggingProducer []))"
  by (simp add: init_router_def init_registry_def init_proxy_def init_sessions_def sample_host_def
      section_defaults default_server_name_def default_server_version_def CARGO_PKG_VERSION_def
      default_max_concurrent_def hm_entries_def hm_keys_def map_filter_def registry_new_def
      registry_with_config_def)

lemma sample_uppercase_answered:
  "handle_message sample_env (Request (IdInteger 1) METHOD_TOOLS_CALL (Some uppercase_params))
     enforcer_permissive None (init_router sample_host config_default None) \<noteq> None"
proof -
  let ?s = "init_router sample_host config_default None :: string router"
  have key: "schema_key (env_codec sample_env) (t_input_schema t) \<noteq> None" if "t \<in> set echo_server_tools" for t
  proof -
    have "list_all (\<lambda>t. schema_key (env_codec sample_env) (t_input_schema t) \<noteq> None) echo_server_tools"
      by code_simp
    with that show ?thesis by (simp add: list_all_iff)
  qed
  have "lookup (registry ?s) q = Some t \<Longrightarrow> rt_tool t \<in> set echo_server_tools" for q t
    using register_all_lookup [of "''echo''" "\<lambda>_. 0" echo_server_tools registry_new q t]
    by (simp add: default_router with_full_config_def lookup_def registry_new_def)
  moreover have "proxy_section config_default = proxy_config_default" by (simp add: config_default_def)
  moreover have "max_concurrent (proxy ?s) \<noteq> 0"
    by (simp add: default_router with_full_config_def register_server_def proxy_new_def)
  ultimately have "handle_tools_call sample_env i ps e sid ?s \<noteq> None" for i ps e sid
    using tools_call_answers key by blast
  moreover have "authorizer ?s = None" by (simp add: init_router_def with_full_config_def)
  ultimately show ?thesis
    by (simp add: and_finish_def handle_request_def known_method_def is_valid_method_def VALID_METHODS_def
        method_defs method_stage_def check_method_def enforcer_permissive_def cedar_stage_def dispatch_def
        step_bind_def step_lift_def del: step_bind_Ok)
qed

lemma advertised_tool_never_works_witness:
  "\<exists>g res s'. assemble sample_cedar sample_host config_default = Ok g \<and>
     handle_message sample_env (Request (IdInteger 1) METHOD_TOOLS_CALL (Some uppercase_params))
       enforcer_permissive None (gw_router g) = Some (res, s') \<and> \<not> is_ok res"
proof -
  obtain g :: "string gateway" where g: "assemble sample_cedar sample_host config_default = Ok g"
    using sample_gateway [OF default_policy_off] by blast
  have r: "gw_router g = init_router sample_host config_default None"
    using default_policy_off by (rule_tac assemble_Ok [OF g]) (simp add: init_authorizer_def)
  have "handle_message sample_env (Request (IdInteger 1) METHOD_TOOLS_CALL (Some uppercase_params))
      enforcer_permissive None (gw_router g) \<noteq> None"
    using sample_uppercase_answered unfolding r .
  then obtain res s' where h: "handle_message sample_env
      (Request (IdInteger 1) METHOD_TOOLS_CALL (Some uppercase_params)) enforcer_permissive None (gw_router g) =
      Some (res, s')"
    by auto
  have "registry_section config_default = registry_config_default" "upstreams (proxy_section config_default) = []"
    "jget uppercase_params ''name'' = Some (JStr ''com.echo:uppercase'')"
    by (simp_all add: section_defaults uppercase_params_def)
  then have "\<not> is_ok res"
    using advertised_tool_never_works [OF g, where xs = "[]"] h by simp
  with g h show ?thesis by blast
qed
end
