(* ===== verification/Server.thy ===== *)
theory Server
  imports Sse Startup
begin

text \<open>
  \<open>run_http_server\<close> of \<open>src/main.rs\<close>: the HTTP server as one system. The two HTTP transports share
  the router and nothing else. A handler that routes a message goes through three steps, between
  which any other handler can run: it reads its transport's table and lets the request in, the router
  handles the message, and it answers. The requests in flight are part of the state.
\<close>

section \<open>Handlers in three steps\<close>

text \<open>The message of a POST that is let through to the router.\<close>

definition http_gate :: "'v env \<Rightarrow> string option \<Rightarrow> string \<Rightarrow> 'v http_state \<Rightarrow> message option" where
  "http_gate V sid bytes h =
    (case from_str (env_codec V) (pe_serde (proxy_env V)) bytes of
       Err _ \<Rightarrow> None
     | Ok m \<Rightarrow>
         if utf8_valid bytes \<and> (case sid of Some i \<Rightarrow> hm_contains (h_sessions h) i | None \<Rightarrow> True)
         then Some m else None)"

definition http_answer ::
  "string \<Rightarrow> int \<Rightarrow> message \<Rightarrow> string option \<Rightarrow> (message, mcp_error) result \<Rightarrow> 'v http_state \<Rightarrow>
     http_response \<times> 'v http_state" where
  "http_answer new_id now m sid res h =
    (case res of
       Err x \<Rightarrow> (if suppressed x then plain_response 202 EmptyBody
                else jsonrpc_error_response (error_code x) (error_text x), h)
     | Ok r \<Rightarrow> answer_http new_id now m sid r h)"

text \<open>The handlers are these steps in a row.\<close>

lemma post_in_parts:
  assumes "http_gate V sid bytes h = Some m"
  shows "handle_mcp_post V new_id now sid bytes h =
    (case handle_message V m (h_enforcer h) sid (h_router h) of
       None \<Rightarrow> None
     | Some (res, s') \<Rightarrow> Some (http_answer new_id now m sid res (h\<lparr>h_router := s'\<rparr>)))"
proof -
  obtain raw where "utf8_valid bytes" "from_text (env_codec V) bytes = Ok raw"
      "parse (pe_serde (proxy_env V)) raw = Ok m" "\<forall>i. sid = Some i \<longrightarrow> hm_contains (h_sessions h) i"
    using assms by (auto simp: http_gate_def from_str_Ok split: result.splits if_splits option.splits)
  then show ?thesis
    by (cases sid) (simp_all add: handle_mcp_post_def http_answer_def split: option.split result.split)
qed

lemma post_refused:
  assumes "http_gate V sid bytes h = None" "handle_mcp_post V new_id now sid bytes h = Some (resp, h')"
  shows "h' = h"
  using assms(2)
proof (cases rule: handle_mcp_post_cases)
  case (failed m x s')
  then show ?thesis using assms
    by (auto simp: http_gate_def is_ok_iff handle_mcp_post_def split: option.splits if_splits)
next
  case (answered m r s')
  then show ?thesis using assms
    by (auto simp: http_gate_def handle_mcp_post_def split: option.splits if_splits)
qed simp

section \<open>The system\<close>

text \<open>A request in flight: let in, or handled by the router and not yet answered.\<close>

datatype flight =
    HttpGated message "string option"
  | HttpRouted message "string option" "(message, mcp_error) result"
  | SseGated message string nat
  | SseRouted message nat "(message, mcp_error) result"

record 'v server =
  sv_http :: "'v http_state"
  sv_sse :: "'v sse_state option"
  flights :: "flight list"

definition run_http_server :: "'v router \<Rightarrow> scope_enforcer \<Rightarrow> config \<Rightarrow> 'v server" where
  "run_http_server s e c =
     \<lparr>sv_http = http_new s e,
      sv_sse = (if enable_sse (server_section c) then Some (sse_new s e) else None), flights = []\<rparr>"

text \<open>What one transport did to the router the other one sees.\<close>

definition after_http :: "'v http_state \<Rightarrow> 'v server \<Rightarrow> 'v server" where
  "after_http h s =
     s\<lparr>sv_http := h, sv_sse := map_option (\<lambda>x. x\<lparr>e_router := h_router h\<rparr>) (sv_sse s)\<rparr>"

definition after_sse :: "'v sse_state \<Rightarrow> 'v server \<Rightarrow> 'v server" where
  "after_sse x s = s\<lparr>sv_http := (sv_http s)\<lparr>h_router := e_router x\<rparr>, sv_sse := Some x\<rparr>"

definition take_off :: "flight \<Rightarrow> 'v server \<Rightarrow> 'v server" where
  "take_off f s = s\<lparr>flights := flights s @ [f]\<rparr>"

definition turn :: "nat \<Rightarrow> flight \<Rightarrow> 'v server \<Rightarrow> 'v server" where
  "turn k f s = s\<lparr>flights := (flights s)[k := f]\<rparr>"

definition land :: "nat \<Rightarrow> 'v server \<Rightarrow> 'v server" where
  "land k s = s\<lparr>flights := take k (flights s) @ drop (Suc k) (flights s)\<rparr>"

definition in_flight :: "'v server \<Rightarrow> nat \<Rightarrow> flight \<Rightarrow> bool" where
  "in_flight s k f \<longleftrightarrow> k < length (flights s) \<and> flights s ! k = f"

text \<open>The steps; \<open>N\<close> are the identifiers that new sessions may get.\<close>

inductive serve :: "string set \<Rightarrow> 'v server \<Rightarrow> 'v server \<Rightarrow> bool" for N where
  http_in: "http_gate V sid bytes (sv_http s) = Some m \<Longrightarrow> serve N s (take_off (HttpGated m sid) s)"
| http_route: "in_flight s k (HttpGated m sid) \<Longrightarrow>
     handle_message V m (h_enforcer (sv_http s)) sid (h_router (sv_http s)) = Some (res, r) \<Longrightarrow>
     serve N s (turn k (HttpRouted m sid res) (after_http ((sv_http s)\<lparr>h_router := r\<rparr>) s))"
| http_out: "in_flight s k (HttpRouted m sid res) \<Longrightarrow> new_id \<in> N \<Longrightarrow>
     http_answer new_id now m sid res (sv_http s) = (resp, h) \<Longrightarrow> serve N s (land k (after_http h s))"
| http_delete: "handle_mcp_delete sid (sv_http s) = (resp, h) \<Longrightarrow> serve N s (after_http h s)"
| sse_connection: "sv_sse s = Some x \<Longrightarrow> x' = snd (handle_sse_get fresh query x) \<Longrightarrow>
     serve N s (after_sse x' s)"
| sse_refuse: "sv_sse s = Some x \<Longrightarrow> sse_gate V query bytes x = None \<Longrightarrow>
     handle_sse_post V tx query bytes x = Some (resp, x') \<Longrightarrow> serve N s (after_sse x' s)"
| sse_in: "sv_sse s = Some x \<Longrightarrow> sse_gate V query bytes x = Some (cid, c, m) \<Longrightarrow>
     serve N s (take_off (SseGated m cid c) s)"
| sse_route: "in_flight s k (SseGated m cid c) \<Longrightarrow> sv_sse s = Some x \<Longrightarrow>
     handle_message V m (e_enforcer x) (Some cid) (e_router x) = Some (res, r) \<Longrightarrow>
     serve N s (turn k (SseRouted m c res) (after_sse (x\<lparr>e_router := r\<rparr>) s))"
| sse_out: "in_flight s k (SseRouted m c res) \<Longrightarrow> sv_sse s = Some x \<Longrightarrow>
     sse_answer tx c m res x = (resp, x') \<Longrightarrow> serve N s (land k (after_sse x' s))"

abbreviation the_router :: "'v server \<Rightarrow> 'v router" where
  "the_router s \<equiv> h_router (sv_http s)"

lemmas server_defs = after_http_def after_sse_def take_off_def turn_def land_def

section \<open>The router under the transports\<close>

text \<open>A step of a transport leaves the router alone or has it handle one message.\<close>

definition handles :: "scope_enforcer \<Rightarrow> 'v router \<Rightarrow> 'v router \<Rightarrow> bool" where
  "handles e s s' \<longleftrightarrow> s' = s \<or> (\<exists>V m sid res. handle_message V m e sid s = Some (res, s'))"

lemma handles_refl [simp]: "handles e s s"
  by (simp add: handles_def)

lemma http_answer_frame:
  assumes "http_answer new_id now m sid res h = (resp, h')"
  shows "h_router h' = h_router h" "h_enforcer h' = h_enforcer h"
    "hm_contains (h_sessions h') i \<Longrightarrow> hm_contains (h_sessions h) i \<or> i = new_id"
  using assms
  by (auto simp: http_answer_def answer_http_def Let_def hm_contains_def split: result.splits option.splits if_splits)

lemma handle_mcp_delete_frame:
  assumes "handle_mcp_delete sid h = (resp, h')"
  shows "h_router h' = h_router h" "h_enforcer h' = h_enforcer h"
    "hm_contains (h_sessions h') i \<Longrightarrow> hm_contains (h_sessions h) i"
  using assms by (auto simp: handle_mcp_delete_def hm_contains_def split: option.splits if_splits)

lemma accept_sending_frame:
  assumes "accept_sending tx c r x = (resp, x')"
  shows "e_router x' = e_router x" "e_enforcer x' = e_enforcer x"
proof -
  have "x' = snd (sse_send tx c r x)" using assms accept_sending_snd [of tx c r x] by simp
  then show "e_router x' = e_router x" "e_enforcer x' = e_enforcer x" by simp_all
qed

lemma sse_answer_frame:
  "sse_answer tx c m res x = (resp, x') \<Longrightarrow> e_router x' = e_router x \<and> e_enforcer x' = e_enforcer x"
  by (auto simp: sse_answer_def accept_sending_frame split: result.splits if_splits)

lemma sse_connection_frame:
  "x' = snd (handle_sse_get fresh query x) \<Longrightarrow>
     e_router x' = e_router x \<and> e_enforcer x' = e_enforcer x"
  by (auto simp: handle_sse_get_def Let_def)

text \<open>The transports agree on the router and on the enforcer.\<close>

definition agreed :: "scope_enforcer \<Rightarrow> 'v server \<Rightarrow> bool" where
  "agreed e s \<longleftrightarrow> h_enforcer (sv_http s) = e \<and>
     (\<forall>x. sv_sse s = Some x \<longrightarrow> e_router x = the_router s \<and> e_enforcer x = e)"

lemma serve_handles:
  assumes "serve N s s'" "agreed e s"
  shows "agreed e s' \<and> handles e (the_router s) (the_router s')"
  using assms(1)
proof cases
  case (http_out k m sid res new_id now resp h)
  then show ?thesis
    using assms(2) http_answer_frame(1,2) [OF http_out(4)] by (auto simp: agreed_def server_defs)
next
  case (http_delete sid resp h)
  then show ?thesis
    using assms(2) handle_mcp_delete_frame(1,2) [OF http_delete(2)] by (auto simp: agreed_def server_defs)
next
  case (sse_connection x x' fresh query)
  then show ?thesis
    using assms(2) sse_connection_frame [OF sse_connection(3)] by (auto simp: agreed_def server_defs)
next
  case (sse_refuse x V query bytes tx resp x')
  then show ?thesis
    using assms(2) sse_post_unrouted [OF sse_refuse(3,4)] by (auto simp: agreed_def server_defs)
next
  case (sse_out k m c res x tx resp x')
  then show ?thesis
    using assms(2) sse_answer_frame [OF sse_out(4)] by (auto simp: agreed_def server_defs)
qed (use assms(2) in \<open>auto simp: agreed_def server_defs handles_def\<close>)

section \<open>Invariants of the router under a server\<close>

text \<open>What a handled message keeps, every reachable server has.\<close>

lemma serves_invariant:
  assumes "(serve N)\<^sup>*\<^sup>* (run_http_server r e c) s" "P r"
    and "\<And>V m sid s res s'. P s \<Longrightarrow> handle_message V m e sid s = Some (res, s') \<Longrightarrow> P s'"
  shows "agreed e s \<and> P (the_router s)"
  using assms(1)
proof (induction rule: rtranclp_induct)
  case base
  show ?case using assms(2) by (auto simp: run_http_server_def agreed_def http_new_def sse_new_def)
next
  case (step s s')
  then show ?case using serve_handles [OF step(2)] assms(3) unfolding handles_def by metis
qed

text \<open>The books of a gateway that logs its audit events: one line and one count per message, at most
  one upstream call, and the parts that no message may change.\<close>

definition books :: "'v router \<Rightarrow> 'v router \<Rightarrow> bool" where
  "books r s \<longleftrightarrow>
     (\<exists>lines. audit_producer s = Some (LoggingProducer lines) \<and>
        length lines = counted REQUESTS_TOTAL (metrics s) \<and> length (sent (proxy s)) \<le> length lines) \<and>
     registry s = registry r \<and> servers (proxy s) = servers (proxy r) \<and> authorizer s = authorizer r"

lemma handle_message_books:
  assumes "books r s" "handle_message V m e sid s = Some (res, s')"
  shows "books r s'"
proof -
  obtain s1 where C: "core V (leaf m) e sid s = Some (res, s1)" and s': "s' = finish V (leaf m) e sid res s1"
    using assms(2) [unfolded handle_message_Some] by auto
  show ?thesis
    using assms(1) core_unaudited [OF C]
    by (auto simp: books_def unaudited_def s' finish_def record_request_def logging_publish_def)
qed

lemma register_all_sent: "sent (fold (\<lambda>x. register_server (f x)) xs p) = sent p"
  by (induction xs arbitrary: p) (simp_all add: register_server_def)

lemma init_proxy_sent: "sent (init_proxy \<pi> c) = []"
  by (simp only: init_proxy_def register_all_sent) (simp add: register_server_def proxy_new_def)

lemma started_books:
  assumes "assemble E h c = Ok g"
  shows "books (gw_router g) (gw_router g) \<and> sent (proxy (gw_router g)) = []"
proof -
  obtain auth where "gw_router g = init_router h c auth" using assemble_Ok [OF assms] by metis
  then show ?thesis
    by (simp add: books_def init_router_def with_full_config_def init_proxy_sent counted_def)
qed

section \<open>Sequential handlers\<close>

text \<open>A handler that nothing interrupts is one way for its steps to run.\<close>

lemma land_last: "land (length (flights s)) (s\<lparr>flights := flights s @ [f]\<rparr>) = s"
  by (simp add: land_def)

lemma uninterrupted_post:
  assumes "handle_mcp_post V new_id now sid bytes (sv_http s) = Some (resp, h)" "agreed e s" "new_id \<in> N"
  shows "(serve N)\<^sup>*\<^sup>* s (after_http h s)"
proof (cases "http_gate V sid bytes (sv_http s)")
  case None
  then have "after_http h s = s"
    using post_refused [OF None assms(1)] assms(2)
    by (cases "sv_sse s") (simp_all add: after_http_def agreed_def)
  then show ?thesis by simp
next
  case (Some m)
  obtain res r where H: "handle_message V m (h_enforcer (sv_http s)) sid (h_router (sv_http s)) = Some (res, r)"
    and A: "http_answer new_id now m sid res ((sv_http s)\<lparr>h_router := r\<rparr>) = (resp, h)"
    using assms(1) post_in_parts [OF Some, of new_id now] by (auto split: option.splits)
  let ?k = "length (flights s)" and ?s1 = "take_off (HttpGated m sid) s"
  let ?s2 = "turn ?k (HttpRouted m sid res) (after_http ((sv_http ?s1)\<lparr>h_router := r\<rparr>) ?s1)"
  let ?s3 = "land ?k (after_http h ?s2)"
  have 1: "serve N s ?s1" by (rule http_in [OF Some])
  have 2: "serve N ?s1 ?s2"
    by (rule http_route [where V = V]) (simp_all add: in_flight_def take_off_def H)
  have 3: "serve N ?s2 ?s3"
  proof (rule http_out [where resp = resp])
    show "in_flight ?s2 ?k (HttpRouted m sid res)" by (simp add: in_flight_def server_defs)
    show "http_answer new_id now m sid res (sv_http ?s2) = (resp, h)" using A by (simp add: server_defs)
  qed (rule assms(3))
  have "?s3 = after_http h s"
    by (simp add: server_defs option.map_comp o_def)
  with 1 2 3 show ?thesis by (metis rtranclp.simps)
qed

lemma run_http_server_agreed: "agreed e (run_http_server r e c)"
  by (simp add: agreed_def run_http_server_def http_new_def sse_new_def)

section \<open>Properties\<close>

text \<open>Whatever requests arrive at the server of a started gateway, over either transport and in any
  order, its audit log has one line per counted request, no request has caused more than one
  upstream call, and nothing a client sends has changed the registry, the upstreams or the
  policy; the two transports work on the same router throughout.\<close>

theorem running_gateway_accounts:
  assumes "assemble E h c = Ok g" "(serve N)\<^sup>*\<^sup>* (run_http_server (gw_router g) (gw_enforcer g) c) s"
  shows "(\<exists>lines. audit_producer (the_router s) = Some (LoggingProducer lines) \<and>
            length lines = counted REQUESTS_TOTAL (metrics (the_router s)) \<and>
            length (sent (proxy (the_router s))) \<le> length lines) \<and>
         registry (the_router s) = registry (gw_router g) \<and>
         servers (proxy (the_router s)) = servers (proxy (gw_router g)) \<and>
         authorizer (the_router s) = authorizer (gw_router g) \<and>
         (\<forall>x. sv_sse s = Some x \<longrightarrow> e_router x = the_router s)"
proof -
  have "books (gw_router g) (gw_router g)"
    using started_books [OF assms(1)] by simp
  from serves_invariant [OF assms(2), of "books (gw_router g)", OF this handle_message_books]
  show ?thesis by (auto simp: books_def agreed_def)
qed

lemma ping_answered:
  assumes "authorizer s = None"
  shows "\<exists>res s'. handle_message sample_env (Request (IdInteger 1) METHOD_PING None) enforcer_permissive sid s =
    Some (res, s')"
  using assms
  by (simp add: and_finish_def handle_request_def known_method_def is_valid_method_def VALID_METHODS_def
      method_defs method_stage_def check_method_def enforcer_permissive_def cedar_stage_def dispatch_def
      step_bind_def step_lift_def del: step_bind_Ok)

lemma running_gateway_accounts_witness:
  "\<exists>(g :: string gateway) s lines. assemble sample_cedar sample_host config_default = Ok g \<and>
     (serve UNIV)\<^sup>*\<^sup>* (run_http_server (gw_router g) (gw_enforcer g) config_default) s \<and>
     audit_producer (the_router s) = Some (LoggingProducer lines) \<and>
     length lines = counted REQUESTS_TOTAL (metrics (the_router s))"
proof -
  obtain g :: "string gateway" where g: "assemble sample_cedar sample_host config_default = Ok g"
    using sample_gateway [OF default_policy_off] by blast
  have r: "authorizer (gw_router g) = None" "gw_enforcer g = enforcer_permissive"
    using default_policy_off
    by (rule_tac [!] assemble_Ok [OF g]) (simp_all add: init_authorizer_def init_router_def with_full_config_def)
  let ?s = "run_http_server (gw_router g) (gw_enforcer g) config_default"
  obtain res s' where "handle_message sample_env (Request (IdInteger 1) METHOD_PING None) enforcer_permissive
      None (gw_router g) = Some (res, s')"
    using ping_answered [OF r(1)] by blast
  then have "\<exists>resp h. handle_mcp_post sample_env ''n'' 0 None ping_bytes (sv_http ?s) = Some (resp, h)"
    using ping_arrives(1-3) r(2)
    by (auto simp: handle_mcp_post_def run_http_server_def http_new_def split: result.split)
  then obtain s1 where s1: "(serve UNIV)\<^sup>*\<^sup>* ?s s1"
    using uninterrupted_post [OF _ run_http_server_agreed UNIV_I] by blast
  from running_gateway_accounts [OF g this] g s1 show ?thesis by blast
qed

text \<open>A \<open>resources/list\<close>, which goes to the default upstream, as bytes of the sample codec.\<close>

definition resources_request :: message where
  "resources_request = Request (IdInteger 1) METHOD_RESOURCES_LIST None"

definition resources_bytes :: string where
  "resources_bytes = put_json (to_value resources_request)"

lemma resources_arrive:
  "utf8_valid resources_bytes" "from_text (env_codec sample_env) resources_bytes = Ok (to_value resources_request)"
  "parse (pe_serde (proxy_env sample_env)) (to_value resources_request) = Ok resources_request"
proof -
  show "utf8_valid resources_bytes" by code_simp
  show "from_text (env_codec sample_env) resources_bytes = Ok (to_value resources_request)"
    by (simp only: resources_bytes_def env_codec_def sample_env_def env.simps proxy_env.simps sample_from_text)
  show "parse (pe_serde (proxy_env sample_env)) (to_value resources_request) = Ok resources_request"
    unfolding resources_request_def by (rule parse_to_value) (simp add: wf_message_def)
qed

lemma resources_forwarded:
  "\<exists>res s'. handle_message sample_env resources_request enforcer_permissive sid
     (init_router sample_host config_default None) = Some (res, s') \<and>
     sent (proxy s') = [EchoCall resources_request]"
proof -
  let ?p = "register_server echo_upstream (proxy_new 100)"
  have f: "\<exists>res p. forward_request (proxy_env sample_env) ''echo'' resources_request ?p = Some (res, p) \<and>
      sent p = [EchoCall resources_request]"
    by (simp add: forward_request_def register_server_def proxy_new_def echo_upstream_def)
  have d: "default_server_id (server_order sample_env) ?p = Some ''echo''"
    by (simp add: default_server_id_def register_server_def proxy_new_def echo_upstream_def hm_insert_def
        hm_keys_def sample_env_def)
  show ?thesis
    using f d unfolding default_router
    by (auto simp: resources_request_def with_full_config_def and_finish_def handle_request_def known_method_def
        is_valid_method_def VALID_METHODS_def method_defs method_stage_def check_method_def
        enforcer_permissive_def cedar_stage_def dispatch_def step_bind_def step_lift_def
        proxy_to_upstream_def proxy_forward_def simp del: step_bind_Ok)
qed

section \<open>Terminated sessions\<close>

lemma serve_sessions:
  assumes "serve N s s'" "hm_contains (h_sessions (sv_http s')) i"
  shows "hm_contains (h_sessions (sv_http s)) i \<or> i \<in> N"
  using assms(1)
proof cases
  case (http_out k m sid res new_id now resp h)
  then show ?thesis
    using assms(2) http_answer_frame(3) [OF http_out(4)] by (auto simp: server_defs)
next
  case (http_delete sid resp h)
  then show ?thesis
    using assms(2) handle_mcp_delete_frame(3) [OF http_delete(2)] by (auto simp: server_defs)
qed (use assms(2) in \<open>auto simp: server_defs\<close>)

lemma serves_sessions:
  "(serve N)\<^sup>*\<^sup>* s s' \<Longrightarrow> hm_contains (h_sessions (sv_http s')) i \<Longrightarrow> hm_contains (h_sessions (sv_http s)) i \<or> i \<in> N"
  by (induction rule: rtranclp_induct) (use serve_sessions in blast)+

lemma deleted_not_contained:
  "handle_mcp_delete (Some i) h = (resp, h') \<Longrightarrow> \<not> hm_contains (h_sessions h') i"
  by (auto simp: handle_mcp_delete_def hm_contains_def split: if_splits)

text \<open>C38: After a DELETE of a session, no request that names it reaches the router again, whatever the
  other clients do on either transport and however their handlers interleave, as long as no later
  session is given the same identifier: each one is answered without any change of state, and a
  well-formed one with the answer for an unknown session.\<close>

theorem terminated_session_stays_out:
  assumes "handle_mcp_delete (Some i) (sv_http s) = (resp, h)" "i \<notin> N" "(serve N)\<^sup>*\<^sup>* (after_http h s) s'"
  shows "\<exists>refusal. handle_mcp_post V new_id now (Some i) bytes (sv_http s') = Some (refusal, sv_http s') \<and>
           (utf8_valid bytes \<and> is_ok (from_str (env_codec V) (pe_serde (proxy_env V)) bytes) \<longrightarrow>
              refusal = UNKNOWN_SESSION)"
proof -
  have "\<not> hm_contains (h_sessions (sv_http s')) i"
    using serves_sessions [OF assms(3)] assms(2) deleted_not_contained [OF assms(1)]
    by (auto simp: after_http_def)
  then show ?thesis by (auto simp: handle_mcp_post_def from_str_def split: result.split)
qed

definition sample_server :: "string server" where
  "sample_server = \<lparr>sv_http = sample_http\<lparr>h_sessions := [(''a'', \<lparr>ss_created_at = 0, ss_last_activity = 0, ss_initialized = False\<rparr>)]\<rparr>,
     sv_sse = None, flights = []\<rparr>"

lemma terminated_session_stays_out_witness:
  "\<exists>resp h s'. handle_mcp_delete (Some ''a'') (sv_http sample_server) = (resp, h) \<and>
     serve {''n''} (after_http h sample_server) s' \<and>
     (\<exists>refusal. handle_mcp_post sample_env ''n'' 0 (Some ''a'') ping_bytes (sv_http s') = Some (refusal, sv_http s'))"
proof -
  obtain resp h where D: "handle_mcp_delete (Some ''a'') (sv_http sample_server) = (resp, h)"
    by (metis prod.collapse)
  have "http_gate sample_env None ping_bytes (sv_http (after_http h sample_server)) =
      Some (Request (IdInteger 1) METHOD_PING None)"
    using ping_arrives(1-3) by (simp add: http_gate_def from_str_def)
  then have t: "serve {''n''} (after_http h sample_server)
      (take_off (HttpGated (Request (IdInteger 1) METHOD_PING None) None) (after_http h sample_server))"
    (is "serve _ _ ?t")
    by (rule http_in)
  have "(serve {''n''})\<^sup>*\<^sup>* (after_http h sample_server) ?t" using t by blast
  then have "\<exists>refusal. handle_mcp_post sample_env ''n'' 0 (Some ''a'') ping_bytes (sv_http ?t) = Some (refusal, sv_http ?t)"
    using terminated_session_stays_out [OF D, of "{''n''}" ?t sample_env "''n''" 0 ping_bytes] by auto
  with D t show ?thesis by blast
qed

text \<open>What was let in before the DELETE still runs after it: the table's lock is released in between.\<close>

theorem gated_request_outlives_session:
  assumes "in_flight s k (HttpGated m (Some i))"
    and "handle_message V m (h_enforcer (sv_http s)) (Some i) (the_router s) = Some (res, r)"
  shows "\<exists>s1 s2. serve N s s1 \<and> \<not> hm_contains (h_sessions (sv_http s1)) i \<and> serve N s1 s2 \<and> the_router s2 = r"
proof -
  obtain resp h where D: "handle_mcp_delete (Some i) (sv_http s) = (resp, h)"
    by (metis prod.collapse)
  let ?s1 = "after_http h s"
  let ?s2 = "turn k (HttpRouted m (Some i) res) (after_http ((sv_http ?s1)\<lparr>h_router := r\<rparr>) ?s1)"
  have "serve N s ?s1" by (rule http_delete [OF D])
  moreover have "serve N ?s1 ?s2"
    by (rule http_route [where V = V])
      (use assms handle_mcp_delete_frame(1,2) [OF D] in \<open>simp_all add: in_flight_def after_http_def\<close>)
  ultimately show ?thesis
    using deleted_not_contained [OF D] by (intro exI [of _ ?s1] exI [of _ ?s2]) (simp add: server_defs)
qed

lemma gated_request_outlives_session_witness:
  "\<exists>s1 s2. serve {} (take_off (HttpGated (Request (IdInteger 1) METHOD_PING None) (Some ''a'')) sample_server) s1 \<and>
     \<not> hm_contains (h_sessions (sv_http s1)) ''a'' \<and> serve {} s1 s2"
proof -
  let ?s = "take_off (HttpGated (Request (IdInteger 1) METHOD_PING None) (Some ''a'')) sample_server"
  have "authorizer (the_router ?s) = None" "h_enforcer (sv_http ?s) = enforcer_permissive"
    by (simp_all add: take_off_def sample_server_def sample_http_def sample_router_def with_guardrails_def)
  then obtain res r where "handle_message sample_env (Request (IdInteger 1) METHOD_PING None)
      (h_enforcer (sv_http ?s)) (Some ''a'') (the_router ?s) = Some (res, r)"
    using ping_answered by metis
  moreover have "in_flight ?s 0 (HttpGated (Request (IdInteger 1) METHOD_PING None) (Some ''a''))"
    by (simp add: in_flight_def take_off_def sample_server_def)
  ultimately show ?thesis using gated_request_outlives_session by blast
qed

end
