(* ===== verification/Interleaving.thy ===== *)
theory Interleaving
  imports Tasks Server
begin

text \<open>
  Any number of messages handled by one router at the same time: a pool of the tasks of \<open>Tasks\<close>, to
  which messages arrive at any moment. The tasks keep books of what they owe: one count, one line of
  the audit log, at most one upstream call, and the permit of the proxy while they hold it.
\<close>

section \<open>The books of a task\<close>

datatype due = CountDue | LineDue | CallDue | PermitHeld

definition line_count :: "'v router \<Rightarrow> nat" where
  "line_count r = (case audit_producer r of Some (LoggingProducer lines) \<Rightarrow> length lines | _ \<Rightarrow> 0)"

text \<open>What no access changes in a gateway started as \<open>g\<close>.\<close>

definition sound :: "'v router \<Rightarrow> 'v shared \<Rightarrow> bool" where
  "sound g s \<longleftrightarrow>
     registry (sh_router s) = registry g \<and> servers (proxy (sh_router s)) = servers (proxy g) \<and>
     authorizer (sh_router s) = authorizer g \<and>
     max_concurrent (proxy (sh_router s)) = max_concurrent (proxy g) \<and>
     (\<exists>lines. audit_producer (sh_router s) = Some (LoggingProducer lines))"

definition moved :: "'v shared \<Rightarrow> due multiset \<Rightarrow> 'v shared \<Rightarrow> due multiset \<Rightarrow> bool" where
  "moved s D s' D' \<longleftrightarrow>
     counted REQUESTS_TOTAL (metrics (sh_router s')) + count D' CountDue =
       counted REQUESTS_TOTAL (metrics (sh_router s)) + count D CountDue \<and>
     line_count (sh_router s') + count D' LineDue = line_count (sh_router s) + count D LineDue \<and>
     length (sent (proxy (sh_router s'))) + count D' CallDue \<le>
       length (sent (proxy (sh_router s))) + count D CallDue \<and>
     permits s' + count D' PermitHeld = permits s + count D PermitHeld"

definition balanced :: "nat \<Rightarrow> nat \<Rightarrow> 'v shared \<Rightarrow> due multiset \<Rightarrow> bool" where
  "balanced slots n s D \<longleftrightarrow>
     counted REQUESTS_TOTAL (metrics (sh_router s)) + count D CountDue = n \<and>
     line_count (sh_router s) + count D LineDue = n \<and>
     length (sent (proxy (sh_router s))) + count D CallDue \<le> n \<and>
     permits s + count D PermitHeld = slots"

text \<open>When \<open>b\<close> holds, a task may only wait for a permit, and not while it holds one.\<close>

definition waits :: "bool \<Rightarrow> 'v shared \<Rightarrow> due multiset \<Rightarrow> bool" where
  "waits b s D \<longleftrightarrow> (b \<longrightarrow> permits s = 0 \<and> PermitHeld \<notin># D)"

interpretation task_books: ledger "sound g" moved "{CallDue}" "waits b" "balanced slots" "{#CountDue, LineDue, CallDue#}"
  for g :: "'v router" and b slots
  by unfold_locales (auto simp: moved_def balanced_def)

abbreviation owing :: "bool \<Rightarrow> 'v router \<Rightarrow> due multiset \<Rightarrow> ('v, 'a) task \<Rightarrow> bool" where
  "owing b g \<equiv> owes (sound g) moved {CallDue} (waits b)"

lemma sound_quiet: "sound g s \<Longrightarrow> quiet (sh_router s) r \<Longrightarrow> sound g (s\<lparr>sh_router := r\<rparr>)"
  by (auto simp: sound_def quiet_def)

lemma moved_quiet: "quiet (sh_router s) r \<Longrightarrow> moved s D (s\<lparr>sh_router := r\<rparr>) D"
  by (simp add: moved_def quiet_def line_count_def)

lemma owes_spare: "owing b g D t \<Longrightarrow> owing b g (add_mset CallDue D) t"
proof (induction rule: owes.induct)
  case (owes_Atom f D)
  have m: "moved s D s' D' \<Longrightarrow> moved s (add_mset CallDue D) s' D'" for s s' D'
    by (auto simp: moved_def)
  show ?case
  proof (rule owes.owes_Atom)
    fix s assume "sound g s" "f s = None"
    then show "waits b s (add_mset CallDue D)" using owes_Atom(1) by (auto simp: waits_def)
  next
    fix s t s' assume "sound g s" "f s = Some (t, s')"
    then show "sound g s' \<and> (\<exists>D'. moved s (add_mset CallDue D) s' D' \<and> owing b g D' t)"
      using owes_Atom(2) m by blast
  qed
next
  case (owes_Done D a)
  then show ?case by (intro owes.owes_Done) simp
qed

lemma owes_spares: "set_mset D \<subseteq> {CallDue} \<Longrightarrow> owing b g E t \<Longrightarrow> owing b g (D + E) t"
  by (induction D) (auto intro: owes_spare)

lemma owes_bind:
  assumes "owing b g D t" "\<And>a. owing b g E (k a)" "PermitHeld \<notin># E"
  shows "owing b g (D + E) (bind_thread t k)"
  using assms(1)
proof (induction rule: owes.induct)
  case (owes_Done D a)
  then show ?case using assms(2) by (simp add: owes_spares)
next
  case (owes_Atom f D)
  have m: "moved s D s' D' \<Longrightarrow> moved s (D + E) s' (D' + E)" for s s' D'
    by (auto simp: moved_def)
  show ?case
    unfolding bind_thread.simps
  proof (rule owes.owes_Atom)
    fix s assume "sound g s" "map_option (map_prod (\<lambda>t. bind_thread t k) id) (f s) = None"
    then show "waits b s (D + E)" using owes_Atom(1) assms(3) by (auto simp: waits_def)
  next
    fix s u s'
    assume s: "sound g s" and "map_option (map_prod (\<lambda>t. bind_thread t k) id) (f s) = Some (u, s')"
    then obtain t where "f s = Some (t, s')" "u = bind_thread t k" by auto
    then show "sound g s' \<and> (\<exists>D'. moved s (D + E) s' D' \<and> owing b g D' u)"
      using owes_Atom(2) [OF s] m by blast
  qed
qed

lemma owes_then:
  assumes "set_mset D \<subseteq> {CallDue}" "quiet_step m"
    and "\<And>s a r'. sound g s \<Longrightarrow> m (sh_router s) = Some (Ok a, r') \<Longrightarrow> owing b g D (k a)"
    and "\<And>s. b \<Longrightarrow> sound g s \<Longrightarrow> m (sh_router s) \<noteq> None"
  shows "owing b g D (then_do m k)"
  unfolding then_do_def
proof (rule owes_Atom)
  fix s
  assume "sound g s" "(case m (sh_router s) of None \<Rightarrow> None
      | Some (Err x, r) \<Rightarrow> Some (Done (Err x), s\<lparr>sh_router := r\<rparr>)
      | Some (Ok a, r) \<Rightarrow> Some (k a, s\<lparr>sh_router := r\<rparr>)) = None"
  then show "waits b s D"
    using assms(4) [of s] by (auto simp: waits_def split: option.splits result.splits)
next
  fix s t s'
  assume s: "sound g s" and t: "(case m (sh_router s) of None \<Rightarrow> None
      | Some (Err x, r) \<Rightarrow> Some (Done (Err x), s\<lparr>sh_router := r\<rparr>)
      | Some (Ok a, r) \<Rightarrow> Some (k a, s\<lparr>sh_router := r\<rparr>)) = Some (t, s')"
  from t obtain res r where m: "m (sh_router s) = Some (res, r)" "s' = s\<lparr>sh_router := r\<rparr>"
      "t = (case res of Err x \<Rightarrow> Done (Err x) | Ok a \<Rightarrow> k a)"
    by (auto split: option.splits result.splits)
  then have "owing b g D t"
    using assms(1,3) s by (cases res) (auto intro: owes_Done)
  with m s assms(2) show "sound g s' \<and> (\<exists>D'. moved s D s' D' \<and> owing b g D' t)"
    using sound_quiet moved_quiet quiet_stepD by blast
qed

lemma owes_or_fail:
  "set_mset D \<subseteq> {CallDue} \<Longrightarrow> (\<And>a. res = Ok a \<Longrightarrow> owing b g D (k a)) \<Longrightarrow> owing b g D (or_fail res k)"
  by (cases res) (auto simp: or_fail_def intro: owes_Done)

section \<open>Forwarding under a permit\<close>

lemma sound_forwarded: "sound g s \<Longrightarrow> forwarded V (sh_router s) srv msg r \<Longrightarrow> sound g (s\<lparr>sh_router := r\<rparr>)"
  by (auto simp: sound_def forwarded_def)

lemma owes_release: "owing b g {#PermitHeld#} (release res)"
  unfolding release_def
  by (rule owes_Atom) (auto intro!: exI [of _ "{#}"] owes_Done simp: moved_def sound_def)

lemma owes_send:
  fixes g :: "'v router" and m :: "('v router, 'a) step"
  assumes "\<And>r res r'. m r = Some (res, r') \<Longrightarrow> forwarded V r srv msg r'"
    and "\<And>r. max_concurrent (proxy r) \<noteq> 0 \<Longrightarrow> m r \<noteq> None" "b \<Longrightarrow> max_concurrent (proxy g) \<noteq> 0"
  shows "owing b g {#CallDue, PermitHeld#} (send m)"
  unfolding send_def
proof (rule owes_Atom)
  fix s
  assume "sound g s"
    "(case m (sh_router s) of None \<Rightarrow> None
      | Some (res, r) \<Rightarrow> Some (release res :: ('v, 'a) task, s\<lparr>sh_router := r\<rparr>)) = None"
  then show "waits b s {#CallDue, PermitHeld#}"
    using assms(2) [of "sh_router s"] assms(3) by (auto simp: waits_def sound_def split: option.splits)
next
  fix s s' and t :: "('v, 'a) task"
  assume s: "sound g s" and
    "(case m (sh_router s) of None \<Rightarrow> None | Some (res, r) \<Rightarrow> Some (release res, s\<lparr>sh_router := r\<rparr>)) = Some (t, s')"
  then obtain res r where m: "m (sh_router s) = Some (res, r)" "t = release res" "s' = s\<lparr>sh_router := r\<rparr>"
    by (auto split: option.splits)
  have f: "forwarded V (sh_router s) srv msg r" using m(1) by (rule assms(1))
  have "moved s {#CallDue, PermitHeld#} s' {#PermitHeld#}"
    using f by (auto simp: moved_def m(3) forwarded_def line_count_def)
  then show "sound g s' \<and> (\<exists>D'. moved s {#CallDue, PermitHeld#} s' D' \<and> owing b g D' t)"
    using sound_forwarded [OF s f] owes_release m(2,3) by blast
qed

lemma owes_with_permit:
  assumes "owing b g {#CallDue, PermitHeld#} (send m)"
  shows "owing b g {#CallDue#} (with_permit m)"
  unfolding with_permit_def
  by (rule owes_Atom)
    (use assms in \<open>auto simp: waits_def moved_def sound_def split: if_splits
       intro!: exI [of _ "{#CallDue, PermitHeld#}"]\<close>)

section \<open>The books of a message\<close>

lemma line_count_published: "audit_producer r = Some (LoggingProducer lines) \<Longrightarrow>
    line_count (published V m e' sid res r) = Suc (line_count r) \<and>
    (\<exists>lines. audit_producer (published V m e' sid res r) = Some (LoggingProducer lines))"
  by (simp add: line_count_def published_def)

lemma owes_finish:
  fixes g :: "'v router"
  shows "owing b g {#CountDue, LineDue#} (finish_task V m e' sid res)"
proof -
  have P: "owing b g {#LineDue#} (publish_task V m e' sid res)"
    unfolding publish_task_def
  proof (rule owes_Atom)
    fix s s' and t :: "('v, message) task"
    assume s: "sound g s"
      and "Some (Done res, s\<lparr>sh_router := published V m e' sid res (sh_router s)\<rparr>) = Some (t, s')"
    then have t: "t = Done res" "s' = s\<lparr>sh_router := published V m e' sid res (sh_router s)\<rparr>" by auto
    obtain lines where "audit_producer (sh_router s) = Some (LoggingProducer lines)"
      using s by (auto simp: sound_def)
    from line_count_published [OF this, of V m e' sid res] s
    have "sound g s'" "moved s {#LineDue#} s' {#}"
      unfolding t(2) by (auto simp: sound_def moved_def published_def)
    then show "sound g s' \<and> (\<exists>D'. moved s {#LineDue#} s' D' \<and> owing b g D' t)"
      unfolding t(1) by (intro conjI exI [of _ "{#}"] owes_Done) simp_all
  qed simp
  show ?thesis
    unfolding finish_task_def
    by (rule owes_Atom)
      (use P in \<open>auto simp: moved_def sound_def recorded_def record_request_def line_count_def
         metric_names_distinct intro!: exI [of _ "{#LineDue#}"]\<close>)
qed

text \<open>What a task asks to be sure of an answer: a slot, and schemas that can be cut for the cache.\<close>

definition cuttable :: "'v env \<Rightarrow> 'v router \<Rightarrow> bool" where
  "cuttable V g \<longleftrightarrow> max_concurrent (proxy g) \<noteq> 0 \<and>
     (\<forall>q t. lookup (registry g) q = Some t \<longrightarrow> schema_key (env_codec V) (t_input_schema (rt_tool t)) \<noteq> None)"

lemma forward_stage_answers: "max_concurrent (proxy s) \<noteq> 0 \<Longrightarrow> forward_stage V i tool srv params s \<noteq> None"
  unfolding forward_stage_def by (intro bind_answers proxy_forward_answers) simp_all

lemma session_steps_answer: "session_check tool sid s \<noteq> None" "session_log V tool args sid s \<noteq> None"
  by (auto simp: session_check_def session_log_def split: option.splits result.splits access_check_result.splits)

lemma call_spare: "set_mset {#CallDue#} \<subseteq> {CallDue}"
  by simp

lemma owes_tools_call:
  assumes "b \<Longrightarrow> cuttable V g"
  shows "owing b g {#CallDue#} (tools_call_task V i params e sid)"
proof -
  let ?p = "call_params params"
  have slots: "max_concurrent (proxy g) \<noteq> 0" if b using assms that by (simp add: cuttable_def)
  show ?thesis
    unfolding tools_call_task_def Let_def
  proof (intro owes_or_fail owes_then owes_with_permit owes_send quiet_steps call_spare)
    fix tool s1 t r1 s
    assume "b" "sound g s1" "find_tool tool (sh_router s1) = Some (Ok t, r1)"
    then have "lookup (registry g) tool = Some t"
      using find_tool_quiet by (fastforce simp: sound_def dest: lookup_any_lookup)
    then show "schema_stage V t (call_arguments ?p) (sh_router s) \<noteq> None"
      using assms \<open>b\<close> by (intro schema_stage_answers) (simp add: cuttable_def)
  qed (auto simp: slots forward_stage_answers stages_answer session_steps_answer simp del: not_None_eq
      dest: forward_stage_cases(1))
qed

lemma owes_upstream:
  assumes "b \<Longrightarrow> cuttable V g"
  shows "owing b g {#CallDue#} (upstream_task V i method params)"
  unfolding upstream_task_def
  by (intro owes_then owes_with_permit owes_send quiet_steps call_spare)
    (use assms in \<open>auto simp: proxy_forward_answers default_server_def cuttable_def simp del: not_None_eq
      dest: proxy_forward_cases(1)\<close>)

lemma owes_answer: "owing b g {#CallDue#} (Done res)"
  by (intro owes_Done call_spare)

lemma owes_local:
  "quiet_step m \<Longrightarrow> (\<And>s. m s \<noteq> None) \<Longrightarrow> owing b g {#CallDue#} (then_do m (\<lambda>r. Done (Ok r)))"
  by (intro owes_then owes_answer call_spare)

lemma owes_core:
  assumes "b \<Longrightarrow> cuttable V g"
  shows "owing b g {#CallDue#} (core_task V m e sid)"
proof (cases m)
  case (Request i meth ps)
  have "owing b g {#CallDue#} (dispatch_task V i meth ps e sid)"
    unfolding dispatch_task_def
    using owes_tools_call [of b V g i ps e sid] owes_upstream [of b V g i meth ps] assms
    by (auto intro!: owes_answer owes_local quiet_steps stages_answer simp del: not_None_eq)
  then have "owing b g {#CallDue#} (request_task V i meth ps e sid)"
    unfolding request_task_def
    by (auto intro!: owes_answer owes_or_fail owes_then quiet_steps stages_answer simp del: not_None_eq)
  with Request show ?thesis by simp
qed (simp_all add: owes_answer)

lemma owes_message:
  assumes "b \<Longrightarrow> cuttable V g"
  shows "owing b g {#CountDue, LineDue, CallDue#} (message_task V m e sid)"
proof -
  have "owing b g ({#CallDue#} + {#CountDue, LineDue#}) (message_task V m e sid)"
    unfolding message_task_def by (rule owes_bind [OF owes_core [OF assms] owes_finish]) simp_all
  then show ?thesis by (simp add: ac_simps)
qed

section \<open>How long a message takes\<close>

lemma at_most_le: "at_most n t \<Longrightarrow> n \<le> m \<Longrightarrow> at_most m t"
  by (induction m) (auto simp: le_Suc_eq intro: at_most_Suc)

lemma at_most_then: "(\<And>a. at_most n (k a)) \<Longrightarrow> at_most (Suc n) (then_do m k)"
  unfolding then_do_def by (rule at_most_Atom) (auto split: option.splits result.splits intro: at_most_Done)

lemma at_most_or_fail: "(\<And>a. at_most n (k a)) \<Longrightarrow> at_most n (or_fail res k)"
  by (cases res) (simp_all add: or_fail_def at_most_Done)

lemma at_most_with_permit: "at_most (Suc (Suc (Suc n))) (with_permit m)"
  unfolding with_permit_def send_def release_def
  by (auto intro!: at_most.intros split: if_splits option.splits)

lemma at_most_core: "at_most 9 (core_task V m e sid)"
proof (cases m)
  case (Request i meth ps)
  have "at_most 8 (tools_call_task V i ps e sid)"
    unfolding tools_call_task_def Let_def numeral_nat One_nat_def by (intro at_most_or_fail at_most_then at_most_with_permit)
  moreover have "at_most 8 (upstream_task V i meth ps)"
    unfolding upstream_task_def numeral_nat One_nat_def by (intro at_most_then at_most_with_permit)
  moreover have "at_most 8 (then_do m (\<lambda>r. Done (Ok r)))" for m :: "('a router, message) step"
    unfolding numeral_nat One_nat_def by (intro at_most_then at_most_Done)
  ultimately have "at_most 8 (dispatch_task V i meth ps e sid)"
    unfolding dispatch_task_def by (auto intro: at_most_Done)
  from at_most_then [of 8 "\<lambda>_. dispatch_task V i meth ps e sid", OF this]
  have "at_most 9 (request_task V i meth ps e sid)"
    unfolding request_task_def by (auto intro!: at_most_or_fail at_most_Done)
  with Request show ?thesis by simp
qed (simp_all add: at_most_Done)

lemma at_most_message: "at_most 11 (message_task V m e sid)"
proof -
  have "at_most 2 (finish_task V (leaf m) e sid res)" for res
    unfolding finish_task_def publish_task_def numeral_nat One_nat_def by (auto intro!: at_most.intros)
  from at_most_bind [OF at_most_core this] show ?thesis by (simp add: message_task_def)
qed

section \<open>A started gateway\<close>

text \<open>Its pools: messages of any client, with the environments \<open>Vs\<close>, at any moment.\<close>

definition message_tasks :: "'v env set \<Rightarrow> scope_enforcer \<Rightarrow> ('v, message) task set" where
  "message_tasks Vs e = {message_task V m e sid | V m sid. V \<in> Vs}"

definition gateway_pool ::
  "'v env set \<Rightarrow> 'v gateway \<Rightarrow> 'v shared \<Rightarrow> ('v, message) task list \<Rightarrow> bool" where
  "gateway_pool Vs g s ts \<longleftrightarrow>
     (pool_step (message_tasks Vs (gw_enforcer g)))\<^sup>*\<^sup>* (all_free (gw_router g), []) (s, ts)"

lemma started_sound:
  assumes "assemble E h c = Ok g"
  shows "sound (gw_router g) (all_free (gw_router g))"
    "balanced (max_concurrent (proxy (gw_router g))) 0 (all_free (gw_router g)) {#}"
proof -
  obtain auth where "gw_router g = init_router h c auth" using assemble_Ok [OF assms] by metis
  then have "audit_producer (gw_router g) = Some (LoggingProducer [])" "metrics (gw_router g) = []"
      "sent (proxy (gw_router g)) = []"
    by (simp_all add: init_router_def with_full_config_def init_proxy_sent)
  then show "sound (gw_router g) (all_free (gw_router g))"
    "balanced (max_concurrent (proxy (gw_router g))) 0 (all_free (gw_router g)) {#}"
    by (simp_all add: sound_def all_free_def balanced_def line_count_def counted_def)
qed

lemma gateway_pool_kept:
  fixes g :: "'v gateway"
  assumes "assemble E h c = Ok g" "gateway_pool Vs g s ts" "b \<Longrightarrow> \<forall>V \<in> Vs. cuttable V (gw_router g)"
  shows "task_books.kept (gw_router g) b (max_concurrent (proxy (gw_router g))) (s, ts)"
proof (rule task_books.kept_pool [OF assms(2) [unfolded gateway_pool_def] started_sound [OF assms(1)]])
  fix t :: "('v, message) task"
  assume "t \<in> message_tasks Vs (gw_enforcer g)"
  then show "owing b (gw_router g) {#CountDue, LineDue, CallDue#} t"
    using assms(3) by (auto simp: message_tasks_def intro!: owes_message)
qed

lemma gateway_pool_books:
  assumes "assemble E h c = Ok g" "gateway_pool Vs g s ts"
  shows "sound (gw_router g) s"
    "\<exists>D. balanced (max_concurrent (proxy (gw_router g))) (length ts) s D"
    "list_all finished ts \<Longrightarrow>
      \<exists>D. set_mset D \<subseteq> {CallDue} \<and> balanced (max_concurrent (proxy (gw_router g))) (length ts) s D"
proof -
  have K: "task_books.kept (gw_router g) False (max_concurrent (proxy (gw_router g))) (s, ts)"
    by (rule gateway_pool_kept [OF assms]) simp
  then show "sound (gw_router g) s"
    "\<exists>D. balanced (max_concurrent (proxy (gw_router g))) (length ts) s D"
    by (auto simp: task_books.kept_def)
  show "list_all finished ts \<Longrightarrow>
      \<exists>D. set_mset D \<subseteq> {CallDue} \<and> balanced (max_concurrent (proxy (gw_router g))) (length ts) s D"
    by (rule task_books.kept_finished [OF K])
qed

lemma permit_somewhere: "count E PermitHeld = Suc n \<Longrightarrow> PermitHeld \<in># E"
  by (rule ccontr) (simp add: not_in_iff)

interpretation live_books: live_ledger "sound g" moved "{CallDue}" "waits True" "balanced (Suc slots)"
    "{#CountDue, LineDue, CallDue#}" PermitHeld
  for g :: "'v router" and slots
  by unfold_locales (auto simp: waits_def balanced_def dest: permit_somewhere)

section \<open>What a message may send\<close>

text \<open>What no access changes in a router that was \<open>g\<close>, and the calls it has made.\<close>

definition fixed :: "'v router \<Rightarrow> 'v shared \<Rightarrow> bool" where
  "fixed g s \<longleftrightarrow>
     registry (sh_router s) = registry g \<and> servers (proxy (sh_router s)) = servers (proxy g) \<and>
     authorizer (sh_router s) = authorizer g \<and> ecpa_guardrail (sh_router s) = ecpa_guardrail g"

abbreviation calls_made :: "'v shared \<Rightarrow> upstream_call list" where
  "calls_made s \<equiv> sent (proxy (sh_router s))"

text \<open>
  What a tool call has passed on its way to the server \<open>srv\<close>: its scope, the registry, the schema of the
  tool and the session lock, each in one of the states \<open>K\<close>, and the constraints of the guardrail.
\<close>

definition call_passed ::
  "'v router \<Rightarrow> scope_enforcer \<Rightarrow> 'v env \<Rightarrow> string option \<Rightarrow> 'v shared set \<Rightarrow> json \<Rightarrow> string \<Rightarrow> bool" where
  "call_passed g e V sid K params srv \<longleftrightarrow>
    (\<exists>tool t.
       jget params ''name'' = Some (JStr tool) \<and> check_tool_access e tool = Ok () \<and>
       lookup_any (registry g) tool = Ok (Some t) \<and> srv = server_id t \<and>
       (call_arguments params = JNull \<or>
        (\<exists>s \<in> K. \<exists>c. Schema.validate (env_codec V) (schema_engine V) (t_input_schema (rt_tool t))
           (call_arguments params) (schema_cache (sh_router s)) = Some (Ok (), c))) \<and>
       (case ecpa_guardrail g of
          None \<Rightarrow> True
        | Some ev \<Rightarrow> \<exists>r. ev tool (call_arguments params) = Ok r \<and> satisfied r) \<and>
       (\<exists>s \<in> K. \<not> session_denies (sh_router s) sid tool))"

text \<open>A message, with its environment and its session, that has been through the states \<open>K\<close> may make
  the call \<open>c\<close>.\<close>

type_synonym 'v job = "'v env \<times> message \<times> string option"

definition entitled ::
  "'v router \<Rightarrow> scope_enforcer \<Rightarrow> 'v job \<Rightarrow> 'v shared set \<Rightarrow> upstream_call \<Rightarrow> bool" where
  "entitled g e job K c \<longleftrightarrow>
    (case job of (V, m, sid) \<Rightarrow>
      \<exists>i method params srv.
        leaf m = Request i method params \<and> known_method method \<and> check_method e method = Ok () \<and>
        cedar_allows V g e method params \<and>
        (if method = METHOD_TOOLS_CALL
         then call_passed g e V sid K (call_params params) srv \<and>
           sends_to (proxy_env V) (proxy g) srv (Request i method (Some (call_params params))) c
         else default_server_id (server_order V) (proxy g) = Some srv \<and>
           sends_to (proxy_env V) (proxy g) srv (Request i method params) c))"

fun job_task :: "scope_enforcer \<Rightarrow> 'v job \<Rightarrow> ('v, message) task" where
  "job_task e (V, m, sid) = message_task V m e sid"

abbreviation lawful_task ::
  "'v router \<Rightarrow> ('v shared set \<Rightarrow> upstream_call \<Rightarrow> bool) \<Rightarrow> bool \<Rightarrow> 'v shared set \<Rightarrow> ('v, 'a) task \<Rightarrow> bool" where
  "lawful_task g \<equiv> lawful (fixed g) calls_made"

lemma entitled_mono: "entitled g e job K c \<Longrightarrow> K \<subseteq> K' \<Longrightarrow> entitled g e job K' c"
  unfolding entitled_def call_passed_def by (cases job) (auto split: if_splits, blast+)

lemma lawful_silent:
  assumes "\<And>s t s'. fixed g s \<Longrightarrow> f s = Some (t, s') \<Longrightarrow>
      fixed g s' \<and> calls_made s' = calls_made s \<and> lawful_task g P due (insert s K) t"
  shows "lawful_task g P due K (Atom f)"
  using assms by (intro lawful_Atom) blast

lemma lawful_then:
  assumes "quiet_step m"
    and "\<And>s a r'. fixed g s \<Longrightarrow> m (sh_router s) = Some (Ok a, r') \<Longrightarrow> lawful_task g P due (insert s K) (k a)"
  shows "lawful_task g P due K (then_do m k)"
  unfolding then_do_def
proof (rule lawful_silent)
  fix s t s'
  assume s: "fixed g s" and "(case m (sh_router s) of None \<Rightarrow> None
      | Some (Err x, r) \<Rightarrow> Some (Done (Err x), s\<lparr>sh_router := r\<rparr>)
      | Some (Ok a, r) \<Rightarrow> Some (k a, s\<lparr>sh_router := r\<rparr>)) = Some (t, s')"
  then obtain res r where m: "m (sh_router s) = Some (res, r)" "s' = s\<lparr>sh_router := r\<rparr>"
      "t = (case res of Err x \<Rightarrow> Done (Err x) | Ok a \<Rightarrow> k a)"
    by (auto split: option.splits result.splits)
  have "quiet (sh_router s) r" using quiet_stepD [OF assms(1) m(1)] .
  moreover have "lawful_task g P due (insert s K) t"
    using assms(2) [OF s] m(1,3) by (cases res) (auto intro: lawful_Done)
  ultimately show "fixed g s' \<and> calls_made s' = calls_made s \<and> lawful_task g P due (insert s K) t"
    using s by (simp add: m(2) fixed_def quiet_def)
qed

lemma lawful_or_fail:
  "(\<And>a. res = Ok a \<Longrightarrow> lawful_task g P due K (k a)) \<Longrightarrow> lawful_task g P due K (or_fail res k)"
  by (cases res) (auto simp: or_fail_def intro: lawful_Done)

lemma lawful_with_permit:
  fixes m :: "('v router, 'a) step"
  assumes "\<And>r res r'. m r = Some (res, r') \<Longrightarrow> forwarded V r srv msg r'"
    and "\<And>K' c. K \<subseteq> K' \<Longrightarrow> sends_to (proxy_env V) (proxy g) srv msg c \<Longrightarrow> P K' c"
  shows "lawful_task g P True K (with_permit m)"
proof -
  have R: "lawful_task g P due K' (release res)" for due K' and res :: "('a, mcp_error) result"
    unfolding release_def by (rule lawful_silent) (auto simp: fixed_def intro: lawful_Done)
  have "lawful_task g P True (insert s0 K) (send m)" for s0
    unfolding send_def
  proof (rule lawful_Atom)
    fix s s' and t :: "('v, 'a) task"
    assume s: "fixed g s" and
      "(case m (sh_router s) of None \<Rightarrow> None | Some (res, r) \<Rightarrow> Some (release res, s\<lparr>sh_router := r\<rparr>)) = Some (t, s')"
    then obtain res r where m: "m (sh_router s) = Some (res, r)" "t = release res" "s' = s\<lparr>sh_router := r\<rparr>"
      by (auto split: option.splits)
    have f: "forwarded V (sh_router s) srv msg r" using m(1) by (rule assms(1))
    have "P (insert s (insert s0 K)) c" if "sends_to (proxy_env V) (proxy (sh_router s)) srv msg c" for c
      using that s by (intro assms(2)) (auto simp: sends_to_def fixed_def)
    then show "fixed g s' \<and>
        (calls_made s' = calls_made s \<and> lawful_task g P True (insert s (insert s0 K)) t \<or>
         True \<and> (\<exists>c. calls_made s' = calls_made s @ [c] \<and> P (insert s (insert s0 K)) c) \<and>
           lawful_task g P False (insert s (insert s0 K)) t)"
      using f s R unfolding m(2,3) by (auto simp: forwarded_def fixed_def)
  qed
  then show ?thesis
    unfolding with_permit_def by (intro lawful_silent) (auto simp: fixed_def split: if_splits)
qed

lemma lawful_tools_call:
  assumes "leaf m = Request i METHOD_TOOLS_CALL params" "known_method METHOD_TOOLS_CALL"
    and "check_method e METHOD_TOOLS_CALL = Ok ()" "cedar_allows V g e METHOD_TOOLS_CALL params"
  shows "lawful_task g (entitled g e (V, m, sid)) True K (tools_call_task V i params e sid)"
  unfolding tools_call_task_def Let_def
proof (intro lawful_or_fail lawful_then lawful_with_permit quiet_steps)
  let ?p = "call_params params"
  fix tool u s1 t r1 s2 u2 r2 s3 u3 r3 s4 u4 r4 s5 u5 r5 K' c
  assume A: "ok_or NAME_REQUIRED (Option.bind (jget ?p ''name'') as_str) = Ok tool" "check_tool_access e tool = Ok u"
    "fixed g s1" "find_tool tool (sh_router s1) = Some (Ok t, r1)"
    "schema_stage V t (call_arguments ?p) (sh_router s2) = Some (Ok u2, r2)"
    "fixed g s3" "ecpa_stage tool (call_arguments ?p) (sh_router s3) = Some (Ok u3, r3)"
    "session_check tool sid (sh_router s4) = Some (Ok u4, r4)"
    "insert s5 (insert s4 (insert s3 (insert s2 (insert s1 K)))) \<subseteq> K'"
    "sends_to (proxy_env V) (proxy g) (server_id t) (Request i METHOD_TOOLS_CALL (Some ?p)) c"
  have "lookup_any (registry g) tool = Ok (Some t)"
    using find_tool_quiet [OF A(4)] A(3) by (simp add: fixed_def)
  moreover have "jget ?p ''name'' = Some (JStr tool)"
    using A(1) by (auto simp: ok_or_def bind_as_str split: option.splits)
  moreover have "call_arguments ?p = JNull \<or>
      (\<exists>s \<in> K'. \<exists>c. Schema.validate (env_codec V) (schema_engine V) (t_input_schema (rt_tool t))
         (call_arguments ?p) (schema_cache (sh_router s)) = Some (Ok (), c))"
    using schema_stage_quiet [OF A(5)] A(9) by auto
  moreover have "case ecpa_guardrail g of None \<Rightarrow> True
      | Some ev \<Rightarrow> \<exists>r. ev tool (call_arguments ?p) = Ok r \<and> satisfied r"
    using ecpa_stage_quiet [OF A(7)] A(6) by (simp add: fixed_def)
  moreover have "\<exists>s \<in> K'. \<not> session_denies (sh_router s) sid tool"
    using session_check_quiet [OF A(8)] A(9) by auto
  ultimately have "call_passed g e V sid K' ?p (server_id t)"
    using A(2) unfolding call_passed_def by auto
  then show "entitled g e (V, m, sid) K' c"
    using assms A(10) by (auto simp: entitled_def)
qed (auto dest: forward_stage_cases(1))

lemma lawful_upstream:
  assumes "leaf m = Request i method params" "known_method method" "check_method e method = Ok ()"
    and "cedar_allows V g e method params" "method \<noteq> METHOD_TOOLS_CALL"
  shows "lawful_task g (entitled g e (V, m, sid)) True K (upstream_task V i method params)"
  unfolding upstream_task_def
proof (intro lawful_then lawful_with_permit quiet_steps)
  fix s1 srv r1 K' c
  assume "fixed g s1" "default_server V (sh_router s1) = Some (Ok srv, r1)"
    and c: "sends_to (proxy_env V) (proxy g) srv (Request i method params) c"
  then have "default_server_id (server_order V) (proxy g) = Some srv"
    by (auto simp: default_server_def ok_or_def default_server_id_def fixed_def split: option.splits)
  then show "entitled g e (V, m, sid) K' c"
    using assms c by (auto simp: entitled_def)
qed (auto dest: proxy_forward_cases(1))

lemma lawful_local: "quiet_step m \<Longrightarrow> lawful_task g P due K (then_do m (\<lambda>r. Done (Ok r)))"
  by (intro lawful_then lawful_Done)

lemma lawful_core: "lawful_task g (entitled g e (V, m, sid)) True K (core_task V (leaf m) e sid)"
proof (cases "leaf m")
  case (Request i meth ps)
  have "lawful_task g (entitled g e (V, m, sid)) True K' (dispatch_task V i meth ps e sid)"
    if "known_method meth" "check_method e meth = Ok ()" "cedar_allows V g e meth ps" for K'
    unfolding dispatch_task_def
    using lawful_tools_call [of m i ps e V g sid K'] lawful_upstream [OF Request that] Request that
    by (auto intro!: lawful_Done lawful_local quiet_steps)
  then have "lawful_task g (entitled g e (V, m, sid)) True K (request_task V i meth ps e sid)"
    unfolding request_task_def
    by (auto intro!: lawful_Done lawful_or_fail lawful_then quiet_steps
        dest!: cedar_stage_quiet simp: fixed_def cedar_allows_def)
  with Request show ?thesis by simp
qed (simp_all add: lawful_Done)

lemma lawful_finish: "lawful_task g P due K (finish_task V m e sid res)"
  unfolding finish_task_def publish_task_def
  by (intro lawful_silent) (auto simp: fixed_def recorded_def published_def intro!: lawful_silent lawful_Done)

lemma lawful_message: "lawful_task g (entitled g e job) True {} (job_task e job)"
proof -
  obtain V m sid where "job = (V, m, sid)" by (cases job)
  then show ?thesis
    using lawful_bind [OF lawful_core lawful_finish] by (simp add: message_task_def)
qed

interpretation task_calls: lawful_jobs "fixed g" calls_made "entitled g e" "job_task e"
  for g :: "'v router" and e
  by unfold_locales (rule entitled_mono, assumption+, rule lawful_message)

text \<open>The runs of a router: its states, the messages with the state they arrived in, and their tasks.\<close>

definition router_run ::
  "'v router \<Rightarrow> scope_enforcer \<Rightarrow> 'v shared list \<Rightarrow> ('v job \<times> nat) list \<Rightarrow> ('v, message) task list \<Rightarrow> bool" where
  "router_run g e = pool_run (all_free g) (job_task e)"

text \<open>Every pool of a started gateway is at the end of such a run.\<close>

lemma gateway_pool_runs:
  assumes "gateway_pool Vs g s ts"
  shows "\<exists>ss ms. router_run (gw_router g) (gw_enforcer g) ss ms ts \<and> last ss = s"
proof -
  have "message_tasks Vs (gw_enforcer g) \<subseteq> range (job_task (gw_enforcer g))"
    by (auto simp: message_tasks_def) (metis job_task.simps rangeI)
  from pool_step_run [OF assms [unfolded gateway_pool_def] this] show ?thesis
    by (simp add: router_run_def)
qed

section \<open>Properties\<close>

text \<open>C3: However the messages of a gateway interleave, each call it makes to an upstream belongs to
  a message of its own that has arrived: a request whose method is known, which the enforcer allows and
  the policy permits in the terms of that message. The call carries that very request to a registered
  upstream. A tool call goes to the server that registered its tool, within the scopes of the client,
  with arguments that satisfied the tool's schema and the session lock in states between the arrival of
  the message and the call, and that satisfy the constraints of the guardrail; any other request goes to
  the default upstream unchanged.\<close>

theorem interleaved_gateway_sends_authorised:
  assumes "router_run g e ss ms ts" "sent (proxy g) = []"
  shows "\<exists>owner. distinct owner \<and> length owner = length (calls_made (last ss)) \<and>
     (\<forall>j < length owner. owner ! j < length ms \<and>
        entitled g e (fst (ms ! (owner ! j))) {s \<in> set (drop (snd (ms ! (owner ! j))) ss). length (calls_made s) \<le> j}
          (calls_made (last ss) ! j))"
  using task_calls.every_call_owned [OF assms(1) [unfolded router_run_def], of g] assms(2)
  by (simp add: fixed_def)

text \<open>C4: However the messages of a started gateway interleave, it has never made more upstream calls,
  counted more requests or written more lines than messages have arrived, nor handed out more permits
  than the proxy has slots; and whenever no message is under way, there is exactly one counted request
  and one line of the audit log for each, and every permit has been given back. No message changes
  the registry, the upstreams or the policy.\<close>

theorem interleaved_gateway_accounts:
  assumes "assemble E h c = Ok g" "gateway_pool Vs g s ts"
  shows "(\<exists>lines. audit_producer (sh_router s) = Some (LoggingProducer lines) \<and> length lines \<le> length ts \<and>
            (list_all finished ts \<longrightarrow> length lines = length ts)) \<and>
         counted REQUESTS_TOTAL (metrics (sh_router s)) \<le> length ts \<and>
         (list_all finished ts \<longrightarrow> counted REQUESTS_TOTAL (metrics (sh_router s)) = length ts) \<and>
         length (sent (proxy (sh_router s))) \<le> length ts \<and>
         permits s \<le> max_concurrent (proxy (gw_router g)) \<and>
         (list_all finished ts \<longrightarrow> permits s = max_concurrent (proxy (gw_router g))) \<and>
         registry (sh_router s) = registry (gw_router g) \<and>
         servers (proxy (sh_router s)) = servers (proxy (gw_router g)) \<and>
         authorizer (sh_router s) = authorizer (gw_router g)"
proof -
  note S = gateway_pool_books(1) [OF assms]
  then obtain lines where l: "audit_producer (sh_router s) = Some (LoggingProducer lines)"
    by (auto simp: sound_def)
  then have n: "line_count (sh_router s) = length lines" by (simp add: line_count_def)
  obtain D where D: "balanced (max_concurrent (proxy (gw_router g))) (length ts) s D"
    using gateway_pool_books(2) [OF assms] by blast
  have F: "counted REQUESTS_TOTAL (metrics (sh_router s)) = length ts \<and> length lines = length ts \<and>
      permits s = max_concurrent (proxy (gw_router g))" if fin: "list_all finished ts"
  proof -
    obtain E where E: "set_mset E \<subseteq> {CallDue}" "balanced (max_concurrent (proxy (gw_router g))) (length ts) s E"
      using gateway_pool_books(3) [OF assms fin] by blast
    then have "CountDue \<notin># E" "LineDue \<notin># E" "PermitHeld \<notin># E" by auto
    then show ?thesis using E(2) by (simp add: balanced_def n not_in_iff)
  qed
  have B: "counted REQUESTS_TOTAL (metrics (sh_router s)) \<le> length ts" "length lines \<le> length ts"
      "length (sent (proxy (sh_router s))) \<le> length ts" "permits s \<le> max_concurrent (proxy (gw_router g))"
    using D by (simp_all add: balanced_def n)
  show ?thesis
    using S F B l unfolding sound_def by blast
qed

text \<open>C6: No message of a started gateway is left without an answer, however they interleave: at any
  moment, either all messages that have arrived are answered or one of them can go on, and together
  they go on at most eleven times for each message. This needs a slot in the proxy, and schemas
  whose text can be cut for the cache.\<close>

theorem interleaved_gateway_answers:
  assumes "assemble E h c = Ok g" "gateway_pool Vs g s ts" "\<forall>V \<in> Vs. cuttable V (gw_router g)"
    and "Vs \<noteq> {}" "(advance ^^ k) (s, ts) (s', ts')"
  shows "k \<le> 11 * length ts \<and> length ts' = length ts \<and>
         (list_all finished ts' \<or> (\<exists>q. advance (s', ts') q))"
proof -
  let ?A = "message_tasks Vs (gw_enforcer g)" and ?n = "max_concurrent (proxy (gw_router g))"
  have pool: "gateway_pool Vs g s' ts'"
    using assms(2,5) unfolding gateway_pool_def
    by (meson pool_advances relpowp_imp_rtranclp rtranclp_trans)
  have "?n \<noteq> 0" using assms(3,4) by (auto simp: cuttable_def)
  then obtain m where "?n = Suc m" by (meson not0_implies_Suc)
  then have "task_books.kept (gw_router g) True (Suc m) (s', ts')"
    using gateway_pool_kept [OF assms(1) pool, of True] assms(3) by simp
  then have "list_all finished ts' \<or> (\<exists>q. advance (s', ts') q)"
    using live_books.not_stuck by blast
  moreover have "at_most 11 t" if "t \<in> ?A" for t
    using that at_most_message by (auto simp: message_tasks_def)
  then have "k \<le> 11 * length ts"
    using pool_bounded [OF assms(2) [unfolded gateway_pool_def] _ assms(5)] by blast
  moreover have "length ts' = length ts"
    using advances_length [OF assms(5)] by simp
  ultimately show ?thesis by blast
qed

text \<open>The server of \<open>run_http_server\<close>, in which a message is routed in one step, is one way for the
  pool to run: whatever the transports do, the router they share is one that the pool can reach with
  every message answered and every permit free.\<close>

lemma server_runs_are_pool_runs:
  assumes "(serve N)\<^sup>*\<^sup>* (run_http_server (gw_router g) (gw_enforcer g) c) s"
  shows "\<exists>ts. gateway_pool UNIV g \<lparr>sh_router = the_router s, permits = max_concurrent (proxy (the_router s))\<rparr> ts \<and>
           list_all finished ts"
  unfolding all_free_def [symmetric]
proof -
  have "agreed (gw_enforcer g) s \<and> (\<exists>ts. gateway_pool UNIV g (all_free (the_router s)) ts \<and> list_all finished ts)"
    using assms
  proof (induction rule: rtranclp_induct)
    case base
    have "gateway_pool UNIV g (all_free (gw_router g)) []" by (simp add: gateway_pool_def)
    then show ?case
      by (intro conjI run_http_server_agreed exI [of _ "[]"]) (simp_all add: run_http_server_def http_new_def)
  next
    case (step s s')
    then obtain ts where ts: "gateway_pool UNIV g (all_free (the_router s)) ts" "list_all finished ts"
      and a: "agreed (gw_enforcer g) s'" and h: "handles (gw_enforcer g) (the_router s) (the_router s')"
      using serve_handles [OF step(2)] by blast
    show ?case
    proof (cases "the_router s' = the_router s")
      case True
      then show ?thesis using ts a by auto
    next
      case False
      then obtain V m sid res where "handle_message V m (gw_enforcer g) sid (the_router s) = Some (res, the_router s')"
        using h by (auto simp: handles_def)
      then have "run_alone (message_task V m (gw_enforcer g) sid) (all_free (the_router s)) =
          Some (res, all_free (the_router s'))"
        using message_task_runs [of V m "gw_enforcer g" sid] by (simp add: runs_as_def)
      then have "gateway_pool UNIV g (all_free (the_router s')) (ts @ [Done res])"
        using ts(1) pool_alone [where A = "message_tasks UNIV (gw_enforcer g)"] unfolding gateway_pool_def message_tasks_def
        by (metis (mono_tags, lifting) UNIV_I mem_Collect_eq rtranclp_trans)
      then show ?thesis using ts(2) a by (intro conjI exI [of _ "ts @ [Done res]"]) simp_all
    qed
  qed
  then show "\<exists>ts. gateway_pool UNIV g (all_free (the_router s)) ts \<and> list_all finished ts" by blast
qed

section \<open>A run\<close>

text \<open>The default gateway with one message under way that goes to the default upstream.\<close>

lemma resources_pool:
  fixes g :: "string gateway"
  assumes "assemble sample_cedar sample_host config_default = Ok g"
  shows "\<exists>s res. gateway_pool {sample_env} g s [Done res] \<and> sent (proxy (sh_router s)) = [EchoCall resources_request]"
proof -
  have r: "gw_router g = init_router sample_host config_default None" "gw_enforcer g = enforcer_permissive"
    using default_policy_off by (rule_tac [!] assemble_Ok [OF assms]) (simp_all add: init_authorizer_def)
  obtain res s' where h: "handle_message sample_env resources_request enforcer_permissive None (gw_router g) = Some (res, s')"
    and c: "sent (proxy s') = [EchoCall resources_request]"
    using resources_forwarded r(1) by metis
  have "run_alone (message_task sample_env resources_request enforcer_permissive None) (all_free (gw_router g)) =
      Some (res, all_free s')"
    using message_task_runs [of sample_env resources_request enforcer_permissive None] h by (simp add: runs_as_def)
  from pool_alone [OF _ this, of "message_tasks {sample_env} enforcer_permissive" "[]"]
  have "gateway_pool {sample_env} g (all_free s') [Done res]"
    by (auto simp: gateway_pool_def r(2) message_tasks_def)
  then show ?thesis using c by (intro exI [of _ "all_free s'"] exI [of _ res]) simp
qed

lemma single_job_entitled:
  assumes "distinct owner \<and> length owner = length calls \<and>
     (\<forall>j < length owner. owner ! j < length [(job, 0::nat)] \<and>
        entitled g e (fst ([(job, 0::nat)] ! (owner ! j))) (K (snd ([(job, 0)] ! (owner ! j))) j) (calls ! j))"
    and "calls = [c]"
  shows "entitled g e job (K 0 0) c"
proof -
  have "0 < length owner" using assms by simp
  then have "owner ! 0 = 0" using assms(1) by fastforce
  then show ?thesis using assms by auto
qed

lemma interleaved_gateway_sends_authorised_witness:
  "\<exists>(g :: string router) ss ms ts K. g = init_router sample_host config_default None \<and>
     router_run g enforcer_permissive ss ms ts \<and> calls_made (last ss) = [EchoCall resources_request] \<and>
     entitled g enforcer_permissive (sample_env, resources_request, None) K (EchoCall resources_request)"
proof -
  obtain g :: "string router" where g: "g = init_router sample_host config_default None" by blast
  let ?e = enforcer_permissive and ?job = "(sample_env, resources_request, None :: string option)"
  obtain res s' where h: "handle_message sample_env resources_request ?e None g = Some (res, s')"
    and c: "sent (proxy s') = [EchoCall resources_request]"
    using resources_forwarded g by metis
  have "run_alone (job_task ?e ?job) (all_free g) = Some (res, all_free s')"
    using message_task_runs [of sample_env resources_request ?e None] h by (simp add: runs_as_def)
  from run_arrives_alone [where T = "job_task ?e" and m = ?job, OF this]
  obtain ss where ss: "router_run g ?e ss [(?job, 0)] [Done res]" "last ss = all_free s'"
    unfolding router_run_def by blast
  have "sent (proxy g) = []" by (simp add: g default_router with_full_config_def register_server_def proxy_new_def)
  from interleaved_gateway_sends_authorised [OF ss(1) this] obtain owner where
    "distinct owner \<and> length owner = length (calls_made (last ss)) \<and>
      (\<forall>j < length owner. owner ! j < length [(?job, 0::nat)] \<and>
        entitled g ?e (fst ([(?job, 0::nat)] ! (owner ! j)))
          {s \<in> set (drop (snd ([(?job, 0)] ! (owner ! j))) ss). length (calls_made s) \<le> j}
          (calls_made (last ss) ! j))"
    by (elim exE) (rule that)
  from single_job_entitled [where K = "\<lambda>k j. {s \<in> set (drop k ss). length (calls_made s) \<le> j}", OF this,
      of "EchoCall resources_request"]
  have "entitled g ?e ?job {s \<in> set (drop 0 ss). length (calls_made s) \<le> 0} (EchoCall resources_request)"
    by (simp add: ss(2) c)
  moreover have "calls_made (last ss) = [EchoCall resources_request]" using ss(2) c by simp
  ultimately show ?thesis using ss(1) g by blast
qed

lemma interleaved_gateway_accounts_witness:
  "\<exists>(g :: string gateway) s ts. assemble sample_cedar sample_host config_default = Ok g \<and>
     gateway_pool {sample_env} g s ts \<and> counted REQUESTS_TOTAL (metrics (sh_router s)) = 1 \<and>
     length (sent (proxy (sh_router s))) = 1"
proof -
  obtain g :: "string gateway" where g: "assemble sample_cedar sample_host config_default = Ok g"
    using sample_gateway [OF default_policy_off] by blast
  obtain s res where s: "gateway_pool {sample_env} g s [Done res]" "sent (proxy (sh_router s)) = [EchoCall resources_request]"
    using resources_pool [OF g] by blast
  have "counted REQUESTS_TOTAL (metrics (sh_router s)) = 1"
    using interleaved_gateway_accounts [OF g s(1)] by simp
  then show ?thesis
    using g s by (intro exI [of _ g] exI [of _ s] exI [of _ "[Done res]"]) simp
qed

lemma default_cuttable: "cuttable sample_env (init_router sample_host config_default None)"
proof -
  let ?s = "init_router sample_host config_default None :: string router"
  have "list_all (\<lambda>t. schema_key (env_codec sample_env) (t_input_schema t) \<noteq> None) echo_server_tools"
    by code_simp
  moreover have "rt_tool t \<in> set echo_server_tools" if "lookup (registry ?s) q = Some t" for q t
    using register_all_lookup [of "''echo''" "\<lambda>_. 0" echo_server_tools registry_new q t] that
    by (simp add: default_router with_full_config_def lookup_def registry_new_def)
  moreover have "max_concurrent (proxy ?s) \<noteq> 0"
    by (simp add: default_router with_full_config_def register_server_def proxy_new_def)
  ultimately show ?thesis by (simp add: cuttable_def list_all_iff del: not_None_eq)
qed

lemma interleaved_gateway_answers_witness:
  "\<exists>(g :: string gateway) s ts. assemble sample_cedar sample_host config_default = Ok g \<and>
     gateway_pool {sample_env} g s ts \<and> length ts = 1 \<and> (list_all finished ts \<or> (\<exists>q. advance (s, ts) q))"
proof -
  obtain g :: "string gateway" where g: "assemble sample_cedar sample_host config_default = Ok g"
    using sample_gateway [OF default_policy_off] by blast
  obtain s res where s: "gateway_pool {sample_env} g s [Done res]"
    using resources_pool [OF g] by blast
  have r: "gw_router g = init_router sample_host config_default None"
    using default_policy_off by (rule_tac assemble_Ok [OF g]) (simp add: init_authorizer_def)
  have "cuttable sample_env (gw_router g)" unfolding r by (rule default_cuttable)
  then have "\<forall>V \<in> {sample_env}. cuttable V (gw_router g)" by simp
  from interleaved_gateway_answers [OF g s this, of 0 s "[Done res]"]
  show ?thesis using g s by (intro exI [of _ g] exI [of _ s] exI [of _ "[Done res]"]) simp
qed

end
