(* ===== verification/Rate_Bound.thy ===== *)
theory Rate_Bound
  imports Rate_Limiter
begin

text \<open>
  The upper bound of the rate limiter: what a rule can admit between two instants. The tokens of a
  bucket are the potential of the argument: a check that admits takes one, a refill adds what the
  rule grants for the time elapsed, and rounding adds a \<open>drift\<close> that is estimated from \<open>Float64\<close>.
\<close>

section \<open>What a rule grants\<close>

definition exact_secs :: "nat \<Rightarrow> rat" where
  "exact_secs d = of_nat d / 10 ^ 9"

text \<open>Every \<open>Duration\<close> is shorter.\<close>

definition DURATION_MAX :: nat where "DURATION_MAX = 2 ^ 64 * 10 ^ 9"

lemma exact_secs_bounds: "0 \<le> exact_secs d" "d < DURATION_MAX \<Longrightarrow> exact_secs d < 2 ^ 64"
proof -
  assume "d < DURATION_MAX"
  then have "rat_of_nat d < of_nat (2 ^ 64 * 10 ^ 9)" by (simp only: of_nat_less_iff DURATION_MAX_def)
  then show "exact_secs d < 2 ^ 64" by (simp add: exact_secs_def)
qed (simp add: exact_secs_def)

lemma secs_near:
  assumes "d < DURATION_MAX"
  shows "near (- 30) (exact_secs d * excess ^ 2) (secs_f64 d)"
proof -
  let ?n = "d div 10 ^ 9" and ?m = "d mod 10 ^ 9"
  have "?n < 2 ^ 64" using assms by (simp add: DURATION_MAX_def less_mult_imp_div_less)
  then have n: "near (- 30) (of_nat ?n * excess) (f64_of_nat ?n)" by (intro near_mono [OF near_nat]) simp_all
  have "?m < 10 ^ 9" by simp
  then have "?m \<le> 2 ^ 53" by simp
  have "near 0 (of_nat ?m) (f64_of_nat ?m)"
    unfolding f64_of_nat_small [OF \<open>?m \<le> 2 ^ 53\<close>] by (cases ?m) (simp_all add: near_def pow2_def)
  then have m: "near (0 - int 30) (of_nat ?m / of_nat (10 ^ 9) * excess) (f64_div (f64_of_nat ?m) (f64_of_nat (10 ^ 9)))"
  proof (rule near_div_nat)
    have "rat_of_nat ?m \<le> of_nat (10 ^ 9)" using \<open>?m < 10 ^ 9\<close> by (simp only: of_nat_le_iff)
    then have "rat_of_nat ?m / of_nat (10 ^ 9) * excess \<le> 1 * 2" by (intro mult_mono) (simp_all add: pow2_def)
    then show "rat_of_nat ?m / of_nat (10 ^ 9) * excess < pow2 1024"
      by (intro pow2_le_1024 [of _ 1]) (simp_all add: pow2_def)
  qed simp_all
  have "rat_of_nat (?n * 10 ^ 9 + ?m) = of_nat ?n * 10 ^ 9 + of_nat ?m"
    by (simp only: of_nat_add of_nat_mult of_nat_power of_nat_numeral)
  then have "of_nat d = rat_of_nat ?n * 10 ^ 9 + of_nat ?m" by (simp only: div_mult_mod_eq)
  moreover have "(N * 10 ^ 9 + M) / 10 ^ 9 * e ^ 2 = (N * e + M / 10 ^ 9 * e) * e" for N M e :: rat
    by (simp add: field_simps power2_eq_square)
  ultimately have eq: "exact_secs d * excess ^ 2 = (of_nat ?n * excess + of_nat ?m / of_nat (10 ^ 9) * excess) * excess"
    by (simp only: exact_secs_def of_nat_power of_nat_numeral)
  have "exact_secs d * excess ^ 2 \<le> 2 ^ 64 * 2 ^ 2"
    using exact_secs_bounds [of d] assms excess_bounds(2) [of 2] by (intro mult_mono) simp_all
  then have "exact_secs d * excess ^ 2 < pow2 1024" by (intro pow2_le_1024 [of _ 66]) (simp_all add: pow2_def)
  then show ?thesis
    unfolding secs_f64_def eq using n m by (intro near_add) simp_all
qed

definition exact_rate :: "rate_limit_rule \<Rightarrow> rat" where
  "exact_rate r = of_nat (unat (requests_per_window r)) / of_nat (unat (window_seconds r))"

lemma rate_near:
  assumes "window_seconds r \<noteq> 0"
  shows "near (- 32) (exact_rate r * excess ^ 2) (refill_rate (rule_bucket t r))"
    and "0 \<le> exact_rate r" "exact_rate r \<le> 2 ^ 64"
proof -
  obtain n m where n: "unat (window_seconds r) = n" and m: "unat (requests_per_window r) = m" by simp
  have "unat (window_seconds r) < 2 ^ 32" using unsigned_less [of "window_seconds r"] by simp
  then have n32: "n < 2 ^ 32" by (simp only: n)
  have n0: "0 < n" using assms(1) n unat_0_iff by auto
  have "unat (requests_per_window r) < 2 ^ 64" using unsigned_less [of "requests_per_window r"] by simp
  then have m64: "m < 2 ^ 64" by (simp only: m)
  have rate: "exact_rate r = of_nat m / of_nat n" by (simp only: exact_rate_def n m)
  have "rat_of_nat m \<le> of_nat (2 ^ 64)" using m64 by (simp only: of_nat_le_iff)
  then have "rat_of_nat m / of_nat n \<le> 2 ^ 64 / 1" using n0 by (intro frac_le) simp_all
  then show le: "exact_rate r \<le> 2 ^ 64" and "0 \<le> exact_rate r" by (simp_all add: rate)
  have "exact_rate r * excess ^ 2 \<le> 2 ^ 64 * 2 ^ 2"
    using le excess_bounds(2) [of 2] by (intro mult_mono) simp_all
  then have "of_nat m * excess / of_nat n * excess < pow2 1024"
    by (intro pow2_le_1024 [of _ 66]) (simp_all add: pow2_def rate power2_eq_square mult.commute)
  from near_div_nat [OF near_nat [OF m64] n0 _ _ _ this, of 32] n32
  show "near (- 32) (exact_rate r * excess ^ 2) (refill_rate (rule_bucket t r))"
    by (simp add: rule_bucket_def bucket_new_def u64_f64_def n m rate power2_eq_square ac_simps)
qed

text \<open>What the rule lets pass in a number of nanoseconds, exactly.\<close>

definition gain :: "rate_limit_rule \<Rightarrow> nat \<Rightarrow> rat" where
  "gain r d = exact_rate r * exact_secs d"

definition capacity_of :: "rate_limit_rule \<Rightarrow> rat" where
  "capacity_of r = of_nat (unat (rule_capacity r))"

definition made_for :: "rate_limit_rule \<Rightarrow> token_bucket \<Rightarrow> bool" where
  "made_for r b \<longleftrightarrow>
     bucket_inv b \<and> refill_rate b = refill_rate (rule_bucket 0 r) \<and> capacity b = rule_capacity r"

lemma rule_bucket_made: "made_for r (rule_bucket t r)"
  unfolding made_for_def
  by (intro conjI rule_bucket_inv) (simp_all add: rule_bucket_def bucket_new_def rule_capacity_def)

text \<open>What rounding can add to a bucket of the rule in one operation.\<close>

definition drift :: "rate_limit_rule \<Rightarrow> rat" where
  "drift r = capacity_of r * excess * pow2 (- 53)"

lemma gain_add: "gain r a + gain r b = gain r (a + b)"
  by (simp add: gain_def exact_secs_def field_simps)

section \<open>One operation\<close>

lemma tokens_bound:
  assumes "made_for r b" "tokens b = Fin x"
  shows "0 \<le> x" "is_double x" "x \<le> capacity_of r * excess" "x < pow2 1024"
proof -
  have c: "u64_f64 (capacity b) = f64_of_nat (unat (rule_capacity r))"
    using assms(1) by (simp add: made_for_def u64_f64_def)
  have "unat (rule_capacity r) < 2 ^ 64" using unsigned_less [of "rule_capacity r"] by simp
  from near_nat [OF this] show "x \<le> capacity_of r * excess"
    using assms by (auto simp: made_for_def bucket_inv_def c near_def capacity_of_def)
  show "0 \<le> x" "is_double x" "x < pow2 1024"
    using assms by (auto simp: made_for_def bucket_inv_def nonneg_double_def)
qed

lemma refill_gain:
  assumes "window_seconds r \<noteq> 0" "made_for r b" "tokens b = Fin x" "now - last_refill b < DURATION_MAX"
  obtains y where "tokens (refill now b) = Fin y" "made_for r (refill now b)"
    "y \<le> x + gain r (now - last_refill b) * excess ^ 6 + drift r" "y \<le> capacity_of r * excess"
proof -
  let ?d = "now - last_refill b"
  let ?p = "secs_f64 ?d * refill_rate b"
  note bounds = rate_near(2,3) [OF assms(1)] exact_secs_bounds [of ?d]
  have g: "0 \<le> gain r ?d" using bounds(1,3) by (simp add: gain_def)
  have g': "gain r ?d \<le> 2 ^ 64 * 2 ^ 64"
    unfolding gain_def using bounds(2,3) less_imp_le [OF bounds(4) [OF assms(4)]] by (intro mult_mono) simp_all
  have rate: "near (- 32) (exact_rate r * excess ^ 2) (refill_rate b)"
    using rate_near(1) [OF assms(1), of 0] assms(2) by (simp add: made_for_def)
  have eq: "exact_secs ?d * excess ^ 2 * (exact_rate r * excess ^ 2) * excess = gain r ?d * excess ^ 5"
    by (simp add: gain_def power_numeral_reduce ac_simps)
  have "gain r ?d * excess ^ 5 \<le> 2 ^ 128 * 2 ^ 5"
    using g g' excess_bounds(2) [of 5] by (intro mult_mono) simp_all
  then have big: "gain r ?d * excess ^ 5 \<le> pow2 133" by (simp add: pow2_def)
  have "near (- 30 + - 32) (gain r ?d * excess ^ 5) ?p"
    unfolding eq [symmetric]
    by (rule near_mult [OF secs_near [OF assms(4)] rate]) (simp_all add: eq pow2_le_1024 [OF big])
  then obtain z where z: "?p = Fin z" "z = 0 \<or> pow2 (- 62) \<le> z" "z \<le> gain r ?d * excess ^ 5"
    by (auto simp: near_def)
  note x = tokens_bound [OF assms(2,3)]
  have z0: "0 \<le> z" using z(2) pow2_nonneg [of "- 62"] by (auto simp del: pow2_nonneg)
  have up: "rnd (x + z) \<le> x + z * excess + x * pow2 (- 53)"
  proof (cases "z = 0")
    case True
    then show ?thesis using x(1,2) by (simp add: is_double_def)
  next
    case False
    have "pow2 (- 1022) \<le> pow2 (- 62)" by (simp only: pow2_le_iff)
    then have "pow2 (- 1022) \<le> x + z" using False z(2) x(1) by linarith
    then show ?thesis using rnd_upper [of "x + z"] by (simp add: field_simps)
  qed
  have inv: "made_for r (refill now b)"
    using assms(2) refill_inv [of b now] by (simp add: made_for_def refill_def)
  then obtain y where y: "tokens (refill now b) = Fin y" 
    by (auto simp: made_for_def bucket_inv_def nonneg_double_def)
  note yb = tokens_bound [OF inv y]
  have "y \<le> rnd (x + z)"
  proof -
    obtain c where c: "u64_f64 (capacity b) = Fin c" "c < pow2 1024"
      using u64_f64_double [of "capacity b"] by (auto simp: nonneg_double_def)
    have "0 \<le> rnd (x + z)" using x(1) z0 by (simp add: rnd_nonneg)
    then show ?thesis
      using y c pow2_pos [of 1024]
      by (auto simp: refill_def assms(3) z(1) plus_f64_def f64_min_def to_f64_def Let_def
          simp del: pow2_pos split: if_splits)
  qed
  moreover have "z * excess \<le> gain r ?d * excess ^ 6"
    using mult_right_mono [OF z(3), of excess] by (simp add: power_numeral_reduce ac_simps add_nonneg_nonneg)
  moreover have "x * pow2 (- 53) \<le> drift r"
    unfolding drift_def using x(3) by (intro mult_right_mono) simp_all
  ultimately have "y \<le> x + gain r ?d * excess ^ 6 + drift r" using up by linarith
  with that [OF y inv] yb(3) show ?thesis by blast
qed

lemma consume_one:
  assumes "made_for r b" "tokens b = Fin x" "1 \<le> x" "b' = b\<lparr>tokens := tokens b - 1\<rparr>"
  obtains y where "tokens b' = Fin y" "made_for r b'" "y + 1 \<le> x + drift r"
proof -
  note x = tokens_bound [OF assms(1,2)]
  have one: "nonneg_double 1" by (rule one_nonneg)
  have "(1 :: f64) \<le> tokens b" by (simp add: assms(2,3) one_f64_def)
  then have inv: "made_for r b'"
    using assms(1,4) nonneg_minus [of "tokens b" 1] one
    by (auto simp: made_for_def bucket_inv_def intro: f64_le_trans)
  then obtain y where y: "tokens b' = Fin y" by (auto simp: made_for_def bucket_inv_def nonneg_double_def)
  then have "y = rnd (x - 1)"
    by (simp add: assms(2,4) minus_f64_def one_f64_def to_f64_def Let_def split: if_splits)
  have "ilog2 1 \<le> ilog2 x" using assms(3) by (intro ilog2_mono) simp_all
  moreover have "ilog2 1 = 0" by (rule ilog2_unique) (simp_all add: pow2_def)
  ultimately have "- 52 \<le> ulp_exp x" using x(1) by (simp add: ulp_exp_def)
  from coarser_grid [OF x(2) this] obtain m where m: "x = of_int m * pow2 (- 52)" by blast
  have "x - 1 = of_int (m - 2 ^ 52) * pow2 (- 52)" by (simp add: m pow2_def field_simps)
  moreover have "of_int k * pow2 (- 52) = 0 \<or> pow2 (- 52) \<le> of_int k * pow2 (- 52)"
    if "0 \<le> of_int k * pow2 (- 52)" for k
    using that by (cases "k = 0") (auto simp: pow2_def zero_le_mult_iff field_simps)
  ultimately have "x - 1 = 0 \<or> pow2 (- 52) \<le> x - 1" using assms(3) by (metis diff_ge_0_iff_ge)
  moreover have "pow2 (- 1022) \<le> pow2 (- 52)" by (simp only: pow2_le_iff)
  ultimately have "rnd (x - 1) \<le> (x - 1) * excess" by (intro rnd_upper) linarith
  also have "\<dots> = x - 1 + (x - 1) * pow2 (- 53)" by (simp add: field_simps)
  also have "(x - 1) * pow2 (- 53) \<le> drift r"
    unfolding drift_def using x(3) by (intro mult_right_mono) simp_all
  finally have "y + 1 \<le> x + drift r" using \<open>y = rnd (x - 1)\<close> by linarith
  with that [OF y inv] show ?thesis by blast
qed

lemma capacity_nonneg [simp]: "0 \<le> capacity_of r"
  by (simp only: capacity_of_def of_nat_0_le_iff)

lemma drift_nonneg: "0 \<le> drift r"
  by (simp add: drift_def)

lemma gain_nonneg: "window_seconds r \<noteq> 0 \<Longrightarrow> 0 \<le> gain r d"
  using rate_near(2) exact_secs_bounds(1) by (simp add: gain_def)

lemma check_gain:
  assumes "window_seconds r \<noteq> 0" "made_for r b" "tokens b = Fin x" "t1 \<le> t2" "t2 < DURATION_MAX"
    and "check_bucket t1 t2 r b = (res, b')"
  obtains y where "tokens b' = Fin y" "made_for r b'" "t1 \<le> last_refill b'" "last_refill b' \<le> t2"
    "y + of_bool (allowed res) \<le>
       x + (gain r (t1 - last_refill b) + gain r (last_refill b' - t1)) * excess ^ 6 + 3 * drift r"
    "y + of_bool (allowed res) \<le>
       capacity_of r * excess + gain r (last_refill b' - t1) * excess ^ 6 + 3 * drift r"
proof -
  obtain y1 where y1: "tokens (refill t1 b) = Fin y1" "made_for r (refill t1 b)"
      "y1 \<le> x + gain r (t1 - last_refill b) * excess ^ 6 + drift r" "y1 \<le> capacity_of r * excess"
    by (rule refill_gain [OF assms(1-3), of t1]) (use assms(4,5) in auto)
  have l1: "last_refill (refill t1 b) = t1" by (simp add: refill_def)
  note d = drift_nonneg [of r]
  show ?thesis
  proof (cases "1 \<le> tokens (refill t1 b)")
    case False
    then have "res = fst (check_bucket t1 t2 r b)" "b' = refill t1 b" "\<not> allowed res"
      using assms(6) by (auto simp: check_bucket_def try_consume_def Let_def)
    moreover have "gain r 0 = 0" by (simp add: gain_def exact_secs_def)
    ultimately show ?thesis
      using that [of y1] y1 l1 assms(4) d by (simp add: distrib_right)
  next
    case True
    let ?b1 = "(refill t1 b)\<lparr>tokens := tokens (refill t1 b) - 1\<rparr>"
    have "1 \<le> y1" using True by (simp add: y1(1) one_f64_def)
    from consume_one [OF y1(2,1) this refl] obtain z where z: "tokens ?b1 = Fin z" "made_for r ?b1"
        "z + 1 \<le> y1 + drift r" by blast
    obtain y2 where y2: "tokens (refill t2 ?b1) = Fin y2" "made_for r (refill t2 ?b1)"
        "y2 \<le> z + gain r (t2 - t1) * excess ^ 6 + drift r"
      by (rule refill_gain [OF assms(1) z(2,1), of t2]) (use assms(5) l1 in auto)
    have b': "b' = refill t2 ?b1" "allowed res"
      using assms(6) True by (auto simp: check_bucket_def try_consume_def remaining_def Let_def)
    have l2: "last_refill b' = t2" by (simp add: b'(1) refill_def)
    show ?thesis
      using that [of y2] y2 z(3) y1(3,4) assms(4) d b' l2 by (simp add: distrib_right)
  qed
qed

section \<open>A sequence of checks\<close>

text \<open>Checks whose instants are read in order, from \<open>s\<close> to \<open>e\<close>.\<close>

fun clocks_in :: "nat \<Rightarrow> clock list \<Rightarrow> nat \<Rightarrow> bool" where
  "clocks_in s [] e = (s \<le> e)"
| "clocks_in s ((t0, t1, t2) # cs) e = (s \<le> t0 \<and> t0 \<le> t1 \<and> t1 \<le> t2 \<and> clocks_in t2 cs e)"

lemma clocks_in_le: "clocks_in s cs e \<Longrightarrow> s \<le> e"
  by (induction s cs e rule: clocks_in.induct) auto

definition admitted :: "bool list \<Rightarrow> rat" where
  "admitted vs = of_nat (length (filter id vs))"

lemma admitted_simps [simp]: "admitted [] = 0" "admitted (v # vs) = of_bool v + admitted vs"
  by (simp_all add: admitted_def)

lemma gain_mono: "window_seconds r \<noteq> 0 \<Longrightarrow> a \<le> b \<Longrightarrow> gain r a \<le> gain r b"
  using rate_near(2) [of r] by (simp add: gain_def exact_secs_def mult_left_mono divide_right_mono)

lemma verdicts_gain:
  assumes "window_seconds r \<noteq> 0" "e < DURATION_MAX"
    and "find_matching_rule k l = Some r" "bucket_of l k = Some b" "made_for r b" "tokens b = Fin x"
    and "last_refill b \<le> s" "clocks_in s cs e"
  shows "admitted (verdicts cs k l) \<le>
           x + gain r (e - last_refill b) * excess ^ 6 + of_nat (length cs) * (3 * drift r)"
  using assms(3-)
proof (induction cs arbitrary: l b x s)
  case Nil
  then have "0 \<le> x" using tokens_bound(1) by blast
  moreover have "0 \<le> gain r (e - last_refill b) * excess ^ 6" using gain_nonneg [OF assms(1)] by simp
  ultimately show ?case by simp
next
  case (Cons c cs)
  obtain t0 t1 t2 where c: "c = (t0, t1, t2)" by (cases c)
  have t: "last_refill b \<le> t1" "t1 \<le> t2" "clocks_in t2 cs e" using Cons.prems(5,6) by (auto simp: c)
  then have "t2 \<le> e" using clocks_in_le by blast
  obtain res l' where ck: "check c k l = (Ok res, l')"
      and cb: "check_bucket t1 t2 r b = (res, the (bucket_of l' k))"
      and l': "bucket_of l' k \<noteq> None" "find_matching_rule k l' = Some r"
    using check_known [OF Cons.prems(1), of c] Cons.prems(2) by (auto simp: c current_bucket_def)
  obtain b' where b': "bucket_of l' k = Some b'" using l'(1) by blast
  have "t2 < DURATION_MAX" using \<open>t2 \<le> e\<close> assms(2) by simp
  from check_gain [OF assms(1) Cons.prems(3,4) t(2) this cb] b'
  obtain y where y: "tokens b' = Fin y" "made_for r b'" "t1 \<le> last_refill b'" "last_refill b' \<le> t2"
      "y + of_bool (allowed res) \<le>
         x + (gain r (t1 - last_refill b) + gain r (last_refill b' - t1)) * excess ^ 6 + 3 * drift r"
    by auto
  note Cons.IH [OF l'(2) b' y(2,1,4) t(3)]
  moreover have "gain r (t1 - last_refill b) + gain r (last_refill b' - t1) + gain r (e - last_refill b') =
      gain r (e - last_refill b)"
    using y(3,4) t(1) \<open>t2 \<le> e\<close> by (simp add: gain_add)
  then have "(gain r (t1 - last_refill b) + gain r (last_refill b' - t1)) * excess ^ 6 +
      gain r (e - last_refill b') * excess ^ 6 = gain r (e - last_refill b) * excess ^ 6"
    by (simp only: distrib_right [symmetric])
  ultimately show ?case
    using y(5) by (simp add: ck distrib_right)
qed

lemma excess6: "excess ^ 6 \<le> 1 + 1 / 2 ^ 50"
  by (simp add: pow2_def power_divide)

text \<open>The same with the factors that rounding really costs.\<close>

lemma admissions_gain:
  assumes "find_matching_rule k l = Some r" "window_seconds r \<noteq> 0"
    and "\<And>b. bucket_of l k = Some b \<Longrightarrow> made_for r b"
    and "clocks_in s cs e" "e < DURATION_MAX"
  shows "admitted (verdicts cs k l) \<le>
    capacity_of r * excess + gain r (e - s) * excess ^ 6 + of_nat (length cs) * (3 * drift r)"
proof (cases cs)
  case Nil
  then show ?thesis using gain_nonneg [OF assms(2)] by simp
next
  case (Cons c cs')
  obtain t0 t1 t2 where c: "c = (t0, t1, t2)" by (cases c)
  have t: "s \<le> t1" "t1 \<le> t2" "clocks_in t2 cs' e" using assms(4) by (auto simp: Cons c)
  then have "t2 \<le> e" using clocks_in_le by blast
  let ?b = "current_bucket c k r l"
  have made: "made_for r ?b"
    using assms(3) rule_bucket_made by (simp add: current_bucket_def split: option.split)
  then obtain x where x: "tokens ?b = Fin x" by (auto simp: made_for_def bucket_inv_def nonneg_double_def)
  obtain res l' where ck: "check c k l = (Ok res, l')"
      and cb: "check_bucket t1 t2 r ?b = (res, the (bucket_of l' k))"
      and l': "bucket_of l' k \<noteq> None" "find_matching_rule k l' = Some r"
    using check_known [OF assms(1), of c] by (auto simp: c)
  obtain b' where b': "bucket_of l' k = Some b'" using l'(1) by blast
  have "t2 < DURATION_MAX" using \<open>t2 \<le> e\<close> assms(5) by simp
  from check_gain [OF assms(2) made x t(2) this cb] b'
  obtain y where y: "tokens b' = Fin y" "made_for r b'" "t1 \<le> last_refill b'" "last_refill b' \<le> t2"
      "y + of_bool (allowed res) \<le>
         capacity_of r * excess + gain r (last_refill b' - t1) * excess ^ 6 + 3 * drift r"
    by auto
  note verdicts_gain [OF assms(2,5) l'(2) b' y(2,1,4) t(3)]
  moreover have "gain r (last_refill b' - t1) + gain r (e - last_refill b') \<le> gain r (e - s)"
    using y(3,4) t(1) \<open>t2 \<le> e\<close> by (simp add: gain_add gain_mono assms(2))
  then have "gain r (last_refill b' - t1) * excess ^ 6 + gain r (e - last_refill b') * excess ^ 6 \<le>
      gain r (e - s) * excess ^ 6"
    by (simp only: distrib_right [symmetric]) (intro mult_right_mono, simp_all add: add_nonneg_nonneg)
  ultimately show ?thesis
    using y(5) by (simp add: Cons ck distrib_right)
qed

section \<open>Properties\<close>

text \<open>C19: What a rate limit promises: between two instants the checks of a key admit at most the
  capacity of its bucket plus what the rule grants for the time between them, up to rounding. The
  relative error of the grant is below \<open>2^-50\<close>, and each check can add at most \<open>2^-51\<close> of
  the capacity. This holds whatever state the bucket is in, if it was made for the rule.\<close>

theorem admissions_bounded:
  assumes "find_matching_rule k l = Some r" "window_seconds r \<noteq> 0"
    and "\<And>b. bucket_of l k = Some b \<Longrightarrow> made_for r b"
    and "clocks_in s cs e" "e < DURATION_MAX"
  shows "admitted (verdicts cs k l) \<le>
           capacity_of r + gain r (e - s) * (1 + 1 / 2 ^ 50) + of_nat (length cs + 1) * capacity_of r / 2 ^ 51"
proof -
  note admissions_gain [OF assms]
  moreover have "gain r (e - s) * excess ^ 6 \<le> gain r (e - s) * (1 + 1 / 2 ^ 50)"
    using gain_nonneg [OF assms(2)] by (intro mult_left_mono excess6) simp
  moreover have d: "3 * drift r \<le> capacity_of r / 2 ^ 51"
    using mult_left_mono [OF _ capacity_nonneg, of "3 * (excess * pow2 (- 53))" "1 / 2 ^ 51" r]
    by (simp add: drift_def pow2_def)
  have "of_nat (length cs) * (3 * drift r) \<le> of_nat (length cs) * (capacity_of r / 2 ^ 51)"
    using d by (intro mult_left_mono) simp_all
  moreover have "capacity_of r * excess \<le> capacity_of r + capacity_of r / 2 ^ 51"
    using mult_left_mono [OF _ capacity_nonneg, of "pow2 (- 53)" "1 / 2 ^ 51" r]
    by (simp add: pow2_def distrib_left)
  ultimately show ?thesis by (simp add: distrib_right add_divide_distrib)
qed

lemma admissions_bounded_witness:
  "admitted (verdicts [(0, 0, 0), (0, 0, 0), (0, 0, 0), (30 * 10 ^ 9, 30 * 10 ^ 9, 30 * 10 ^ 9)] sample_key
     (with_default_rule sample_rule)) \<le> 2 + 1 * (1 + 1 / 2 ^ 50) + 5 * 2 / 2 ^ 51"
proof -
  have "clocks_in 0 [(0, 0, 0), (0, 0, 0), (0, 0, 0), (30 * 10 ^ 9, 30 * 10 ^ 9, 30 * 10 ^ 9)] (30 * 10 ^ 9)"
    by simp
  note bound = admissions_bounded [OF _ _ _ this, of sample_key "with_default_rule sample_rule" sample_rule]
  have "find_matching_rule sample_key (with_default_rule sample_rule) = Some sample_rule"
    by (simp add: find_matching_rule_def with_default_rule_def)
  moreover have "bucket_of (with_default_rule sample_rule) sample_key = None"
    by (simp add: bucket_of_def with_default_rule_def)
  moreover have "capacity_of sample_rule = 2" "gain sample_rule (30 * 10 ^ 9) = 1"
    by (simp_all add: capacity_of_def rule_capacity_def sample_rule_def gain_def exact_rate_def exact_secs_def)
  ultimately show ?thesis using bound by (simp add: DURATION_MAX_def sample_rule_def)
qed

end
