(* ===== verification/Pg_Database.thy ===== *)
theory Pg_Database
  imports Control_Plane
begin

text \<open>
  The SQL statements of \<open>src/control_plane/postgres/mod.rs\<close> over tables, and what the cache of the
  database-backed control plane is worth against them. A table is the list of its rows, with the
  columns that the statements name. \<open>NOW()\<close> and the constraints that may reject a new tenant are
  arguments; while \<open>fault\<close> is set, no statement reaches the database.
\<close>

section \<open>The statements\<close>

record tables =
  tenant_rows :: "tenant list"
  policy_rows :: "policy_entry list"
  upstream_rows :: "upstream_entry list"
  rule_rows :: "stored_rule list"
  fault :: "string option"

definition statement :: "('d \<Rightarrow> string option) \<Rightarrow> ('d \<Rightarrow> 'a) \<Rightarrow> 'd \<Rightarrow> ('a, string) result" where
  "statement broken f d = (case broken d of Some e \<Rightarrow> Err e | None \<Rightarrow> Ok (f d))"

definition select_tenants :: "tables \<Rightarrow> (tenant list, string) result" where
  "select_tenants = statement fault (\<lambda>d. filter tn_active (tenant_rows d))"

definition select_policies :: "tables \<Rightarrow> (policy_entry list, string) result" where
  "select_policies = statement fault (\<lambda>d. filter pe_enabled (policy_rows d))"

definition select_upstreams :: "tables \<Rightarrow> (upstream_entry list, string) result" where
  "select_upstreams = statement fault (\<lambda>d. filter ue_active (upstream_rows d))"

definition select_rules :: "tables \<Rightarrow> (stored_rule list, string) result" where
  "select_rules = statement fault (\<lambda>d. filter sr_enabled (rule_rows d))"

text \<open>\<open>UPDATE policies SET policy_text, enabled, version, updated_at WHERE policy_id\<close>: the tenant of
  a row is not touched, and an identifier without a row is no error. The column \<open>version\<close> is an
  \<open>INT\<close>; a row at its largest value makes the statement fail.\<close>

definition MAX_VERSION :: "32 word" where "MAX_VERSION = 0x7FFFFFFF"

definition set_policy :: "int \<Rightarrow> policy_entry \<Rightarrow> policy_entry \<Rightarrow> policy_entry" where
  "set_policy now p row =
    (if policy_id row = policy_id p
     then row\<lparr>policy_text := policy_text p, pe_enabled := pe_enabled p,
              pe_version := pe_version row + 1, pe_updated_at := now\<rparr>
     else row)"

definition update_policies :: "int \<Rightarrow> policy_entry \<Rightarrow> tables \<Rightarrow> (unit, string) result \<times> tables" where
  "update_policies now p d =
    (case fault d of
       Some e \<Rightarrow> (Err e, d)
     | None \<Rightarrow>
         if \<exists>row \<in> set (policy_rows d). policy_id row = policy_id p \<and> pe_version row = MAX_VERSION
         then (Err ''integer out of range'', d)
         else (Ok (), d\<lparr>policy_rows := map (set_policy now p) (policy_rows d)\<rparr>))"

definition insert_tenants ::
  "(tenant \<Rightarrow> tables \<Rightarrow> string option) \<Rightarrow> tenant \<Rightarrow> tables \<Rightarrow> (unit, string) result \<times> tables" where
  "insert_tenants rejected t d =
    (case fault d of
       Some e \<Rightarrow> (Err e, d)
     | None \<Rightarrow>
         (case rejected t d of
            Some e \<Rightarrow> (Err e, d)
          | None \<Rightarrow> (Ok (), d\<lparr>tenant_rows := tenant_rows d @ [t]\<rparr>)))"

definition sql_api ::
  "(string \<Rightarrow> (tables, string) result) \<Rightarrow> (tenant \<Rightarrow> tables \<Rightarrow> string option) \<Rightarrow> int \<Rightarrow> tables pg_api" where
  "sql_api conn rejected now =
     \<lparr>pg_connect = conn, pg_migrate = Ok, fetch_tenants = select_tenants, fetch_policies = select_policies,
      fetch_upstreams = select_upstreams, fetch_rules = select_rules,
      exec_update_policy = update_policies now, exec_insert_tenant = insert_tenants rejected\<rparr>"

section \<open>The gateway as the only writer\<close>

text \<open>What a gateway does to its control plane, by hand or by the background task; and the connection
  to the database may come and go.\<close>

datatype pg_op = PgUpdatePolicy policy_entry | PgCreateTenant tenant | PgRefresh | PgFault "string option"

text \<open>Each has its own \<open>NOW()\<close>.\<close>

fun pg_task :: "(int \<Rightarrow> tables pg_api) \<Rightarrow> int \<times> pg_op \<Rightarrow> tables pg_task" where
  "pg_task A (now, PgUpdatePolicy p) = pg_update_policy (A now) p"
| "pg_task A (now, PgCreateTenant t) = pg_create_tenant (A now) t"
| "pg_task A (now, PgRefresh) = pg_refresh (A now)"
| "pg_task A (now, PgFault e) = database_change (\<lambda>d. d\<lparr>fault := e\<rparr>)"

text \<open>The operations may overlap in any way; or one runs from its first access to its last with nothing in
  between.\<close>

definition pg_runs :: "(int \<Rightarrow> tables pg_api) \<Rightarrow> tables postgres \<Rightarrow> tables postgres \<Rightarrow> bool" where
  "pg_runs A s s' \<longleftrightarrow> (\<exists>ts. (pool_step (range (pg_task A)))\<^sup>*\<^sup>* (s, []) (s', ts))"

definition pg_op_step :: "(int \<Rightarrow> tables pg_api) \<Rightarrow> int \<times> pg_op \<Rightarrow> tables postgres \<Rightarrow> tables postgres" where
  "pg_op_step A x s = (case run_alone (pg_task A x) s of Some (_, s') \<Rightarrow> s' | None \<Rightarrow> s)"

text \<open>The identifier and the tenant of each row, which no operation changes.\<close>

definition row_keys :: "tables postgres \<Rightarrow> (string \<times> string) list" where
  "row_keys s = map (\<lambda>row. (policy_id row, pe_tenant_id row)) (policy_rows (pool s))"

text \<open>The cache agrees with a row on its tenant, its text and on whether the policy is enabled.\<close>

definition agrees :: "policy_entry hmap \<Rightarrow> policy_entry \<Rightarrow> bool" where
  "agrees m row \<longleftrightarrow>
    (case hm_get m (policy_id row) of
       Some q \<Rightarrow> pe_tenant_id q = pe_tenant_id row \<and> policy_text q = policy_text row \<and> pe_enabled q = pe_enabled row
     | None \<Rightarrow> \<not> pe_enabled row)"

definition coherent :: "(string \<times> string) list \<Rightarrow> tables postgres \<Rightarrow> bool" where
  "coherent ks s \<longleftrightarrow>
     row_keys s = ks \<and> distinct (map fst ks) \<and>
     (\<forall>row \<in> set (policy_rows (pool s)). agrees (cp_policies (cache s)) row) \<and>
     (\<forall>i q. hm_get (cp_policies (cache s)) i = Some q \<longrightarrow> policy_id q = i)"

text \<open>A policy that names the tenant its row has, if there is a row.\<close>

definition tenant_kept :: "(string \<times> string) list \<Rightarrow> int \<times> pg_op \<Rightarrow> bool" where
  "tenant_kept ks x \<longleftrightarrow>
    (case snd x of PgUpdatePolicy p \<Rightarrow> \<forall>(i, t) \<in> set ks. i = policy_id p \<longrightarrow> t = pe_tenant_id p | _ \<Rightarrow> True)"

text \<open>What a table collected by its key holds.\<close>

lemma collect_by_get:
  assumes "distinct (map key xs)"
  shows "hm_get (collect_by key xs) i = Some x \<longleftrightarrow> x \<in> set xs \<and> key x = i"
  using assms
proof (induction xs arbitrary: x rule: rev_induct)
  case (snoc y xs)
  then have "hm_get (collect_by key (xs @ [y])) i = (if i = key y then Some y else hm_get (collect_by key xs) i)"
    by (simp add: collect_by_def)
  with snoc show ?case by (auto simp: rev_image_eqI)
qed (simp add: collect_by_def)

text \<open>What the operations do when they run alone.\<close>

lemma sql_api_simps:
  "fetch_tenants (sql_api conn rej now) = select_tenants" "fetch_policies (sql_api conn rej now) = select_policies"
  "fetch_upstreams (sql_api conn rej now) = select_upstreams" "fetch_rules (sql_api conn rej now) = select_rules"
  "exec_update_policy (sql_api conn rej now) = update_policies now"
  "exec_insert_tenant (sql_api conn rej now) = insert_tenants rej"
  by (simp_all add: sql_api_def)

lemmas pg_task_defs = pg_refresh_def refresh_cache_def pg_update_policy_def pg_create_tenant_def fetch_def execute_def
  store_def swap_cache_def to_cache_def database_change_def Let_def sql_api_simps

lemmas select_defs = statement_def select_tenants_def select_policies_def select_upstreams_def select_rules_def

lemma refresh_alone:
  "fault (pool s) = None \<Longrightarrow> run_alone (pg_refresh (sql_api conn rej now)) s =
     Some (Ok (), s\<lparr>cache := with_config (filter tn_active (tenant_rows (pool s))) (filter pe_enabled (policy_rows (pool s)))
        (filter ue_active (upstream_rows (pool s))) (filter sr_enabled (rule_rows (pool s)))\<rparr>)"
  "fault (pool s) = Some e \<Longrightarrow> run_alone (pg_refresh (sql_api conn rej now)) s = Some (Err (Database e), s)"
  by (simp_all add: pg_task_defs select_defs with_config_def)

lemma update_alone:
  "run_alone (pg_update_policy (sql_api conn rej now) p) s =
    (case update_policies now p (pool s) of
       (Err e, d) \<Rightarrow> Some (Err (Database e), s\<lparr>pool := d\<rparr>)
     | (Ok _, d) \<Rightarrow> Some (Ok (), s\<lparr>pool := d, cache := (cache s)\<lparr>cp_policies := hm_insert (policy_id p) p (cp_policies (cache s))\<rparr>\<rparr>))"
  by (simp add: pg_task_defs update_policy_def split: prod.split result.split)

lemma create_tenant_policies: "create_tenant t c = (res, c') \<Longrightarrow> cp_policies c' = cp_policies c"
  by (auto simp: create_tenant_def split: if_splits)

lemma create_alone:
  "\<exists>res s'. run_alone (pg_create_tenant (sql_api conn rej now) t) s = Some (res, s') \<and>
     policy_rows (pool s') = policy_rows (pool s) \<and> cp_policies (cache s') = cp_policies (cache s)"
  by (auto simp: pg_task_defs insert_tenants_def split: option.split prod.split dest: create_tenant_policies)

lemma set_policy_key [simp]:
  "policy_id (set_policy now p row) = policy_id row" "pe_tenant_id (set_policy now p row) = pe_tenant_id row"
  by (simp_all add: set_policy_def)

lemma refresh_coherent:
  assumes "distinct (map fst (row_keys s))" "fault (pool s) = None"
  shows "coherent (row_keys s) (pg_op_step (sql_api conn rej) (now, PgRefresh) s)"
proof -
  let ?rows = "policy_rows (pool s)"
  let ?m = "collect_by policy_id (filter pe_enabled ?rows)"
  have k: "distinct (map policy_id ?rows)" using assms(1) by (simp add: row_keys_def o_def)
  then have d: "distinct (map policy_id (filter pe_enabled ?rows))" by (rule distinct_map_filter)
  have "agrees ?m row" if r: "row \<in> set ?rows" for row
  proof (cases "pe_enabled row")
    case True
    then have "hm_get ?m (policy_id row) = Some row" using r by (simp add: collect_by_get [OF d])
    then show ?thesis by (simp add: agrees_def)
  next
    case False
    have "hm_get ?m (policy_id row) \<noteq> Some q" for q
      using False r k by (auto simp: collect_by_get [OF d] distinct_map inj_on_def)
    then show ?thesis using False by (cases "hm_get ?m (policy_id row)") (auto simp: agrees_def)
  qed
  then show ?thesis
    using assms by (simp add: coherent_def pg_op_step_def refresh_alone with_config_def collect_by_get [OF d] row_keys_def)
qed

lemma update_coherent:
  assumes "coherent ks s" "tenant_kept ks (now, PgUpdatePolicy p)"
  shows "coherent ks (pg_op_step (sql_api conn rej) (now, PgUpdatePolicy p) s)"
proof (cases "update_policies now p (pool s)")
  case (Pair res d)
  have t: "pe_tenant_id row = pe_tenant_id p" if "row \<in> set (policy_rows (pool s))" "policy_id row = policy_id p" for row
    using assms that by (fastforce simp: coherent_def row_keys_def tenant_kept_def)
  have a: "agrees (hm_insert (policy_id p) p (cp_policies (cache s))) (set_policy now p row)"
    if "row \<in> set (policy_rows (pool s))" for row
    using assms(1) that t [OF that] by (auto simp: coherent_def agrees_def set_policy_def split: option.splits)
  show ?thesis
  proof (cases res)
    case (Ok u)
    then have "policy_rows d = map (set_policy now p) (policy_rows (pool s))"
      using Pair by (auto simp: update_policies_def split: option.splits if_splits)
    then show ?thesis
      using assms(1) a Pair Ok
      by (simp add: coherent_def pg_op_step_def update_alone row_keys_def o_def)
  next
    case (Err e)
    then have "d = pool s" using Pair by (auto simp: update_policies_def split: option.splits if_splits)
    then show ?thesis using assms(1) Pair Err by (simp add: pg_op_step_def update_alone)
  qed
qed

lemma coherent_step:
  assumes "coherent ks s" "tenant_kept ks (now, x)"
  shows "coherent ks (pg_op_step (sql_api conn rej) (now, x) s)"
proof (cases x)
  case (PgUpdatePolicy p)
  then show ?thesis using assms update_coherent by simp
next
  case (PgCreateTenant t)
  then show ?thesis
    using assms(1) create_alone [of conn rej now t s] by (auto simp: coherent_def pg_op_step_def row_keys_def)
next
  case PgRefresh
  show ?thesis
  proof (cases "fault (pool s)")
    case None
    then show ?thesis using assms(1) refresh_coherent [of s conn rej now] by (auto simp: PgRefresh coherent_def)
  next
    case (Some e)
    then show ?thesis using assms(1) by (simp add: PgRefresh pg_op_step_def refresh_alone)
  qed
next
  case (PgFault e)
  then show ?thesis using assms(1) by (simp add: coherent_def pg_op_step_def database_change_def row_keys_def)
qed

lemma pg_task_keeps: "keeps (\<lambda>s. row_keys s = ks) (pg_task (sql_api conn rej) x)"
proof -
  obtain now y where "x = (now, y)" by force
  then show ?thesis
    by (cases y)
      (auto simp: pg_task_defs select_defs row_keys_def update_policies_def insert_tenants_def o_def
        split: option.splits prod.splits result.splits if_splits intro!: keeps.intros)
qed

lemma pg_runs_keys: "pg_runs (sql_api conn rej) s s' \<Longrightarrow> row_keys s' = row_keys s"
  using pool_keeps [of "range (pg_task (sql_api conn rej))" s _ "\<lambda>x. row_keys x = row_keys s"] pg_task_keeps
  unfolding pg_runs_def by fastforce

lemma advances_fetch:
  assumes "q (pool s) = Ok rows" "advance\<^sup>*\<^sup>* (s, [k rows]) p"
  shows "advance\<^sup>*\<^sup>* (s, [fetch q k]) p"
proof -
  have "advance (s, [] @ fetch q k # []) (s, [] @ k rows # [])"
    unfolding fetch_def by (rule advance) (simp add: assms(1))
  then show ?thesis using assms(2) by (simp add: converse_rtranclp_into_rtranclp)
qed

lemma only_row:
  assumes "distinct (map policy_id rows)" "row \<in> set rows" "policy_id p = policy_id row" "pe_version row \<noteq> MAX_VERSION"
  shows "\<not> (\<exists>x \<in> set rows. policy_id x = policy_id p \<and> pe_version x = MAX_VERSION)"
  using assms by (auto simp: distinct_map inj_on_def)

text \<open>A gateway that starts on a database.\<close>

definition started_on :: "tables \<Rightarrow> int \<Rightarrow> tables postgres" where
  "started_on d t = \<lparr>pool = d, cache = in_memory_new t t, refreshing = False\<rparr>"

interpretation pg_gateway: guarded_machine "started_on (d\<lparr>policy_rows := []\<rparr>) t" "pg_op_step (sql_api conn rej)"
    "coherent []" "tenant_kept []"
  by unfold_locales
    (simp add: coherent_def started_on_def in_memory_new_def row_keys_def, metis coherent_step prod.collapse)

lemma coherent_run:
  "coherent ks s \<Longrightarrow> list_all (tenant_kept ks) ops \<Longrightarrow> coherent ks (run (pg_op_step (sql_api conn rej)) ops s)"
  by (induction ops arbitrary: s) (auto intro: coherent_step)

section \<open>Properties\<close>

text \<open>C14: The cache in front of the database recovers whatever has happened before: after any
  overlapping policy writes, tenant creations and refreshes, one refresh that nothing interrupts
  makes the cache serve each row exactly to the tenant of the row, exactly if the row is enabled, and with
  the row's text; and further operations of the gateway keep it so, with the database reachable or not,
  as long as no two of them overlap, no other program writes, and a policy write names the tenant
  that the policy has.\<close>

theorem policy_cache_recovers:
  assumes "pg_runs (sql_api conn rej) s0 s" "distinct (map policy_id (policy_rows (pool s0)))"
    and "fault (pool s) = None" "list_all (tenant_kept (row_keys s0)) ops" "hash_order_ok \<pi>"
    and "s' = run (pg_op_step (sql_api conn rej)) ((now, PgRefresh) # ops) s" "row \<in> set (policy_rows (pool s'))"
  shows "((\<exists>q. q \<in> set (pg_load_policies \<pi> s' t) \<and> policy_id q = policy_id row) \<longleftrightarrow>
            pe_enabled row \<and> pe_tenant_id row = t) \<and>
         (\<forall>q. q \<in> set (pg_load_policies \<pi> s' t) \<and> policy_id q = policy_id row \<longrightarrow> policy_text q = policy_text row)"
proof -
  have k: "row_keys s = row_keys s0" by (rule pg_runs_keys [OF assms(1)])
  have "distinct (map fst (row_keys s))" unfolding k using assms(2) by (simp add: row_keys_def o_def)
  from refresh_coherent [OF this assms(3), of conn rej now]
  have "coherent (row_keys s0) (pg_op_step (sql_api conn rej) (now, PgRefresh) s)" by (simp add: k)
  from coherent_run [OF this assms(4)] have c: "coherent (row_keys s0) s'" by (simp add: assms(6))
  then have key: "hm_get (cp_policies (cache s')) i = Some q \<Longrightarrow> policy_id q = i" for i q
    by (simp add: coherent_def)
  have "agrees (cp_policies (cache s')) row"
    using c assms(7) by (simp add: coherent_def)
  then show ?thesis
    unfolding pg_load_policies_def loaded_set(1) [OF assms(5)] agrees_def
    using key by (cases "hm_get (cp_policies (cache s')) (policy_id row)") fastforce+
qed

definition sample_db :: tables where
  "sample_db = \<lparr>tenant_rows = [], policy_rows = [sample_policy ''a'' 7], upstream_rows = [], rule_rows = [],
     fault = None\<rparr>"

abbreviation sample_sql :: "int \<Rightarrow> tables pg_api" where
  "sample_sql \<equiv> sql_api (\<lambda>_. Ok sample_db) (\<lambda>_ _. None)"

lemma hash_order_id: "hash_order_ok (\<lambda>xs. xs)"
  by (simp add: hash_order_ok_def)

lemma policy_cache_recovers_witness:
  "\<exists>s' q. s' = run (pg_op_step sample_sql) [(4, PgRefresh), (5, PgUpdatePolicy (sample_policy ''a'' 1))]
       (started_on sample_db 0) \<and>
     q \<in> set (pg_load_policies (\<lambda>xs. xs) s' ''a'') \<and> policy_id q = ''p''"
proof -
  let ?s = "started_on sample_db 0"
  let ?s' = "run (pg_op_step sample_sql) ((4, PgRefresh) # [(5, PgUpdatePolicy (sample_policy ''a'' 1))]) ?s"
  let ?row = "set_policy 5 (sample_policy ''a'' 1) (sample_policy ''a'' 7)"
  have "pg_runs sample_sql ?s ?s" by (auto simp: pg_runs_def)
  moreover have "policy_rows (pool ?s') = [?row]"
    by (simp add: pg_op_step_def refresh_alone update_alone update_policies_def started_on_def sample_db_def
        MAX_VERSION_def sample_policy_def)
  then have "?row \<in> set (policy_rows (pool ?s'))" by simp
  moreover have "distinct (map policy_id (policy_rows (pool ?s)))" "fault (pool ?s) = None"
      "list_all (tenant_kept (row_keys ?s)) [(5, PgUpdatePolicy (sample_policy ''a'' 1))]"
    by (simp_all add: started_on_def sample_db_def row_keys_def tenant_kept_def sample_policy_def)
  moreover have "pe_enabled ?row" "pe_tenant_id ?row = ''a''" "policy_id ?row = ''p''"
    by (simp_all add: set_policy_def sample_policy_def)
  ultimately have "\<exists>q. q \<in> set (pg_load_policies (\<lambda>xs. xs) ?s' ''a'') \<and> policy_id q = ''p''"
    using policy_cache_recovers [OF _ _ _ _ hash_order_id refl, of "\<lambda>_. Ok sample_db" "\<lambda>_ _. None" ?s ?s
        "[(5, PgUpdatePolicy (sample_policy ''a'' 1))]" ?row 4 "''a''"] by metis
  then show ?thesis by auto
qed

text \<open>C7: A policy write that overlaps a refresh can be undone in the cache: there is a way for both to
  return \<open>Ok\<close>, with the write in the database, such that the cache serves the row as it was before
  the write, even when the write was to disable the policy.\<close>

theorem refresh_undoes_update:
  assumes "distinct (map policy_id (policy_rows (pool s)))" "fault (pool s) = None" "hash_order_ok \<pi>"
    and "row \<in> set (policy_rows (pool s))" "pe_enabled row" "policy_id p = policy_id row" "pe_version row \<noteq> MAX_VERSION"
  shows "\<exists>s'. (pool_step {pg_refresh (sql_api conn rej now), pg_update_policy (sql_api conn rej now) p})\<^sup>*\<^sup>*
             (s, []) (s', [Done (Ok ()), Done (Ok ())]) \<and>
           set_policy now p row \<in> set (policy_rows (pool s')) \<and>
           row \<in> set (pg_load_policies \<pi> s' (pe_tenant_id row))"
proof -
  let ?A = "sql_api conn rej now" and ?d = "pool s"
  let ?T = "{pg_refresh ?A, pg_update_policy ?A p}"
  let ?new = "with_config (filter tn_active (tenant_rows ?d)) (filter pe_enabled (policy_rows ?d))
      (filter ue_active (upstream_rows ?d)) (filter sr_enabled (rule_rows ?d))"
  have "advance\<^sup>*\<^sup>* (s, [pg_refresh ?A]) (s, [swap_cache ?new])"
    unfolding pg_refresh_def refresh_cache_def sql_api_simps
    by (intro advances_fetch, simp_all only: select_defs assms(2) option.case) (rule rtranclp.rtrancl_refl)
  then have 1: "(pool_step ?T)\<^sup>*\<^sup>* (s, [pg_refresh ?A]) (s, [swap_cache ?new])" by (rule pool_advances)
  obtain s1 where s1: "run_alone (pg_update_policy ?A p) s = Some (Ok (), s1)"
      "policy_rows (pool s1) = map (set_policy now p) (policy_rows ?d)"
    using only_row [OF assms(1,4,6,7)] assms(2) by (auto simp: update_alone update_policies_def)
  have 2: "advance\<^sup>*\<^sup>* (s, [swap_cache ?new] @ [pg_update_policy ?A p]) (s1, [swap_cache ?new] @ [Done (Ok ())])"
    by (rule advance_alone [OF s1(1), of _ "[]"])
  have "run_alone (swap_cache ?new) s1 = Some (Ok (), s1\<lparr>cache := ?new\<rparr>)"
    by (simp add: swap_cache_def store_def with_config_def)
  from advance_alone [OF this, of "[]" "[Done (Ok ())]"]
  have 3: "advance\<^sup>*\<^sup>* (s1, [swap_cache ?new] @ [Done (Ok ())]) (s1\<lparr>cache := ?new\<rparr>, [Done (Ok ()), Done (Ok ())])"
    by simp
  have "(pool_step ?T)\<^sup>*\<^sup>* (s, []) (s, [pg_refresh ?A])"
    using arrives [of "pg_refresh ?A" ?T s "[]"] by simp
  also note 1
  also have "(pool_step ?T)\<^sup>*\<^sup>* (s, [swap_cache ?new]) (s, [swap_cache ?new] @ [pg_update_policy ?A p])"
    using arrives [of "pg_update_policy ?A p" ?T s] by blast
  also note pool_advances [OF 2]
  also note pool_advances [OF 3]
  finally have R: "(pool_step ?T)\<^sup>*\<^sup>* (s, []) (s1\<lparr>cache := ?new\<rparr>, [Done (Ok ()), Done (Ok ())])" .
  have "distinct (map policy_id (filter pe_enabled (policy_rows ?d)))"
    using assms(1) by (rule distinct_map_filter)
  then have "row \<in> set (pg_load_policies \<pi> (s1\<lparr>cache := ?new\<rparr>) (pe_tenant_id row))"
    unfolding pg_load_policies_def loaded_set(1) [OF assms(3)]
    using assms(4,5) by (auto simp: with_config_def collect_by_get)
  moreover have "set_policy now p row \<in> set (policy_rows (pool (s1\<lparr>cache := ?new\<rparr>)))"
    using assms(4) by (simp add: s1(2))
  ultimately show ?thesis using R by blast
qed

lemma refresh_undoes_update_witness:
  "\<exists>s'. (pool_step {pg_refresh (sample_sql 5), pg_update_policy (sample_sql 5) ((sample_policy ''a'' 1)\<lparr>pe_enabled := False\<rparr>)})\<^sup>*\<^sup>*
      (started_on sample_db 0, []) (s', [Done (Ok ()), Done (Ok ())]) \<and>
     sample_policy ''a'' 7 \<in> set (pg_load_policies (\<lambda>xs. xs) s' ''a'')"
proof -
  have "distinct (map policy_id (policy_rows (pool (started_on sample_db 0))))" "fault (pool (started_on sample_db 0)) = None"
    "sample_policy ''a'' 7 \<in> set (policy_rows (pool (started_on sample_db 0)))" "pe_enabled (sample_policy ''a'' 7)"
    "policy_id ((sample_policy ''a'' 1)\<lparr>pe_enabled := False\<rparr>) = policy_id (sample_policy ''a'' 7)"
    "pe_version (sample_policy ''a'' 7) \<noteq> MAX_VERSION"
    by (simp_all add: started_on_def sample_db_def sample_policy_def MAX_VERSION_def)
  from refresh_undoes_update [OF this(1,2) hash_order_id this(3-6), of "\<lambda>_. Ok sample_db" "\<lambda>_ _. None" 5]
  have "\<exists>s'. (pool_step {pg_refresh (sample_sql 5), pg_update_policy (sample_sql 5) ((sample_policy ''a'' 1)\<lparr>pe_enabled := False\<rparr>)})\<^sup>*\<^sup>*
      (started_on sample_db 0, []) (s', [Done (Ok ()), Done (Ok ())]) \<and>
     sample_policy ''a'' 7 \<in> set (pg_load_policies (\<lambda>xs. xs) s' (pe_tenant_id (sample_policy ''a'' 7)))" by blast
  then show ?thesis by (simp add: sample_policy_def)
qed

text \<open>What a policy write is worth. Until the next refresh the given policy is served to the tenant
  it names; from then on the database's rows are: the text and the switch have reached a row of that
  identifier, its tenant has not changed, and without such a row nothing is left of the write.\<close>

theorem policy_write_and_refresh:
  assumes "distinct (map policy_id (policy_rows (pool s)))" "hash_order_ok \<pi>"
    and "coherent ks s" "run_alone (pg_update_policy (sql_api conn rej now) p) s = Some (Ok (), s1)"
    and "run_alone (pg_refresh (sql_api conn rej now)) s1 = Some (Ok (), s2)"
  shows "set (pg_load_policies \<pi> s1 t) =
           {q \<in> set (pg_load_policies \<pi> s t). policy_id q \<noteq> policy_id p} \<union>
           {q. q = p \<and> pe_tenant_id p = t \<and> pe_enabled p} \<and>
         set (pg_load_policies \<pi> s2 t) =
           {q \<in> set_policy now p ` set (policy_rows (pool s)). pe_tenant_id q = t \<and> pe_enabled q}"
proof -
  have f: "fault (pool s) = None" and s1: "cache s1 = snd (update_policy p (cache s))"
      "policy_rows (pool s1) = map (set_policy now p) (policy_rows (pool s))" "fault (pool s1) = None"
    using assms(4)
    by (auto simp: update_alone update_policies_def update_policy_def split: option.splits if_splits)
  have key: "hm_get (cp_policies (cache s)) i = Some q \<Longrightarrow> policy_id q = i" for i q
    using assms(3) by (simp add: coherent_def)
  have "set (pg_load_policies \<pi> s1 t) =
      {q \<in> set (pg_load_policies \<pi> s t). policy_id q \<noteq> policy_id p} \<union>
      {q. q = p \<and> pe_tenant_id p = t \<and> pe_enabled p}"
    unfolding pg_load_policies_def loaded_set(1) [OF assms(2)] s1(1) update_policy_def
    using key by (auto split: if_splits)
  moreover have d: "distinct (map policy_id (filter pe_enabled (policy_rows (pool s1))))"
    using assms(1) by (intro distinct_map_filter) (simp add: s1(2) o_def)
  have "cp_policies (cache s2) = collect_by policy_id (filter pe_enabled (policy_rows (pool s1)))"
    using assms(5) by (auto simp: refresh_alone(1) [OF s1(3)] with_config_def)
  then have "set (pg_load_policies \<pi> s2 t) =
      {q \<in> set_policy now p ` set (policy_rows (pool s)). pe_tenant_id q = t \<and> pe_enabled q}"
    unfolding pg_load_policies_def loaded_set(1) [OF assms(2)]
    by (auto simp: collect_by_get [OF d]) (auto simp: s1(2))
  ultimately show ?thesis by blast
qed

text \<open>A tenant writes under an identifier that another tenant's row has: it is served its text until the
  refresh, and afterwards the other tenant is.\<close>

lemma policy_write_and_refresh_witness:
  "\<exists>s s1 s2. run_alone (pg_update_policy (sample_sql 5) (sample_policy ''b'' 1)) s = Some (Ok (), s1) \<and>
     run_alone (pg_refresh (sample_sql 5)) s1 = Some (Ok (), s2) \<and>
     sample_policy ''b'' 1 \<in> set (pg_load_policies (\<lambda>xs. xs) s1 ''b'') \<and>
     set (pg_load_policies (\<lambda>xs. xs) s2 ''b'') = {} \<and>
     set_policy 5 (sample_policy ''b'' 1) (sample_policy ''a'' 7) \<in> set (pg_load_policies (\<lambda>xs. xs) s2 ''a'')"
proof -
  let ?start = "started_on sample_db 0"
  let ?now = "pg_op_step sample_sql (4, PgRefresh) ?start"
  have d: "distinct (map fst (row_keys ?start))" and f: "fault (pool ?start) = None"
    by (simp_all add: started_on_def sample_db_def row_keys_def)
  have p: "pool ?now = sample_db" by (simp add: pg_op_step_def refresh_alone f) (simp add: started_on_def)
  obtain s1 where s1: "run_alone (pg_update_policy (sample_sql 5) (sample_policy ''b'' 1)) ?now = Some (Ok (), s1)"
      "fault (pool s1) = None"
    using p by (auto simp: update_alone update_policies_def sample_db_def MAX_VERSION_def sample_policy_def)
  obtain s2 where s2: "run_alone (pg_refresh (sample_sql 5)) s1 = Some (Ok (), s2)"
    using refresh_alone(1) [OF s1(2)] by blast
  have "distinct (map policy_id (policy_rows (pool ?now)))" by (simp only: p) (simp add: sample_db_def)
  note R = policy_write_and_refresh [OF this hash_order_id refresh_coherent [OF d f] s1(1) s2]
  have "pe_tenant_id (set_policy 5 (sample_policy ''b'' 1) (sample_policy ''a'' 7)) = ''a''"
    "pe_enabled (set_policy 5 (sample_policy ''b'' 1) (sample_policy ''a'' 7))"
    by (simp_all add: set_policy_def sample_policy_def)
  with R [of "''a''"] R [of "''b''"] s1(1) s2 p show ?thesis
    by (intro exI [of _ ?now] exI [of _ s1] exI [of _ s2]) (auto simp: sample_db_def)
qed

end
