(* ===== verification/Payloads.thy ===== *)
theory Payloads
  imports Message
begin

text \<open>
  \<open>src/protocol/message.rs\<close>: the parameter, result and content structs that clients and servers
  exchange, with the serde instances derived for them. Under \<open>rename_all = "camelCase"\<close> a field
  \<open>_meta\<close> becomes \<open>meta\<close>; the fields of an enum variant keep their names. The gateway itself passes
  such values through as JSON.
\<close>

section \<open>Content blocks\<close>

record resource_contents =
  rcon_uri :: string
  rcon_mime_type :: "string option"
  rcon_text :: "string option"
  rcon_blob :: "string option"

definition opt_or_null :: "string option \<Rightarrow> json" where
  "opt_or_null x = (case x of None \<Rightarrow> JNull | Some s \<Rightarrow> JStr s)"

definition resource_contents_to_json :: "resource_contents \<Rightarrow> json" where
  "resource_contents_to_json r =
     JObj ([(''uri'', JStr (rcon_uri r))] @
           skip_none ''mimeType'' JStr (rcon_mime_type r) @
           [(''text'', opt_or_null (rcon_text r)), (''blob'', opt_or_null (rcon_blob r))])"

definition resource_contents_from_json :: "json \<Rightarrow> resource_contents option" where
  "resource_contents_from_json v =
     (case struct_fields [(''uri'', False), (''mimeType'', False), (''text'', False), (''blob'', False)] v of
        Some [a, b, c, d] \<Rightarrow>
          (case (de_required as_str a, de_option as_str b, de_option as_str c, de_option as_str d) of
             (Some a', Some b', Some c', Some d') \<Rightarrow>
               Some \<lparr>rcon_uri = a', rcon_mime_type = b', rcon_text = c', rcon_blob = d'\<rparr>
           | _ \<Rightarrow> None)
      | _ \<Rightarrow> None)"

datatype content =
    TextContent string
  | ImageContent string string
  | ResourceContent resource_contents

text \<open>An internally tagged enum: the tag and the fields of the variant in one object.\<close>

fun content_to_json :: "content \<Rightarrow> json" where
  "content_to_json (TextContent t) = JObj [(''type'', JStr ''text''), (''text'', JStr t)]"
| "content_to_json (ImageContent d m) =
     JObj [(''type'', JStr ''image''), (''data'', JStr d), (''mime_type'', JStr m)]"
| "content_to_json (ResourceContent r) =
     JObj [(''type'', JStr ''resource''), (''resource'', resource_contents_to_json r)]"

definition content_from_json :: "json \<Rightarrow> content option" where
  "content_from_json v =
     (case Option.bind (jget v ''type'') as_str of
        None \<Rightarrow> None
      | Some ty \<Rightarrow>
          if ty = ''text'' then map_option TextContent (Option.bind (jget v ''text'') as_str)
          else if ty = ''image'' then
            (case (Option.bind (jget v ''data'') as_str, Option.bind (jget v ''mime_type'') as_str) of
               (Some d, Some m) \<Rightarrow> Some (ImageContent d m)
             | _ \<Rightarrow> None)
          else if ty = ''resource'' then
            map_option ResourceContent (Option.bind (jget v ''resource'') resource_contents_from_json)
          else None)"

section \<open>Calls\<close>

definition from_array :: "(json \<Rightarrow> 'a option) \<Rightarrow> json \<Rightarrow> 'a list option" where
  "from_array d v = Option.bind (as_array v) (\<lambda>xs. those (map d xs))"

record tools_call_result =
  tcr_content :: "content list"
  tcr_is_error :: "bool option"

definition tools_call_result_to_json :: "tools_call_result \<Rightarrow> json" where
  "tools_call_result_to_json r =
     JObj ([(''content'', JArr (map content_to_json (tcr_content r)))] @
           skip_none ''isError'' JBool (tcr_is_error r))"

definition tools_call_result_from_json :: "json \<Rightarrow> tools_call_result option" where
  "tools_call_result_from_json v =
     (case struct_fields [(''content'', False), (''isError'', False)] v of
        Some [a, b] \<Rightarrow>
          (case (de_required (from_array content_from_json) a, de_option de_bool b) of
             (Some a', Some b') \<Rightarrow> Some \<lparr>tcr_content = a', tcr_is_error = b'\<rparr>
           | _ \<Rightarrow> None)
      | _ \<Rightarrow> None)"

section \<open>Resources and prompts\<close>

record resource =
  rs_uri :: string
  rs_name :: string
  rs_description :: "string option"
  rs_mime_type :: "string option"

definition resource_to_json :: "resource \<Rightarrow> json" where
  "resource_to_json r =
     JObj ([(''uri'', JStr (rs_uri r)), (''name'', JStr (rs_name r))] @
           skip_none ''description'' JStr (rs_description r) @
           skip_none ''mimeType'' JStr (rs_mime_type r))"

definition resource_from_json :: "json \<Rightarrow> resource option" where
  "resource_from_json v =
     (case struct_fields [(''uri'', False), (''name'', False), (''description'', False),
                          (''mimeType'', False)] v of
        Some [a, b, c, d] \<Rightarrow>
          (case (de_required as_str a, de_required as_str b, de_option as_str c, de_option as_str d) of
             (Some a', Some b', Some c', Some d') \<Rightarrow>
               Some \<lparr>rs_uri = a', rs_name = b', rs_description = c', rs_mime_type = d'\<rparr>
           | _ \<Rightarrow> None)
      | _ \<Rightarrow> None)"

record prompt_argument =
  pa_name :: string
  pa_description :: "string option"
  pa_required :: "bool option"

definition prompt_argument_to_json :: "prompt_argument \<Rightarrow> json" where
  "prompt_argument_to_json a =
     JObj ([(''name'', JStr (pa_name a))] @ skip_none ''description'' JStr (pa_description a) @
           skip_none ''required'' JBool (pa_required a))"

definition prompt_argument_from_json :: "json \<Rightarrow> prompt_argument option" where
  "prompt_argument_from_json v =
     (case struct_fields [(''name'', False), (''description'', False), (''required'', False)] v of
        Some [a, b, c] \<Rightarrow>
          (case (de_required as_str a, de_option as_str b, de_option de_bool c) of
             (Some a', Some b', Some c') \<Rightarrow> Some \<lparr>pa_name = a', pa_description = b', pa_required = c'\<rparr>
           | _ \<Rightarrow> None)
      | _ \<Rightarrow> None)"

record prompt =
  pr_name :: string
  pr_description :: "string option"
  pr_arguments :: "prompt_argument list"

definition prompt_to_json :: "prompt \<Rightarrow> json" where
  "prompt_to_json p =
     JObj ([(''name'', JStr (pr_name p))] @ skip_none ''description'' JStr (pr_description p) @
           [(''arguments'', JArr (map prompt_argument_to_json (pr_arguments p)))])"

text \<open>\<open>#[serde(default)]\<close>: an absent list is empty.\<close>

definition prompt_from_json :: "json \<Rightarrow> prompt option" where
  "prompt_from_json v =
     (case struct_fields [(''name'', False), (''description'', False), (''arguments'', True)] v of
        Some [a, b, c] \<Rightarrow>
          (case (de_required as_str a, de_option as_str b,
                 (case c of None \<Rightarrow> Some [] | Some x \<Rightarrow> from_array prompt_argument_from_json x)) of
             (Some a', Some b', Some c') \<Rightarrow> Some \<lparr>pr_name = a', pr_description = b', pr_arguments = c'\<rparr>
           | _ \<Rightarrow> None)
      | _ \<Rightarrow> None)"

text \<open>A page of a listing: \<open>tools/list\<close>, \<open>resources/list\<close> and \<open>prompts/list\<close> have the same shape.\<close>

record 'a listing =
  items :: "'a list"
  next_cursor :: "string option"

definition listing_to_json :: "string \<Rightarrow> ('a \<Rightarrow> json) \<Rightarrow> 'a listing \<Rightarrow> json" where
  "listing_to_json k f l =
     JObj ((k, JArr (map f (items l))) # skip_none ''nextCursor'' JStr (next_cursor l))"

definition listing_from_json :: "string \<Rightarrow> (json \<Rightarrow> 'a option) \<Rightarrow> json \<Rightarrow> 'a listing option" where
  "listing_from_json k d v =
     (case struct_fields [(k, False), (''nextCursor'', False)] v of
        Some [a, b] \<Rightarrow>
          (case (de_required (from_array d) a, de_option as_str b) of
             (Some a', Some b') \<Rightarrow> Some \<lparr>items = a', next_cursor = b'\<rparr>
           | _ \<Rightarrow> None)
      | _ \<Rightarrow> None)"

definition tools_list_result_to_json :: "tool listing \<Rightarrow> json" where
  "tools_list_result_to_json = listing_to_json ''tools'' tool_to_json"

definition tools_list_result_from_json :: "json \<Rightarrow> tool listing option" where
  "tools_list_result_from_json = listing_from_json ''tools'' tool_from_json"

definition resources_list_result_to_json :: "resource listing \<Rightarrow> json" where
  "resources_list_result_to_json = listing_to_json ''resources'' resource_to_json"

definition resources_list_result_from_json :: "json \<Rightarrow> resource listing option" where
  "resources_list_result_from_json = listing_from_json ''resources'' resource_from_json"

definition prompts_list_result_to_json :: "prompt listing \<Rightarrow> json" where
  "prompts_list_result_to_json = listing_to_json ''prompts'' prompt_to_json"

definition prompts_list_result_from_json :: "json \<Rightarrow> prompt listing option" where
  "prompts_list_result_from_json = listing_from_json ''prompts'' prompt_from_json"

section \<open>Parameters\<close>

definition meta_to_json :: "meta \<Rightarrow> json" where
  "meta_to_json m = JObj (skip_none ''progressToken'' id (m_progress_token m))"

text \<open>The parameters of \<open>tools/list\<close>, \<open>resources/list\<close> and \<open>prompts/list\<close> have the same shape.\<close>

record list_params =
  lp_cursor :: "string option"
  lp_meta :: "meta option"

definition list_params_to_json :: "list_params \<Rightarrow> json" where
  "list_params_to_json p =
     JObj (skip_none ''cursor'' JStr (lp_cursor p) @ skip_none ''meta'' meta_to_json (lp_meta p))"

definition list_params_from_json :: "json \<Rightarrow> list_params option" where
  "list_params_from_json v =
     (case struct_fields [(''cursor'', False), (''meta'', False)] v of
        Some [a, b] \<Rightarrow>
          (case (de_option as_str a, de_option meta_from_json b) of
             (Some a', Some b') \<Rightarrow> Some \<lparr>lp_cursor = a', lp_meta = b'\<rparr>
           | _ \<Rightarrow> None)
      | _ \<Rightarrow> None)"

record tools_call_params =
  tcp_name :: string
  tcp_arguments :: json
  tcp_meta :: "meta option"

definition tools_call_params_to_json :: "tools_call_params \<Rightarrow> json" where
  "tools_call_params_to_json p =
     JObj ([(''name'', JStr (tcp_name p)), (''arguments'', tcp_arguments p)] @
           skip_none ''_meta'' meta_to_json (tcp_meta p))"

text \<open>Absent arguments are \<open>null\<close>, the default of a value.\<close>

definition tools_call_params_from_json :: "json \<Rightarrow> tools_call_params option" where
  "tools_call_params_from_json v =
     (case struct_fields [(''name'', False), (''arguments'', True), (''_meta'', False)] v of
        Some [a, b, c] \<Rightarrow>
          (case (de_required as_str a, de_option meta_from_json c) of
             (Some a', Some c') \<Rightarrow>
               Some \<lparr>tcp_name = a', tcp_arguments = (case b of Some x \<Rightarrow> x | None \<Rightarrow> JNull), tcp_meta = c'\<rparr>
           | _ \<Rightarrow> None)
      | _ \<Rightarrow> None)"

datatype logging_level =
    LevelDebug | LevelInfo | LevelNotice | LevelWarning | LevelError | LevelCritical | LevelAlert
  | LevelEmergency

fun logging_level_name :: "logging_level \<Rightarrow> string" where
  "logging_level_name LevelDebug = ''debug''"
| "logging_level_name LevelInfo = ''info''"
| "logging_level_name LevelNotice = ''notice''"
| "logging_level_name LevelWarning = ''warning''"
| "logging_level_name LevelError = ''error''"
| "logging_level_name LevelCritical = ''critical''"
| "logging_level_name LevelAlert = ''alert''"
| "logging_level_name LevelEmergency = ''emergency''"

definition logging_levels :: "logging_level list" where
  "logging_levels =
     [LevelDebug, LevelInfo, LevelNotice, LevelWarning, LevelError, LevelCritical, LevelAlert,
      LevelEmergency]"

text \<open>A unit variant: its name, or an object with the name as its only key and \<open>null\<close>.\<close>

fun logging_level_from_json :: "json \<Rightarrow> logging_level option" where
  "logging_level_from_json (JStr s) = find (\<lambda>l. logging_level_name l = s) logging_levels"
| "logging_level_from_json (JObj [(s, JNull)]) = find (\<lambda>l. logging_level_name l = s) logging_levels"
| "logging_level_from_json _ = None"

record logging_params =
  lgp_level :: logging_level
  lgp_logger :: string
  lgp_data :: json

definition logging_params_to_json :: "logging_params \<Rightarrow> json" where
  "logging_params_to_json p =
     JObj [(''level'', JStr (logging_level_name (lgp_level p))), (''logger'', JStr (lgp_logger p)),
           (''data'', lgp_data p)]"

definition logging_params_from_json :: "json \<Rightarrow> logging_params option" where
  "logging_params_from_json v =
     (case struct_fields [(''level'', False), (''logger'', False), (''data'', False)] v of
        Some [a, b, c] \<Rightarrow>
          (case (de_required logging_level_from_json a, de_required as_str b, de_required Some c) of
             (Some a', Some b', Some c') \<Rightarrow> Some \<lparr>lgp_level = a', lgp_logger = b', lgp_data = c'\<rparr>
           | _ \<Rightarrow> None)
      | _ \<Rightarrow> None)"

section \<open>Codecs\<close>

text \<open>What a pair of derived serde instances promises: what is written is read back, and is never
  \<open>null\<close> (so that it can stand in an optional field). Lists and pages follow.\<close>

locale serde_codec =
  fixes enc :: "'a \<Rightarrow> json"
    and dec :: "json \<Rightarrow> 'a option"
  assumes dec_enc: "dec (enc x) = Some x"
    and enc_ne_null: "enc x \<noteq> JNull"
begin

lemma option_roundtrip: "de_option dec (Some (enc x)) = Some (Some x)"
  by (simp add: enc_ne_null dec_enc)

lemma array_roundtrip: "from_array dec (JArr (map enc xs)) = Some xs"
  by (induction xs) (simp_all add: from_array_def dec_enc)

lemma listing_roundtrip:
  "k \<noteq> ''nextCursor'' \<Longrightarrow> listing_from_json k dec (listing_to_json k enc l) = Some l"
  by (cases "next_cursor l")
    (auto simp: listing_from_json_def listing_to_json_def struct_fields_def skip_none_def
      array_roundtrip)

end

interpretation tool: serde_codec tool_to_json tool_from_json
  by unfold_locales (rule tool_roundtrip, simp add: tool_to_json_def)

interpretation resource: serde_codec resource_to_json resource_from_json
  by unfold_locales
    (auto simp: resource_from_json_def resource_to_json_def struct_fields_def skip_none_def
      split: option.splits)

interpretation resource_contents: serde_codec resource_contents_to_json resource_contents_from_json
  by unfold_locales
    (auto simp: resource_contents_from_json_def resource_contents_to_json_def struct_fields_def
      skip_none_def opt_or_null_def split: option.splits)

lemma content_roundtrip: "content_from_json (content_to_json c) = Some c"
  by (cases c) (simp_all add: content_from_json_def resource_contents.dec_enc)

interpretation content: serde_codec content_to_json content_from_json
proof
  show "content_to_json c \<noteq> JNull" for c by (cases c) simp_all
qed (rule content_roundtrip)

interpretation prompt_argument: serde_codec prompt_argument_to_json prompt_argument_from_json
  by unfold_locales
    (auto simp: prompt_argument_from_json_def prompt_argument_to_json_def struct_fields_def
      skip_none_def split: option.splits)

interpretation prompt: serde_codec prompt_to_json prompt_from_json
  by unfold_locales
    (auto simp: prompt_from_json_def prompt_to_json_def struct_fields_def skip_none_def
      prompt_argument.array_roundtrip split: option.splits)

lemma logging_level_roundtrip: "logging_level_from_json (JStr (logging_level_name l)) = Some l"
  by (cases l) (simp_all add: logging_levels_def)

interpretation logging: serde_codec logging_params_to_json logging_params_from_json
  by unfold_locales
    (simp_all add: logging_params_from_json_def logging_params_to_json_def struct_fields_def
      logging_level_roundtrip del: logging_level_from_json.simps)

text \<open>A progress token that is \<open>null\<close> is read back as an absent one.\<close>

definition token_ok :: "meta option \<Rightarrow> bool" where
  "token_ok m = (Option.bind m m_progress_token \<noteq> Some JNull)"

lemma meta_roundtrip: "token_ok (Some m) \<Longrightarrow> meta_from_json (meta_to_json m) = Some m"
  by (cases "m_progress_token m")
    (auto simp: meta_from_json_def meta_to_json_def struct_fields_def skip_none_def token_ok_def)

lemma meta_to_json_object: "meta_to_json m \<noteq> JNull"
  by (simp add: meta_to_json_def)

section \<open>Properties\<close>

text \<open>The parameter structs survive serialisation too, up to a progress token that is \<open>null\<close>. But
  the listing requests read their metadata from a member \<open>meta\<close>: the member \<open>_meta\<close> that the
  protocol names, and that \<open>tools/call\<close> reads, is lost.\<close>

theorem params_roundtrip:
  assumes "token_ok (lp_meta p)" "token_ok (tcp_meta q)"
  shows "list_params_from_json (list_params_to_json p) = Some p \<and>
         tools_call_params_from_json (tools_call_params_to_json q) = Some q \<and>
         list_params_from_json (JObj [(''_meta'', v)]) = Some \<lparr>lp_cursor = None, lp_meta = None\<rparr>"
proof (intro conjI)
  show "list_params_from_json (list_params_to_json p) = Some p"
    using assms(1) meta_roundtrip
    by (cases "lp_cursor p"; cases "lp_meta p")
      (auto simp: list_params_from_json_def list_params_to_json_def struct_fields_def skip_none_def
        meta_to_json_object)
  show "tools_call_params_from_json (tools_call_params_to_json q) = Some q"
    using assms(2) meta_roundtrip
    by (cases "tcp_meta q")
      (auto simp: tools_call_params_from_json_def tools_call_params_to_json_def struct_fields_def
        skip_none_def meta_to_json_object)
qed (simp add: list_params_from_json_def struct_fields_def)

lemma params_roundtrip_witness:
  "tools_call_params_from_json (tools_call_params_to_json
     \<lparr>tcp_name = ''t'', tcp_arguments = JNull, tcp_meta = Some \<lparr>m_progress_token = Some (JStr ''7'')\<rparr>\<rparr>) =
   Some \<lparr>tcp_name = ''t'', tcp_arguments = JNull, tcp_meta = Some \<lparr>m_progress_token = Some (JStr ''7'')\<rparr>\<rparr>"
  by (rule params_roundtrip [where p = "\<lparr>lp_cursor = None, lp_meta = None\<rparr>", THEN conjunct2, THEN conjunct1])
    (simp_all add: token_ok_def)

text \<open>C36: The payload structs survive serialisation: the results of \<open>tools/call\<close>, \<open>tools/list\<close>,
  \<open>resources/list\<close> and \<open>prompts/list\<close> are read back as they were written. But an image block
  with the member \<open>mimeType\<close>, as the protocol names it, is not read: the struct variant's field is
  not renamed.\<close>

theorem payloads_roundtrip:
  "tools_call_result_from_json (tools_call_result_to_json r) = Some r \<and>
   tools_list_result_from_json (tools_list_result_to_json lt) = Some lt \<and>
   resources_list_result_from_json (resources_list_result_to_json lr) = Some lr \<and>
   prompts_list_result_from_json (prompts_list_result_to_json lp) = Some lp \<and>
   content_from_json (JObj [(''type'', JStr ''image''), (''data'', JStr d), (''mimeType'', JStr m)]) = None"
proof (intro conjI)
  show "tools_call_result_from_json (tools_call_result_to_json r) = Some r"
    by (cases "tcr_is_error r")
      (auto simp: tools_call_result_from_json_def tools_call_result_to_json_def struct_fields_def
        skip_none_def content.array_roundtrip)
  show "content_from_json (JObj [(''type'', JStr ''image''), (''data'', JStr d), (''mimeType'', JStr m)]) = None"
    by (simp add: content_from_json_def)
qed (simp_all add: tools_list_result_from_json_def tools_list_result_to_json_def
      resources_list_result_from_json_def resources_list_result_to_json_def
      prompts_list_result_from_json_def prompts_list_result_to_json_def
      tool.listing_roundtrip resource.listing_roundtrip prompt.listing_roundtrip)

end
