(* ===== verification/Jwt.thy ===== *)
theory Jwt
  imports Errors
begin

text \<open>
  \<open>src/auth/jwt.rs\<close>: bearer tokens, the choice of the decoding key, the validation rules handed to
  the JWT library, and the typed claims. Reading the header of a token and checking its signature
  and standard claims is the library's business and a parameter (\<open>jwt_lib\<close>); so is the type of
  the keys of a key set.
\<close>

section \<open>White space\<close>

text \<open>\<open>str::split_whitespace\<close>: the word read so far, then the rest of the text.\<close>

function split_ws :: "string \<Rightarrow> string \<Rightarrow> string list" where
  "split_ws acc s =
     (case s of
        [] \<Rightarrow> (if acc = [] then [] else [acc])
      | c # r \<Rightarrow>
          (case find (\<lambda>w. prefix w s) ws_chars of
             Some w \<Rightarrow> (if acc = [] then [] else [acc]) @ split_ws [] (drop (length w) s)
           | None \<Rightarrow> split_ws (acc @ [c]) r))"
  by pat_completeness auto

termination
proof (relation "measure (\<lambda>(acc, s). length s)")
  fix acc s :: string and c r w
  assume "s = c # r" "find (\<lambda>w. prefix w s) ws_chars = Some w"
  moreover from this have "w \<noteq> []"
    using ws_chars_ne by (auto simp: find_Some_iff)
  ultimately show "(([], drop (length w) s), acc, s) \<in> measure (\<lambda>(acc, s). length s)"
    by simp
qed simp_all

declare split_ws.simps [simp del]

definition split_whitespace :: "string \<Rightarrow> string list" where
  "split_whitespace s = split_ws [] s"

section \<open>Types\<close>

datatype jwt_algorithm =
    HS256 | HS384 | HS512 | RS256 | RS384 | RS512 | ES256 | ES384 | OtherAlgorithm string

text \<open>The \<open>Debug\<close> text of an algorithm.\<close>

fun algorithm_debug :: "jwt_algorithm \<Rightarrow> string" where
  "algorithm_debug HS256 = ''HS256''"
| "algorithm_debug HS384 = ''HS384''"
| "algorithm_debug HS512 = ''HS512''"
| "algorithm_debug RS256 = ''RS256''"
| "algorithm_debug RS384 = ''RS384''"
| "algorithm_debug RS512 = ''RS512''"
| "algorithm_debug ES256 = ''ES256''"
| "algorithm_debug ES384 = ''ES384''"
| "algorithm_debug (OtherAlgorithm n) = n"

record jwt_claims =
  sub :: "string option"
  iss :: "string option"
  aud :: "string list option"
  exp_time :: "u64 option"
  nbf :: "u64 option"
  iat :: "u64 option"
  claim_scope :: "string list option"
  jti :: "string option"
  extra_claims :: json

record jwt_config =
  hmac_secret :: "string option"
  jwks_url :: "string option"
  expected_issuer :: "string option"
  expected_audience :: "string option"
  algorithms :: "jwt_algorithm list"
  validate_exp :: bool
  leeway :: u64

text \<open>The default's \<open>algorithms\<close>, in the order of the source.\<close>

definition jwt_config_default :: jwt_config where
  "jwt_config_default =
     \<lparr>hmac_secret = None, jwks_url = None, expected_issuer = None, expected_audience = None,
      algorithms = [RS256, RS384, RS512, ES256, ES384, HS256, HS384, HS512],
      validate_exp = True, leeway = 30\<rparr>"

text \<open>What the code sets of the library's \<open>Validation\<close>; \<open>None\<close> leaves the library's default.\<close>

record validation =
  v_algorithm :: jwt_algorithm
  v_issuers :: "string list option"
  v_audiences :: "string list option"
  v_exp :: bool
  v_leeway :: u64
  v_required :: "string list"

datatype 'k decoding_key = SecretKey string | SetKey 'k

record 'k jwt_lib =
  decode_header :: "string \<Rightarrow> (jwt_algorithm, string) result"
  decode_token :: "string \<Rightarrow> 'k decoding_key \<Rightarrow> validation \<Rightarrow> (json, string) result"

record 'k jwt_validator =
  jwt_cfg :: jwt_config
  jwks_keys :: "'k list"

section \<open>The validator\<close>

definition validator_new :: "jwt_config \<Rightarrow> 'k jwt_validator" where
  "validator_new c = \<lparr>jwt_cfg = c, jwks_keys = []\<rparr>"

definition with_hmac_secret :: "string \<Rightarrow> string option \<Rightarrow> 'k jwt_validator" where
  "with_hmac_secret secret issuer =
     validator_new (jwt_config_default\<lparr>hmac_secret := Some secret, expected_issuer := issuer,
       algorithms := [HS256]\<rparr>)"

definition get_decoding_key ::
  "'k jwt_validator \<Rightarrow> jwt_algorithm \<Rightarrow> ('k decoding_key, mcp_error) result" where
  "get_decoding_key v alg =
    (if alg \<in> {HS256, HS384, HS512} then
       (case hmac_secret (jwt_cfg v) of
          None \<Rightarrow> Err (JwtError ''HMAC algorithm requires a configured jwt_secret'')
        | Some secret \<Rightarrow> Ok (SecretKey secret))
     else if alg \<in> {RS256, RS384, RS512, ES256, ES384} then
       (case jwks_keys v of
          [] \<Rightarrow> Err (JwtError (fmt [''No JWKS keys loaded for algorithm '', algorithm_debug alg,
                                  ''. Configure jwks_url.'']))
        | key # _ \<Rightarrow> Ok (SetKey key))
     else Err (JwtError (fmt [''Unsupported JWT algorithm: '', algorithm_debug alg])))"

definition build_validation :: "jwt_config \<Rightarrow> jwt_algorithm \<Rightarrow> validation" where
  "build_validation c alg =
     \<lparr>v_algorithm = alg, v_issuers = map_option (\<lambda>i. [i]) (expected_issuer c),
      v_audiences = map_option (\<lambda>a. [a]) (expected_audience c),
      v_exp = validate_exp c, v_leeway = leeway c, v_required = []\<rparr>"

definition claim_str :: "json \<Rightarrow> string \<Rightarrow> string option" where
  "claim_str claims k = Option.bind (jget claims k) as_str"

definition claim_u64 :: "json \<Rightarrow> string \<Rightarrow> u64 option" where
  "claim_u64 claims k = Option.bind (jget claims k) as_u64"

text \<open>A set of audiences: the strings of an array, others are skipped.\<close>

fun audiences :: "json \<Rightarrow> string list option" where
  "audiences (JStr s) = Some [s]"
| "audiences (JArr xs) = Some (remdups (List.map_filter as_str xs))"
| "audiences _ = None"

definition extract_claims :: "json \<Rightarrow> jwt_claims" where
  "extract_claims claims =
     \<lparr>sub = claim_str claims ''sub'', iss = claim_str claims ''iss'',
      aud = Option.bind (jget claims ''aud'') audiences,
      exp_time = claim_u64 claims ''exp'', nbf = claim_u64 claims ''nbf'',
      iat = claim_u64 claims ''iat'',
      claim_scope = map_option split_whitespace (claim_str claims ''scope''),
      jti = claim_str claims ''jti'', extra_claims = claims\<rparr>"

definition validate_token ::
  "'k jwt_lib \<Rightarrow> 'k jwt_validator \<Rightarrow> string \<Rightarrow> (jwt_claims, mcp_error) result" where
  "validate_token L v token =
    (case decode_header L token of
       Err e \<Rightarrow> Err (JwtError (fmt [''Failed to decode JWT header: '', e]))
     | Ok alg \<Rightarrow>
         (case get_decoding_key v alg of
            Err e \<Rightarrow> Err e
          | Ok key \<Rightarrow>
              (case decode_token L token key (build_validation (jwt_cfg v) alg) of
                 Err e \<Rightarrow> Err (JwtError (fmt [''JWT validation failed: '', e]))
               | Ok claims \<Rightarrow> Ok (extract_claims claims))))"

definition extract_bearer_token :: "string \<Rightarrow> (string, mcp_error) result" where
  "extract_bearer_token auth_header =
    (case splitn2 (CHR '' '') auth_header of
       [scheme, rest] \<Rightarrow>
         if scheme \<noteq> ''Bearer'' then
           Err (Unauthorized ''Invalid Authorization header format. Expected: Bearer <token>'')
         else if trim rest = [] then Err (Unauthorized ''Empty Bearer token'')
         else Ok (trim rest)
     | _ \<Rightarrow> Err (Unauthorized ''Invalid Authorization header format. Expected: Bearer <token>''))"

text \<open>The refresh of the key set only logs.\<close>

definition refresh_jwks :: "'k jwt_validator \<Rightarrow> (unit, mcp_error) result \<times> 'k jwt_validator" where
  "refresh_jwks v = (Ok (), v)"

section \<open>Lemmas\<close>

text \<open>Graphic ASCII characters start no white space.\<close>

definition graphic :: "char \<Rightarrow> bool" where
  "graphic c = (of_char c \<in> {0x21..(0x7E::nat)})"

lemma ws_not_graphic: "list_all (\<lambda>w. \<not> graphic (hd w)) ws_chars"
  by code_simp

lemma graphic_no_ws: "graphic c \<Longrightarrow> find (\<lambda>w. prefix w (c # s)) ws_chars = None"
proof -
  assume c: "graphic c"
  have "\<not> prefix w (c # s)" if w: "w \<in> set ws_chars" for w
  proof
    assume "prefix w (c # s)"
    then have "hd w = c" using ws_chars_ne [OF w] by (cases w) auto
    with c w ws_not_graphic show False by (auto simp: list_all_iff)
  qed
  then show ?thesis by (simp add: find_None_iff)
qed

lemma split_ws_graphic:
  "list_all graphic w \<Longrightarrow> split_ws acc (w @ s) = split_ws (acc @ w) s"
proof (induction w arbitrary: acc)
  case (Cons c w)
  then have "split_ws acc ((c # w) @ s) = split_ws (acc @ [c]) (w @ s)"
    by (subst split_ws.simps) (simp add: graphic_no_ws)
  with Cons show ?case by simp
qed simp

lemma split_ws_space: "split_ws acc (CHR '' '' # s) = (if acc = [] then [] else [acc]) @ split_ws [] s"
  by (subst split_ws.simps) (simp add: ws_chars_def)

lemma split_ws_Nil: "split_ws acc [] = (if acc = [] then [] else [acc])"
  by (subst split_ws.simps) simp

lemma split_whitespace_join:
  "list_all (\<lambda>w. w \<noteq> [] \<and> list_all graphic w) ws \<Longrightarrow> split_whitespace (join '' '' ws) = ws"
  unfolding split_whitespace_def
proof (induction ws)
  case (Cons w ws)
  then show ?case
    using split_ws_graphic [of w "[]" "[]"] split_ws_graphic [of w "[]" "CHR '' '' # join '' '' ws"]
    by (simp add: join_Cons split_ws_Nil split_ws_space)
qed (simp add: split_ws_Nil)

lemma refresh_keeps: "((snd \<circ> refresh_jwks) ^^ n) v = v"
  by (induction n) (simp_all add: refresh_jwks_def)

section \<open>Properties\<close>

text \<open>C35: What a validator accepts, after any refreshes of its key set: a token whose header names one
  of the three HMAC algorithms, and which the library accepts under the configured secret for that
  algorithm, with the configured issuer and audience and no claim required to be present. Tokens
  of all other algorithms are rejected: a key set is never loaded.\<close>

theorem accepted_tokens:
  "validate_token L (((snd \<circ> refresh_jwks) ^^ n) (validator_new c)) token = Ok cl \<longleftrightarrow>
     (\<exists>alg secret claims.
        decode_header L token = Ok alg \<and> alg \<in> {HS256, HS384, HS512} \<and>
        hmac_secret c = Some secret \<and>
        decode_token L token (SecretKey secret)
          \<lparr>v_algorithm = alg, v_issuers = map_option (\<lambda>i. [i]) (expected_issuer c),
           v_audiences = map_option (\<lambda>a. [a]) (expected_audience c),
           v_exp = validate_exp c, v_leeway = leeway c, v_required = []\<rparr> = Ok claims \<and>
        cl = extract_claims claims)"
  by (auto simp: refresh_keeps validate_token_def get_decoding_key_def validator_new_def
      build_validation_def split: result.splits if_splits option.splits)

text \<open>The configured list of allowed algorithms is never looked at: a validator made for HS256
  gives every token the same verdict as one with any other list, so HS384 and HS512 tokens pass
  too.\<close>

theorem allowed_algorithms_ignored:
  "validate_token L (v\<lparr>jwt_cfg := (jwt_cfg v)\<lparr>algorithms := algs\<rparr>\<rparr>) token = validate_token L v token"
proof -
  have "get_decoding_key (v\<lparr>jwt_cfg := (jwt_cfg v)\<lparr>algorithms := algs\<rparr>\<rparr>) = get_decoding_key v"
    by (rule ext) (simp add: get_decoding_key_def)
  moreover have "build_validation ((jwt_cfg v)\<lparr>algorithms := algs\<rparr>) = build_validation (jwt_cfg v)"
    by (rule ext) (simp add: build_validation_def)
  ultimately show ?thesis by (simp add: validate_token_def cong: result.case_cong)
qed

text \<open>The tokens taken from an \<open>Authorization\<close> header: the scheme is exactly \<open>Bearer\<close>, followed by
  one space, and what follows, without surrounding white space, is not empty and is the token.
  Everything else is an \<open>Unauthorized\<close> error.\<close>

theorem bearer_token_format:
  "(extract_bearer_token h = Ok t \<longleftrightarrow>
      (\<exists>rest. h = ''Bearer '' @ rest \<and> t = trim rest \<and> t \<noteq> [])) \<and>
   (is_ok (extract_bearer_token h) \<or> (\<exists>m. extract_bearer_token h = Err (Unauthorized m)))"
proof (cases rule: splitn2_cases [of "CHR '' ''" h])
  case 1
  then show ?thesis by (auto simp: extract_bearer_token_def)
next
  case (2 a b)
  have "(\<exists>rest. h = ''Bearer '' @ rest \<and> P rest) \<longleftrightarrow> a = ''Bearer'' \<and> P b" for P
  proof
    assume "\<exists>rest. h = ''Bearer '' @ rest \<and> P rest"
    then obtain rest where "h = ''Bearer'' @ CHR '' '' # rest" "P rest" by auto
    moreover from this have "splitn2 (CHR '' '') h = [''Bearer'', rest]"
      using splitn2_Cons [of "CHR '' ''" "''Bearer''" rest] by simp
    ultimately show "a = ''Bearer'' \<and> P b" using 2(3) by simp
  qed (use 2(1) in auto)
  then show ?thesis
    unfolding extract_bearer_token_def 2(3) by auto
qed

text \<open>Scopes written into a token's claim \<open>scope\<close>, separated by single spaces, are the scopes read
  from it: nothing is lost, joined or split. (Scopes given as an array are not read at all.)\<close>

theorem scope_claim_roundtrip:
  assumes "list_all (\<lambda>w. w \<noteq> [] \<and> list_all graphic w) scopes"
  shows "claim_scope (extract_claims (JObj ((''scope'', JStr (join '' '' scopes)) # rest))) = Some scopes \<and>
         claim_scope (extract_claims (JObj ((''scope'', JArr xs) # rest))) = None"
  by (simp add: extract_claims_def claim_str_def split_whitespace_join [OF assms])

lemma scope_claim_roundtrip_witness:
  "claim_scope (extract_claims (JObj [(''scope'', JStr ''mcp:tools:read mcp:tools:call'')])) =
     Some [''mcp:tools:read'', ''mcp:tools:call'']"
proof -
  have "list_all (\<lambda>w. w \<noteq> [] \<and> list_all graphic w) [''mcp:tools:read'', ''mcp:tools:call'']"
    by code_simp
  from scope_claim_roundtrip [OF this] show ?thesis by simp
qed

end
