(* ===== verification/Unit_Tests.thy ===== *)
theory Unit_Tests
  imports Registry Scope Echo_Server Payloads Proxy Jwt
begin

text \<open>
  The program's own unit tests, run on the model: the \<open>#[cfg(test)]\<close> modules of the files under
  \<open>src/\<close>. A test is the conjunction of its assertions; an \<open>unwrap\<close> is an assertion too. JSON text
  is given as the value it denotes, and a clock reading or a fresh identifier is an argument. Tests
  of what a library computes (the verdict of a regular expression, of a Cedar policy, of a
  signature) are left out. This theory holds the tests of the components without a clock, the
  theory \<open>State_Tests\<close> those of the others.
\<close>

section \<open>Assertions\<close>

definition unwrap_and :: "('a, 'e) result \<Rightarrow> ('a \<Rightarrow> bool) \<Rightarrow> bool" where
  "unwrap_and r p = (case r of Ok a \<Rightarrow> p a | Err _ \<Rightarrow> False)"

definition unwrap_err_and :: "('a, 'e) result \<Rightarrow> ('e \<Rightarrow> bool) \<Rightarrow> bool" where
  "unwrap_err_and r p = (case r of Ok _ \<Rightarrow> False | Err e \<Rightarrow> p e)"

definition some_and :: "'a option \<Rightarrow> ('a \<Rightarrow> bool) \<Rightarrow> bool" where
  "some_and x p = (case x of Some a \<Rightarrow> p a | None \<Rightarrow> False)"

lemmas asserts = unwrap_and_def unwrap_err_and_def some_and_def

text \<open>A step whose error would make the test panic.\<close>

definition then_with :: "('a, 'e) result \<times> 's \<Rightarrow> ('s \<Rightarrow> bool) \<Rightarrow> bool" where
  "then_with x p = (is_ok (fst x) \<and> p (snd x))"

section \<open>Scopes\<close>

definition test_permissive_allows_all :: bool where
  "test_permissive_allows_all =
    (let enforcer = enforcer_permissive in
     is_ok (check_method enforcer ''tools/call'') \<and>
     is_ok (check_method enforcer ''shutdown'') \<and>
     is_ok (check_tool_access enforcer ''com.example.echo''))"

definition test_tools_read_allows_list :: bool where
  "test_tools_read_allows_list =
    (let enforcer = enforcer_new [SCOPE_TOOLS_READ] in
     is_ok (check_method enforcer ''tools/list'') \<and>
     is_ok (check_method enforcer ''resources/list''))"

definition test_tools_call_denied_without_scope :: bool where
  "test_tools_call_denied_without_scope =
    (let enforcer = enforcer_new [SCOPE_TOOLS_READ] in
     \<not> is_ok (check_method enforcer ''tools/call''))"

definition test_tools_call_allowed_with_scope :: bool where
  "test_tools_call_allowed_with_scope =
    (let enforcer = enforcer_new [SCOPE_TOOLS_CALL] in
     is_ok (check_method enforcer ''tools/call''))"

definition test_shutdown_requires_admin :: bool where
  "test_shutdown_requires_admin =
    (let enforcer = enforcer_new [SCOPE_TOOLS_CALL]; admin = enforcer_new [SCOPE_ADMIN] in
     \<not> is_ok (check_method enforcer ''shutdown'') \<and>
     is_ok (check_method admin ''shutdown''))"

definition test_initialize_always_allowed :: bool where
  "test_initialize_always_allowed =
    (let enforcer = enforcer_new [] in
     is_ok (check_method enforcer ''initialize'') \<and>
     is_ok (check_method enforcer ''notifications/initialized'') \<and>
     is_ok (check_method enforcer ''ping''))"

definition test_per_tool_prefix_scope :: bool where
  "test_per_tool_prefix_scope =
    (let enforcer = enforcer_new [fmt [SCOPE_TOOLS_CALL, '':com.example'']] in
     is_ok (check_tool_access enforcer ''com.example:echo'') \<and>
     \<not> is_ok (check_method enforcer ''tools/call'') \<and>
     \<not> is_ok (check_tool_access enforcer ''com.other:search''))"

definition test_exact_tool_scope :: bool where
  "test_exact_tool_scope =
    (let enforcer = enforcer_new [fmt [SCOPE_TOOLS_CALL, '':com.example:echo'']] in
     is_ok (check_tool_access enforcer ''com.example:echo'') \<and>
     \<not> is_ok (check_tool_access enforcer ''com.example:delete''))"

definition test_has_scope_prefix :: bool where
  "test_has_scope_prefix =
    (let enforcer = enforcer_new [''mcp:tools:call:com.example''] in
     has_scope_prefix enforcer ''mcp:tools:call:com.example'' \<and>
     has_scope_prefix enforcer ''mcp:tools:call'' \<and>
     \<not> has_scope_prefix enforcer ''mcp:resources'')"

lemma scope_tests:
  "test_permissive_allows_all" "test_tools_read_allows_list" "test_tools_call_denied_without_scope"
  "test_tools_call_allowed_with_scope" "test_shutdown_requires_admin" "test_initialize_always_allowed"
  "test_per_tool_prefix_scope" "test_exact_tool_scope" "test_has_scope_prefix"
  by code_simp+

section \<open>The registry\<close>

definition make_tool :: "string \<Rightarrow> tool" where
  "make_tool name =
     \<lparr>t_name = name, t_description = Some (fmt [name, '' tool'']),
      t_input_schema = JObj [(''type'', JStr ''object'')], t_annotations = None\<rparr>"

definition registers :: "string \<Rightarrow> string \<Rightarrow> registry \<Rightarrow> (registry \<Rightarrow> bool) \<Rightarrow> bool" where
  "registers name srv r p = then_with (register_tool (make_tool name) srv 0 r) p"

definition refuses :: "string \<Rightarrow> string \<Rightarrow> registry \<Rightarrow> (string \<Rightarrow> bool) \<Rightarrow> bool" where
  "refuses name srv r p =
     unwrap_err_and (fst (register_tool (make_tool name) srv 0 r)) (\<lambda>e. p (error_text e))"

definition test_register_and_lookup :: bool where
  "test_register_and_lookup =
     registers ''com.example:echo'' ''server-1'' registry_new (\<lambda>r.
     some_and (lookup r ''com.example:echo'') (\<lambda>tool.
       rt_prefix tool = ''com.example'' \<and> rt_name tool = ''echo'' \<and> server_id tool = ''server-1''))"

definition test_collision_detection :: bool where
  "test_collision_detection =
     registers ''com.example:echo'' ''server-1'' registry_new (\<lambda>r.
     refuses ''com.example:echo'' ''server-2'' r (\<lambda>err.
       str_contains err ''collision'' \<and> str_contains err ''server-1''))"

definition test_reject_underscore_concatenation :: bool where
  "test_reject_underscore_concatenation =
     unwrap_err_and (lookup_any registry_new ''github_search_issues'')
       (\<lambda>e. str_contains (error_text e) ''Ambiguous'')"

definition test_reject_no_colon :: bool where
  "test_reject_no_colon =
     refuses ''search'' ''server-1'' registry_new (\<lambda>err. str_contains err ''qualified format'')"

definition test_reject_empty_prefix :: bool where
  "test_reject_empty_prefix = refuses '':echo'' ''server-1'' registry_new (\<lambda>_. True)"

definition test_reject_prefix_without_dot :: bool where
  "test_reject_prefix_without_dot =
     refuses ''example:echo'' ''server-1'' registry_new (\<lambda>err. str_contains err ''dot'')"

definition test_reject_uppercase_in_name :: bool where
  "test_reject_uppercase_in_name =
     refuses ''com.example:Echo'' ''server-1'' registry_new
       (\<lambda>err. str_contains err ''invalid characters'')"

definition test_allowed_prefixes_filter :: bool where
  "test_allowed_prefixes_filter =
     registers ''com.example:echo'' ''server-1'' (registry_with_config True [''com.example'']) (\<lambda>r.
     refuses ''com.other:search'' ''server-1'' r
       (\<lambda>err. str_contains err ''not in the allowed prefixes''))"

definition test_unregister_server :: bool where
  "test_unregister_server =
     registers ''com.example:echo'' ''server-1'' registry_new (\<lambda>r1.
     registers ''com.example:search'' ''server-1'' r1 (\<lambda>r2.
       registry_count r2 = 2 \<and>
       (let (removed, r3) = unregister_server ''server-1'' r2
        in removed = 2 \<and> registry_count r3 = 0)))"

definition test_list_tools :: bool where
  "test_list_tools =
     registers ''com.example:echo'' ''server-1'' registry_new (\<lambda>r1.
     registers ''com.github:create_pr'' ''server-2'' r1 (\<lambda>r2.
       length (list_tools (\<lambda>xs. xs) r2) = 2))"

definition test_list_tools_by_server :: bool where
  "test_list_tools_by_server =
     registers ''com.example:echo'' ''server-1'' registry_new (\<lambda>r1.
     registers ''com.github:create_pr'' ''server-2'' r1 (\<lambda>r2.
       (let tools = list_tools_by_server r2 ''server-1''
        in length tools = 1 \<and> t_name (tools ! 0) = ''com.example:echo'')))"

lemma lookup_tests: "test_register_and_lookup" "test_reject_underscore_concatenation" "test_unregister_server"
  by code_simp+

lemma collision_tests: "test_collision_detection" "test_allowed_prefixes_filter"
  by code_simp+

lemma name_format_tests: "test_reject_no_colon" "test_reject_empty_prefix" "test_reject_prefix_without_dot"
  by code_simp+

lemma name_character_tests: "test_reject_uppercase_in_name"
  by code_simp

lemma list_tests: "test_list_tools" "test_list_tools_by_server"
  by code_simp+

section \<open>JSON-RPC messages\<close>

definition request_json :: "json list \<Rightarrow> string \<Rightarrow> (string \<times> json) list \<Rightarrow> json" where
  "request_json ids method rest =
     JObj ([(''jsonrpc'', JStr ''2.0'')] @ map (Pair ''id'') ids @ [(''method'', JStr method)] @ rest)"

definition int_json :: "int \<Rightarrow> json" where
  "int_json n = of_i64 (word_of_int n)"

definition test_parse_request_with_string_id :: "serde_msg \<Rightarrow> bool" where
  "test_parse_request_with_string_id S =
     unwrap_and (parse S (request_json [JStr ''abc''] ''tools/list'' [(''params'', JObj [])]))
       (\<lambda>msg. case msg of
          Request i method params \<Rightarrow>
            i = IdString ''abc'' \<and> method = ''tools/list'' \<and> params \<noteq> None
        | _ \<Rightarrow> False)"

definition test_parse_request_with_integer_id :: "serde_msg \<Rightarrow> bool" where
  "test_parse_request_with_integer_id S =
     unwrap_and (parse S (request_json [int_json 42] ''ping'' []))
       (\<lambda>msg. case msg of
          Request i method params \<Rightarrow> i = IdInteger 42 \<and> method = ''ping'' \<and> params = None
        | _ \<Rightarrow> False)"

definition test_parse_notification :: "serde_msg \<Rightarrow> bool" where
  "test_parse_notification S =
     unwrap_and (parse S (request_json [] ''notifications/initialized'' []))
       (\<lambda>msg. case msg of
          Notification method params \<Rightarrow> method = ''notifications/initialized'' \<and> params = None
        | _ \<Rightarrow> False)"

definition test_parse_success_response :: "serde_msg \<Rightarrow> bool" where
  "test_parse_success_response S =
     unwrap_and (parse S (JObj [(''jsonrpc'', JStr ''2.0''), (''id'', int_json 1),
                                (''result'', JObj [(''tools'', JArr [])])]))
       (\<lambda>msg. case msg of
          Success i result \<Rightarrow> i = IdInteger 1 \<and> jget result ''tools'' = Some (JArr [])
        | _ \<Rightarrow> False)"

definition test_parse_error_response :: "serde_msg \<Rightarrow> bool" where
  "test_parse_error_response S =
     unwrap_and (parse S (JObj [(''jsonrpc'', JStr ''2.0''), (''id'', int_json 1),
         (''error'', JObj [(''code'', int_json (- 32601)), (''message'', JStr ''Method not found'')])]))
       (\<lambda>msg. case msg of
          Error i err \<Rightarrow> i = IdInteger 1 \<and> eo_code err = - 32601
        | _ \<Rightarrow> False)"

definition test_parse_batch :: "serde_msg \<Rightarrow> bool" where
  "test_parse_batch S =
     unwrap_and (parse S (JArr [request_json [int_json 1] ''tools/list'' [],
                                request_json [int_json 2] ''ping'' []]))
       (\<lambda>msg. case msg of Batch msgs \<Rightarrow> length msgs = 2 | _ \<Rightarrow> False)"

definition test_reject_null_id_in_request :: "serde_msg \<Rightarrow> bool" where
  "test_reject_null_id_in_request S =
     unwrap_err_and (parse S (request_json [JNull] ''ping'' []))
       (\<lambda>e. case e of InvalidRequest msg \<Rightarrow> str_contains msg ''null'' | _ \<Rightarrow> False)"

definition test_reject_invalid_jsonrpc_version :: "serde_msg \<Rightarrow> bool" where
  "test_reject_invalid_jsonrpc_version S =
     (\<not> is_ok (parse S (JObj [(''jsonrpc'', JStr ''1.0''), (''id'', int_json 1), (''method'', JStr ''ping'')])))"

definition test_reject_empty_batch :: "serde_msg \<Rightarrow> bool" where
  "test_reject_empty_batch S = (\<not> is_ok (parse S (JArr [])))"

text \<open>For every codec that does not read the text.\<close>

definition test_reject_malformed_json :: "json_codec \<Rightarrow> serde_msg \<Rightarrow> bool" where
  "test_reject_malformed_json C S =
     unwrap_err_and (from_str C S ''{not json}'')
       (\<lambda>e. case e of mcp_error.ParseError _ \<Rightarrow> True | _ \<Rightarrow> False)"

definition test_roundtrip_request :: "json_codec \<Rightarrow> serde_msg \<Rightarrow> bool" where
  "test_roundtrip_request C S =
    (let original = Request (IdInteger 1) ''tools/call'' (Some (JObj [(''name'', JStr ''echo'')]))
     in unwrap_and (from_str C S (to_json_string C original))
          (\<lambda>msg. case msg of
             Request i method params \<Rightarrow>
               i = IdInteger 1 \<and> method = ''tools/call'' \<and>
               some_and params (\<lambda>p. jget p ''name'' = Some (JStr ''echo''))
           | _ \<Rightarrow> False))"

definition test_roundtrip_notification :: "json_codec \<Rightarrow> serde_msg \<Rightarrow> bool" where
  "test_roundtrip_notification C S =
    (let original = Notification ''notifications/initialized'' None
     in unwrap_and (from_str C S (to_json_string C original))
          (\<lambda>msg. is_notification msg \<and> msg_method msg = Some ''notifications/initialized''))"

definition test_reject_non_object_message :: "serde_msg \<Rightarrow> bool" where
  "test_reject_non_object_message S =
     unwrap_err_and (parse S (JStr ''hello'')) (\<lambda>e. case e of InvalidRequest _ \<Rightarrow> True | _ \<Rightarrow> False)"

definition test_method_not_found_response :: bool where
  "test_method_not_found_response =
     (case method_not_found_response (IdInteger 1) ''foo/bar'' of
        Error i err \<Rightarrow> i = IdInteger 1 \<and> eo_code err = METHOD_NOT_FOUND
      | _ \<Rightarrow> False)"

lemmas parse_defs =
  asserts request_json_def int_json_def parse_def parse_single_def JSONRPC_VERSION_def parse_id_def
  error_obj_from_json_def as_i64_of_i64

lemma parse_tests:
  "test_parse_request_with_string_id S" "test_parse_request_with_integer_id S" "test_parse_notification S"
  "test_parse_success_response S" "test_parse_error_response S" "test_parse_batch S"
  "test_reject_null_id_in_request S" "test_reject_invalid_jsonrpc_version S" "test_reject_empty_batch S"
  "test_reject_non_object_message S" "test_method_not_found_response"
  by code_simp+

lemma text_tests:
  assumes "codec_ok C" "\<not> is_ok (from_text C ''{not json}'')"
  shows "test_reject_malformed_json C S" "test_roundtrip_request C S" "test_roundtrip_notification C S"
proof -
  show "test_reject_malformed_json C S"
    using assms(2) by (cases "from_text C ''{not json}''")
      (auto simp: test_reject_malformed_json_def from_str_def unwrap_err_and_def)
  have R: "from_text C (to_json_string C m) = Ok (to_value m)"
    if "json_value (to_value m)" "float_free (to_value m)" for m
    unfolding to_json_string_def by (rule codec_ok_text [OF assms(1) that])
  have P: "parse S (to_value (Request (IdInteger 1) ''tools/call'' (Some (JObj [(''name'', JStr ''echo'')])))) =
      Ok (Request (IdInteger 1) ''tools/call'' (Some (JObj [(''name'', JStr ''echo'')])))"
    "parse S (to_value (Notification ''notifications/initialized'' None)) =
      Ok (Notification ''notifications/initialized'' None)"
    by (rule parse_to_value; simp add: wf_message_def)+
  have V: "json_value (to_value (Request (IdInteger 1) ''tools/call'' (Some (JObj [(''name'', JStr ''echo'')]))))"
      "float_free (to_value (Request (IdInteger 1) ''tools/call'' (Some (JObj [(''name'', JStr ''echo'')]))))"
      "json_value (to_value (Notification ''notifications/initialized'' None))"
      "float_free (to_value (Notification ''notifications/initialized'' None))"
    by code_simp+
  show "test_roundtrip_request C S" "test_roundtrip_notification C S"
    using R [OF V(1,2)] R [OF V(3,4)] P
    by (simp_all add: test_roundtrip_request_def test_roundtrip_notification_def from_str_def Let_def asserts)
qed

section \<open>Error codes and responses\<close>

definition test_error_codes :: bool where
  "test_error_codes =
     (error_code (ParseError ''bad json'') = PARSE_ERROR \<and>
      error_code (Unauthorized ''no token'') = UNAUTHORIZED \<and>
      error_code (ScopeDenied ''missing scope'') = SCOPE_DENIED)"

definition test_http_status_mapping :: bool where
  "test_http_status_mapping =
     (http_status (Unauthorized ''no token'') = 401 \<and> http_status (MethodNotFound ''foo/bar'') = 404)"

text \<open>\<open>v[k]\<close> on a JSON value: null where there is no such member.\<close>

definition member :: "json \<Rightarrow> string \<Rightarrow> json" where
  "member v k = (case jget v k of Some w \<Rightarrow> w | None \<Rightarrow> JNull)"

definition element :: "json \<Rightarrow> nat \<Rightarrow> json" where
  "element v i = (case as_array v of Some xs \<Rightarrow> if i < length xs then xs ! i else JNull | None \<Rightarrow> JNull)"

definition test_json_rpc_error_response :: bool where
  "test_json_rpc_error_response =
    (let resp = to_json_rpc_response (MethodNotFound ''tools/xyz'') (Some (IdInteger 42)) in
     member resp ''jsonrpc'' = JStr ''2.0'' \<and>
     member resp ''id'' = int_json 42 \<and>
     member (member resp ''error'') ''code'' = of_i64 METHOD_NOT_FOUND \<and>
     some_and (as_str (member (member resp ''error'') ''message''))
       (\<lambda>message. str_contains message ''tools/xyz''))"

definition test_json_rpc_error_null_id :: bool where
  "test_json_rpc_error_null_id =
     (member (to_json_rpc_response (ParseError ''bad'') None) ''id'' = JNull)"

lemma error_tests:
  "test_error_codes" "test_http_status_mapping" "test_json_rpc_error_response" "test_json_rpc_error_null_id"
  by code_simp+

section \<open>Messages\<close>

definition test_deserialize_initialize_params :: bool where
  "test_deserialize_initialize_params =
     some_and (initialize_params_from_json (JObj
       [(''protocolVersion'', JStr ''2025-03-26''),
        (''capabilities'', JObj [(''roots'', JObj [(''listChanged'', JBool True)])]),
        (''clientInfo'', JObj [(''name'', JStr ''test-client''), (''version'', JStr ''1.0.0'')])]))
       (\<lambda>params. ip_protocol_version params = MCP_PROTOCOL_VERSION \<and>
          im_name (ip_client_info params) = ''test-client'' \<and>
          cc_roots (ip_capabilities params) \<noteq> None)"

definition test_deserialize_tools_call_params :: bool where
  "test_deserialize_tools_call_params =
     some_and (tools_call_params_from_json (JObj
       [(''name'', JStr ''com.example.echo''), (''arguments'', JObj [(''message'', JStr ''hello'')]),
        (''_meta'', JObj [(''progressToken'', JStr ''pt-123'')])]))
       (\<lambda>params. tcp_name params = ''com.example.echo'' \<and>
          member (tcp_arguments params) ''message'' = JStr ''hello'' \<and> tcp_meta params \<noteq> None)"

definition test_deserialize_tool_with_annotations :: bool where
  "test_deserialize_tool_with_annotations =
     some_and (tool_from_json (JObj
       [(''name'', JStr ''com.example.delete''), (''description'', JStr ''Deletes a record''),
        (''inputSchema'', JObj [(''type'', JStr ''object''),
           (''properties'', JObj [(''id'', JObj [(''type'', JStr ''integer'')])])]),
        (''annotations'', JObj [(''readOnlyHint'', JBool False), (''destructiveHint'', JBool True),
           (''idempotentHint'', JBool True), (''openWorldHint'', JBool False),
           (''title'', JStr ''Delete Record'')])]))
       (\<lambda>tool. t_name tool = ''com.example.delete'' \<and>
          some_and (t_annotations tool) (\<lambda>ann.
            ta_read_only_hint ann = Some False \<and> ta_destructive_hint ann = Some True))"

definition test_deserialize_content_types :: bool where
  "test_deserialize_content_types =
    (some_and (content_from_json (JObj [(''type'', JStr ''text''), (''text'', JStr ''Hello'')]))
       (\<lambda>content. case content of TextContent text \<Rightarrow> text = ''Hello'' | _ \<Rightarrow> False) \<and>
     some_and (content_from_json (JObj [(''type'', JStr ''image''), (''data'', JStr ''base64...''),
                                        (''mime_type'', JStr ''image/png'')]))
       (\<lambda>content. case content of ImageContent _ mime_type \<Rightarrow> mime_type = ''image/png'' | _ \<Rightarrow> False))"

definition test_extract_progress_token :: bool where
  "test_extract_progress_token =
    (extract_progress_token (Some (JObj [(''_meta'', JObj [(''progressToken'', JStr ''pt-abc'')])]))
       = Some (JStr ''pt-abc'') \<and>
     extract_progress_token (Some (JObj [(''key'', JStr ''value'')])) = None)"

definition test_valid_methods :: bool where
  "test_valid_methods =
    (is_valid_method ''initialize'' \<and> is_valid_method ''tools/call'' \<and>
     is_valid_method ''notifications/initialized'' \<and> \<not> is_valid_method ''unknown/method'')"

definition test_serialize_tools_list_result :: "json_codec \<Rightarrow> bool" where
  "test_serialize_tools_list_result C =
    (let result = \<lparr>items = [\<lparr>t_name = ''com.example.echo'', t_description = Some ''Echo tool'',
                     t_input_schema = JObj [(''type'', JStr ''object'')], t_annotations = None\<rparr>],
                   next_cursor = None\<rparr>;
         serialized = to_text C (tools_list_result_to_json result)
     in unwrap_and (from_text C serialized) (\<lambda>v.
        some_and (tools_list_result_from_json v) (\<lambda>deserialized.
          length (items deserialized) = 1 \<and>
          t_name (items deserialized ! 0) = ''com.example.echo'')))"

lemma message_tests:
  "test_deserialize_initialize_params" "test_deserialize_tools_call_params"
  "test_deserialize_tool_with_annotations" "test_deserialize_content_types"
  "test_extract_progress_token" "test_valid_methods"
  by code_simp+

lemma listing_text_test:
  assumes "codec_ok C"
  shows "test_serialize_tools_list_result C"
proof -
  define v where "v = tools_list_result_to_json
    \<lparr>items = [\<lparr>t_name = ''com.example.echo'', t_description = Some ''Echo tool'',
       t_input_schema = JObj [(''type'', JStr ''object'')], t_annotations = None\<rparr>], next_cursor = None\<rparr>"
  have "json_value v" "float_free v"
    unfolding v_def by code_simp+
  hence "from_text C (to_text C v) = Ok v"
    by (rule codec_ok_text [OF assms])
  moreover have "some_and (tools_list_result_from_json v) (\<lambda>d.
      length (items d) = 1 \<and> t_name (items d ! 0) = ''com.example.echo'')"
    unfolding v_def by code_simp
  ultimately show ?thesis
    unfolding test_serialize_tools_list_result_def Let_def v_def [symmetric] by (simp add: unwrap_and_def)
qed

section \<open>The echo server behind the proxy\<close>

definition echo_answers :: "message \<Rightarrow> (request_id \<Rightarrow> json \<Rightarrow> bool) \<Rightarrow> proxy_env \<Rightarrow> bool" where
  "echo_answers request p V =
     unwrap_and (forward_to_echo V request)
       (\<lambda>response. case response of Success i result \<Rightarrow> p i result | _ \<Rightarrow> False)"

definition test_echo_server_initialize :: "proxy_env \<Rightarrow> bool" where
  "test_echo_server_initialize =
     echo_answers (Request (IdInteger 1) ''initialize'' (Some (JObj
       [(''protocolVersion'', JStr ''2025-03-26''), (''capabilities'', JObj []),
        (''clientInfo'', JObj [(''name'', JStr ''test''), (''version'', JStr ''1.0.0'')])])))
       (\<lambda>i result. i = IdInteger 1 \<and>
          member result ''protocolVersion'' = JStr ''2025-03-26'' \<and>
          member (member result ''serverInfo'') ''name'' = JStr ''mcp-shield-echo'')"

definition test_echo_server_tools_list :: "proxy_env \<Rightarrow> bool" where
  "test_echo_server_tools_list =
     echo_answers (Request (IdInteger 2) ''tools/list'' None)
       (\<lambda>_ result. some_and (as_array (member result ''tools'')) (\<lambda>tools.
          length tools = 3 \<and> member (tools ! 0) ''name'' = JStr ''com.echo:echo''))"

definition test_echo_server_tools_call_echo :: "proxy_env \<Rightarrow> bool" where
  "test_echo_server_tools_call_echo =
     echo_answers (Request (IdInteger 3) ''tools/call'' (Some (JObj
       [(''name'', JStr ''com.echo:echo''), (''arguments'', JObj [(''message'', JStr ''hello world'')])])))
       (\<lambda>_ result. some_and (as_str (member (element (member result ''content'') 0) ''text''))
          (\<lambda>text. str_contains text ''hello world''))"

definition test_echo_server_ping :: "proxy_env \<Rightarrow> bool" where
  "test_echo_server_ping =
     echo_answers (Request (IdInteger 4) ''ping'' None)
       (\<lambda>i result. i = IdInteger 4 \<and> result = JObj [])"

lemma proxy_tests:
  "test_echo_server_initialize V" "test_echo_server_tools_list V"
  "test_echo_server_tools_call_echo V" "test_echo_server_ping V"
  by code_simp+

section \<open>The test server\<close>

definition test_list_tools_count :: bool where
  "test_list_tools_count = (length echo_server_tools = 4)"

definition test_tool_names_qualified :: bool where
  "test_tool_names_qualified = (\<forall>tool \<in> set echo_server_tools. has_char (t_name tool) CHR '':'')"

definition test_echo_tool_call :: "(string \<Rightarrow> string) \<Rightarrow> string \<Rightarrow> bool" where
  "test_echo_tool_call up now =
     unwrap_and (handle_tool_call up now ''com.echo:echo'' (JObj [(''message'', JStr ''hello'')]))
       (\<lambda>result. member (element (member result ''content'') 0) ''text'' = JStr ''Echo: hello'')"

definition test_add_tool_call :: "(string \<Rightarrow> string) \<Rightarrow> string \<Rightarrow> bool" where
  "test_add_tool_call up now =
     unwrap_and (handle_tool_call up now ''com.echo:add'' (JObj [(''a'', int_json 5), (''b'', int_json 3)]))
       (\<lambda>result. member (element (member result ''content'') 0) ''text'' = JStr ''5 + 3 = 8'')"

definition test_unknown_tool_returns_error :: "(string \<Rightarrow> string) \<Rightarrow> string \<Rightarrow> bool" where
  "test_unknown_tool_returns_error up now =
     (\<not> is_ok (handle_tool_call up now ''com.echo:unknown'' (JObj [])))"

definition test_missing_argument :: "(string \<Rightarrow> string) \<Rightarrow> string \<Rightarrow> bool" where
  "test_missing_argument up now =
     unwrap_err_and (handle_tool_call up now ''com.echo:echo'' (JObj []))
       (\<lambda>e. str_contains e ''message'')"

definition test_uppercase_tool :: "(string \<Rightarrow> string) \<Rightarrow> string \<Rightarrow> bool" where
  "test_uppercase_tool up now =
     unwrap_and (handle_tool_call up now ''com.echo:uppercase'' (JObj [(''text'', JStr ''hello world'')]))
       (\<lambda>result. member (element (member result ''content'') 0) ''text'' = JStr ''HELLO WORLD'')"

lemma echo_server_tests:
  "test_list_tools_count" "test_tool_names_qualified" "test_echo_tool_call up now"
  "test_add_tool_call up now" "test_unknown_tool_returns_error up now" "test_missing_argument up now"
  by code_simp+

lemma uppercase_test: "up ''hello world'' = ''HELLO WORLD'' \<Longrightarrow> test_uppercase_tool up now"
  by (simp add: test_uppercase_tool_def handle_tool_call_def required_arg_def ok_or_def bind_result_def
      unwrap_and_def echo_text_def member_def element_def)

section \<open>Headers and lines\<close>

definition test_extract_bearer_token :: bool where
  "test_extract_bearer_token =
    (unwrap_and (extract_bearer_token ''Bearer abc123'') (\<lambda>t. t = ''abc123'') \<and>
     unwrap_and (extract_bearer_token ''Bearer  token-with-spaces  '') (\<lambda>t. t = ''token-with-spaces''))"

definition test_reject_invalid_bearer_format :: bool where
  "test_reject_invalid_bearer_format =
    (\<not> is_ok (extract_bearer_token ''Basic abc'') \<and>
     \<not> is_ok (extract_bearer_token ''Bearer'') \<and>
     \<not> is_ok (extract_bearer_token ''''))"

definition test_trim_empty_lines :: bool where
  "test_trim_empty_lines =
    (trim (''   '' @ [CHR 0x0A]) = [] \<and> trim [CHR 0x0A] = [] \<and>
     trim (''{'' @ dquoted ''jsonrpc'' @ '':'' @ dquoted ''2.0'' @ ''}'' @ [CHR 0x0A]) \<noteq> [])"

lemma header_tests: "test_extract_bearer_token" "test_reject_invalid_bearer_format" "test_trim_empty_lines"
  by code_simp+

end
