(* ===== verification/State_Tests.thy ===== *)
theory State_Tests
  imports Unit_Tests Ecpa Egress Cedar Schema Session Producer Control_Plane Rate_Limiter
begin

text \<open>
  The unit tests of the components that keep state, run on the model as in \<open>Unit_Tests\<close>: sessions,
  the control plane, audit producers, the rate limiter, the schema cache, the stubs of the
  guardrails and the authorizer. The clock stands still during a test but for its calls of
  \<open>sleep\<close>; an operation that fails where the test unwraps ends it.
\<close>

section \<open>Sessions\<close>

definition repo_scope :: "string \<Rightarrow> visibility \<Rightarrow> context_scope" where
  "repo_scope i v = \<lparr>context_type = ''github_repo'', cs_identifier = i, cs_visibility = v\<rparr>"

definition new_session :: "string \<Rightarrow> string option \<Rightarrow> (session \<Rightarrow> sessions \<Rightarrow> bool) \<Rightarrow> bool" where
  "new_session uuid p k =
     (case create_session uuid 0 0 p [] of (Ok s, ss) \<Rightarrow> k s ss | (Err _, _) \<Rightarrow> False)"

definition test_create_and_get_session :: "string \<Rightarrow> bool" where
  "test_create_and_get_session uuid =
     new_session uuid (Some ''client-1'') (\<lambda>session manager.
       unwrap_and (get_session manager (session_id session)) (\<lambda>retrieved.
         some_and retrieved (\<lambda>s. s_principal s = Some ''client-1'')))"

definition test_context_locking_blocks_cross_context :: "string \<Rightarrow> bool" where
  "test_context_locking_blocks_cross_context uuid =
     new_session uuid None (\<lambda>session manager.
       then_with (lock_context (session_id session) (repo_scope ''owner/public-repo'' VPublic) 0 manager)
         (\<lambda>manager.
            unwrap_and (check_context_access manager (session_id session)
                          (repo_scope ''owner/private-repo'' VPrivate))
              (\<lambda>result. case result of
                 Deny reason _ \<Rightarrow> str_contains reason ''locked'' \<and> str_contains reason ''prompt injection''
               | Allow \<Rightarrow> False)))"

definition test_context_locking_allows_same_context :: "string \<Rightarrow> bool" where
  "test_context_locking_allows_same_context uuid =
     new_session uuid None (\<lambda>session manager.
       then_with (lock_context (session_id session) (repo_scope ''owner/repo'' VPublic) 0 manager)
         (\<lambda>manager.
            unwrap_and (check_context_access manager (session_id session) (repo_scope ''owner/repo'' VPublic))
              (\<lambda>result. result = Allow)))"

lemma session_tests:
  "test_create_and_get_session uuid" "test_context_locking_allows_same_context uuid"
  "test_context_locking_blocks_cross_context uuid"
proof -
  show "test_create_and_get_session uuid" "test_context_locking_allows_same_context uuid"
    by (simp_all add: test_create_and_get_session_def test_context_locking_allows_same_context_def
        new_session_def create_session_def get_session_def lock_context_def check_context_access_def
        then_with_def asserts is_ok_def Let_def)
  have "str_contains (lock_reason (repo_scope ''owner/public-repo'' VPublic)
          (repo_scope ''owner/private-repo'' VPrivate)) ''locked''"
    "str_contains (lock_reason (repo_scope ''owner/public-repo'' VPublic)
          (repo_scope ''owner/private-repo'' VPrivate)) ''prompt injection''"
    by code_simp+
  thus "test_context_locking_blocks_cross_context uuid"
    by (simp add: test_context_locking_blocks_cross_context_def new_session_def create_session_def
        lock_context_def check_context_access_def then_with_def asserts is_ok_def Let_def repo_scope_def)
qed

section \<open>The control plane\<close>

definition test_inmemory_tenant_crud :: "hash_order \<Rightarrow> int \<Rightarrow> bool" where
  "test_inmemory_tenant_crud \<pi> now =
    (let cp = in_memory_new now now;
         tenants = load_tenants \<pi> cp;
         new_tenant = \<lparr>tn_id = ''test-tenant'', tn_name = ''Test Tenant'', tn_active = True,
                       tn_config = JObj [(''key'', JStr ''value'')],
                       tn_created_at = now, tn_updated_at = now\<rparr>
     in length tenants = 1 \<and> tn_id (tenants ! 0) = ''default'' \<and>
        then_with (create_tenant new_tenant cp) (\<lambda>cp.
          some_and (get_tenant cp ''test-tenant'') (\<lambda>t. tn_name t = ''Test Tenant'')))"

definition test_inmemory_policy_management :: "hash_order \<Rightarrow> int \<Rightarrow> bool" where
  "test_inmemory_policy_management \<pi> now =
     then_with
       (update_policy
          \<lparr>policy_id = ''test-policy'', pe_tenant_id = ''default'',
           policy_text = ''permit(principal, action, resource);'', pe_enabled = True, pe_version = 1,
           pe_created_at = now, pe_updated_at = now\<rparr>
          (in_memory_new now now))
       (\<lambda>cp. let policies = load_policies \<pi> cp ''default'' in
          length policies = 1 \<and> policy_id (policies ! 0) = ''test-policy'')"

definition test_inmemory_upstream_management :: "hash_order \<Rightarrow> int \<Rightarrow> bool" where
  "test_inmemory_upstream_management \<pi> now =
    (let cp = in_memory_new now now;
         upstream = \<lparr>ue_server_id = ''test-server'', ue_tenant_id = ''default'',
                     ue_transport = ''streamable_http'', ue_url = Some ''http://localhost:8080/mcp'',
                     ue_active = True, ue_created_at = now, ue_updated_at = now\<rparr>;
         cp = cp\<lparr>cp_upstreams := hm_insert (ue_server_id upstream) upstream (cp_upstreams cp)\<rparr>
     in length (load_upstreams \<pi> cp ''default'') = 1)"

definition test_inmemory_rate_limit_rules :: "hash_order \<Rightarrow> int \<Rightarrow> bool" where
  "test_inmemory_rate_limit_rules \<pi> now =
    (let cp = in_memory_new now now;
         rule = \<lparr>sr_rule_id = ''test-rule'', sr_tenant_id = ''default'', sr_name = ''Test Rule'',
                 sr_scope = ''global'', sr_scope_value = None, sr_algorithm = ''token_bucket'',
                 sr_requests_per_window = 100, sr_window_seconds = 60, sr_burst_allowance = Some 20,
                 sr_action = ''reject'', sr_priority = 0, sr_enabled = True,
                 sr_created_at = now, sr_updated_at = now\<rparr>;
         cp = cp\<lparr>cp_rules := hm_insert (sr_rule_id rule) rule (cp_rules cp)\<rparr>
     in length (load_rate_limit_rules \<pi> cp ''default'') = 1)"

lemma hash_order_single: "hash_order_ok \<pi> \<Longrightarrow> \<pi> [k] = [k]"
  unfolding hash_order_ok_def by (metis mset_single_iff mset_single_iff_right)

lemma control_plane_tests:
  assumes "hash_order_ok \<pi>"
  shows "test_inmemory_tenant_crud \<pi> now" "test_inmemory_policy_management \<pi> now"
    "test_inmemory_upstream_management \<pi> now" "test_inmemory_rate_limit_rules \<pi> now"
  using hash_order_single [OF assms]
  by (simp_all add: test_inmemory_tenant_crud_def test_inmemory_policy_management_def
      test_inmemory_upstream_management_def test_inmemory_rate_limit_rules_def in_memory_new_def
      default_tenant_def load_tenants_def load_policies_def load_upstreams_def load_rate_limit_rules_def
      create_tenant_def get_tenant_def update_policy_def hm_values_def hm_keys_def hm_insert_def
      hm_contains_def hm_get_def map_filter_def then_with_def asserts is_ok_def Let_def)

section \<open>Audit producers\<close>

definition tool_call_event ::
  "string \<Rightarrow> string \<Rightarrow> string \<Rightarrow> auth_decision \<Rightarrow> i64 option \<Rightarrow> u64 \<Rightarrow> string \<Rightarrow> audit_event" where
  "tool_call_event now n scope d code ms via =
     \<lparr>event_id = fmt [''test-'', n], timestamp = now, ev_method = ''tools/call'',
      ev_request_id = Some (fmt [''req-'', n]), ev_session_id = Some (fmt [''sess-'', n]),
      ev_principal = Some (fmt [''client-'', n]), ev_scopes = [scope], decision = d,
      request_payload = None, response_payload = None, ev_error_code = code,
      duration_ms = ms, transport = via\<rparr>"

definition test_noop_producer :: "json_codec \<Rightarrow> string \<Rightarrow> bool" where
  "test_noop_producer C now =
     is_ok (fst (publish_audit_event C
       (tool_call_event now ''1'' ''mcp:tools:call'' DecAllow None 10 ''http'') NoopProducer))"

definition test_logging_producer :: "json_codec \<Rightarrow> string \<Rightarrow> bool" where
  "test_logging_producer C now =
     is_ok (fst (publish_audit_event C
       (tool_call_event now ''2'' ''mcp:tools:read'' DecAllow None 5 ''http'') (LoggingProducer [])))"

definition test_buffering_producer :: "json_codec \<Rightarrow> string \<Rightarrow> bool" where
  "test_buffering_producer C now =
     then_with (publish_audit_event C
         (tool_call_event now ''3'' ''mcp:tools:call'' DecDeny (Some (- 32002)) 2 ''http'') buffering_new)
       (\<lambda>producer. buffered producer = 1 \<and>
          (let drained = fst (drain producer) in
           length drained = 1 \<and> decision (drained ! 0) = DecDeny))"

text \<open>The buffer is shared with the fan-out: its state is that of the second member.\<close>

definition test_fanout_producer :: "json_codec \<Rightarrow> string \<Rightarrow> bool" where
  "test_fanout_producer C now =
     then_with (publish_audit_event C
         (tool_call_event now ''4'' ''mcp:tools:read'' DecAllow None 1 ''http'')
         (fanout_new [LoggingProducer [], buffering_new]))
       (\<lambda>fanout. case fanout of FanoutProducer [_, buffer] \<Rightarrow> buffered buffer = 1 | _ \<Rightarrow> False)"

lemma producer_tests:
  "test_noop_producer C now" "test_logging_producer C now"
  "test_buffering_producer C now" "test_fanout_producer C now"
  by (simp_all add: test_noop_producer_def test_logging_producer_def test_buffering_producer_def
      test_fanout_producer_def then_with_def is_ok_def logging_publish_def buffering_publish_def
      buffering_new_def fanout_new_def tool_call_event_def Let_def split: prod.splits)

section \<open>Stubs and compiled guardrails\<close>

definition test_stub_guardrail :: "'r regex_engine \<Rightarrow> json_codec \<Rightarrow> bool" where
  "test_stub_guardrail E C =
     unwrap_and (evaluate_constraints E C StubGuardrail ''any:tool'' (JObj [])) satisfied"

text \<open>What a guardrail with one constraint answers for a call; the constraint must register.\<close>

definition verdict_of ::
  "'r regex_engine \<Rightarrow> json_codec \<Rightarrow> 'r tool_constraint \<Rightarrow> json \<Rightarrow> (bool \<Rightarrow> bool) \<Rightarrow> bool" where
  "verdict_of E C c args p =
     then_with (register_constraints E c (RuleGuardrail []))
       (\<lambda>g. unwrap_and (evaluate_constraints E C g (tool_name c) args) (\<lambda>result. p (satisfied result)))"

definition test_equals_predicate :: "'r regex_engine \<Rightarrow> json_codec \<Rightarrow> bool" where
  "test_equals_predicate E C =
    (let constraint = builder_predicate
           \<lparr>p_name = ''equals'', p_fields = [''action''], p_expression = quoted ''read'',
            p_required = True, p_compiled = None\<rparr> (builder_new ''test:tool'')
     in verdict_of E C constraint (JObj [(''action'', JStr ''read'')]) (\<lambda>ok. ok) \<and>
        verdict_of E C constraint (JObj [(''action'', JStr ''write'')]) (\<lambda>ok. \<not> ok))"

definition test_stub_inspector :: "'r regex_engine \<Rightarrow> bool" where
  "test_stub_inspector E =
     unwrap_and (sanitize_response E StubInspector
         \<lparr>ins_tool_name = ''test'', ins_content = [JStr ''Any content''], ins_server_id = ''test''\<rparr>)
       (\<lambda>inspection. \<not> modified inspection \<and> detected_patterns inspection = [])"

definition test_stub_authorizer_always_allows ::
  "('u, 'x, 'n, 'es, 'q, 'ps) cedar_engine \<Rightarrow> bool" where
  "test_stub_authorizer_always_allows E =
     unwrap_and (authorizer_evaluate E StubAuthorizer
         \<lparr>principal = ''anyone'', action = ''shutdown'', resource = ''anything'', context_attrs = []\<rparr>)
       (\<lambda>resp. ar_decision resp = CedarAllow)"

text \<open>An authorizer that could be made can be reloaded, whatever its policies.\<close>

definition test_reload_policies ::
  "('u, 'x, 'n, 'es, 'q, 'ps) cedar_engine \<Rightarrow> string \<Rightarrow> bool" where
  "test_reload_policies E policy =
     unwrap_and (authorizer_new E policy)
       (\<lambda>authz. is_ok (fst (reload_policies E (CedarPolicyAuthorizer authz))))"

lemma guard_tests:
  "test_stub_guardrail E C" "test_stub_inspector E" "test_stub_authorizer_always_allows F"
  by (simp_all add: test_stub_guardrail_def test_stub_inspector_def
      test_stub_authorizer_always_allows_def stub_response_def unwrap_and_def)

lemma reload_test: "is_ok (authorizer_new F policy) \<Longrightarrow> test_reload_policies F policy"
  by (auto simp: test_reload_policies_def authorizer_new_def is_ok_def unwrap_and_def
      split: result.splits)

lemma equals_test: "test_equals_predicate E C"
proof -
  have "trim_quotes (quoted ''read'') = ''read''"
    by code_simp
  thus ?thesis
    by (simp add: test_equals_predicate_def verdict_of_def then_with_def rule_register_constraints_def
        rule_evaluate_constraints_def builder_predicate_def builder_new_def compile_predicate_regex_def
        regex_pattern_def pred_name_defs evaluate_predicate_def plain_verdict_def value_str_def
        unwrap_and_def is_ok_def Let_def)
qed

section \<open>The schema cache\<close>

definition basic_object_schema :: json where
  "basic_object_schema =
     JObj [(''type'', JStr ''object''),
           (''properties'', JObj [
              (''name'', JObj [(''type'', JStr ''string''), (''minLength'', int_json 1)]),
              (''age'', JObj [(''type'', JStr ''integer''), (''minimum'', int_json 0)])]),
           (''required'', JArr [JStr ''name''])]"

definition validates ::
  "json_codec \<Rightarrow> 'v schema_engine \<Rightarrow> json \<Rightarrow> json \<Rightarrow> 'v schema_cache \<Rightarrow>
     ((unit, mcp_error) result \<Rightarrow> 'v schema_cache \<Rightarrow> bool) \<Rightarrow> bool" where
  "validates C E schema inst validator k =
     (case validate C E schema inst validator of Some (r, validator') \<Rightarrow> k r validator' | None \<Rightarrow> False)"

definition test_valid_instance :: "json_codec \<Rightarrow> 'v schema_engine \<Rightarrow> bool" where
  "test_valid_instance C E =
     validates C E basic_object_schema
       (JObj [(''name'', JStr ''Alice''), (''age'', int_json 30)]) [] (\<lambda>r _. is_ok r)"

definition test_missing_required_field :: "json_codec \<Rightarrow> 'v schema_engine \<Rightarrow> bool" where
  "test_missing_required_field C E =
     validates C E basic_object_schema (JObj [(''age'', int_json 30)]) []
       (\<lambda>r _. unwrap_err_and r (\<lambda>e. str_contains (error_text e) ''name''))"

definition test_type_mismatch :: "json_codec \<Rightarrow> 'v schema_engine \<Rightarrow> bool" where
  "test_type_mismatch C E =
     validates C E basic_object_schema
       (JObj [(''name'', JStr ''Alice''), (''age'', JStr ''not a number'')]) [] (\<lambda>r _. \<not> is_ok r)"

definition test_minimum_constraint :: "json_codec \<Rightarrow> 'v schema_engine \<Rightarrow> bool" where
  "test_minimum_constraint C E =
     validates C E basic_object_schema
       (JObj [(''name'', JStr ''Alice''), (''age'', int_json (- 1))]) [] (\<lambda>r _. \<not> is_ok r)"

definition test_schema_caching :: "json_codec \<Rightarrow> 'v schema_engine \<Rightarrow> bool" where
  "test_schema_caching C E =
    (let inst = JObj [(''name'', JStr ''Bob'')] in
     cache_size ([] :: 'v schema_cache) = 0 \<and>
     validates C E basic_object_schema inst [] (\<lambda>r validator. is_ok r \<and> cache_size validator = 1 \<and>
     validates C E basic_object_schema inst validator (\<lambda>r validator. is_ok r \<and> cache_size validator = 1)))"

definition test_unsupported_dialect_warning :: "json_codec \<Rightarrow> 'v schema_engine \<Rightarrow> bool" where
  "test_unsupported_dialect_warning C E =
     validates C E
       (JObj [(''$schema'', JStr ''https://json-schema.org/draft/07/schema''), (''type'', JStr ''string'')])
       (JStr ''hello'') []
       (\<lambda>r _. unwrap_err_and r (\<lambda>e. str_contains (error_text e) ''Unsupported JSON Schema dialect''))"

definition test_draft_2020_12_compatible_check :: bool where
  "test_draft_2020_12_compatible_check =
    (is_draft_2020_12_compatible (JObj
       [(''$schema'', JStr ''https://json-schema.org/draft/2020-12/schema''), (''type'', JStr ''string'')]) \<and>
     is_draft_2020_12_compatible (JObj [(''type'', JStr ''string'')]) \<and>
     \<not> is_draft_2020_12_compatible (JObj
       [(''$schema'', JStr ''http://json-schema.org/draft-04/schema#''), (''type'', JStr ''string'')]))"

definition test_precompile :: "json_codec \<Rightarrow> 'v schema_engine \<Rightarrow> bool" where
  "test_precompile C E =
    (cache_size ([] :: 'v schema_cache) = 0 \<and>
     (case precompile C E basic_object_schema [] of
        Some (r, validator) \<Rightarrow> is_ok r \<and> cache_size validator = 1
      | None \<Rightarrow> False))"

definition test_clear_cache :: "json_codec \<Rightarrow> 'v schema_engine \<Rightarrow> bool" where
  "test_clear_cache C E =
     validates C E basic_object_schema (JObj [(''name'', JStr ''Alice'')]) []
       (\<lambda>r validator. is_ok r \<and> cache_size validator = 1 \<and> cache_size (clear_cache validator) = 0)"

text \<open>
  What the tests ask of the engine: the basic schema compiles, to a validator that accepts the
  good instances and finds an error in the bad ones. The key of the cache is the text of the
  schema, which is shorter than the cut.
\<close>

definition knows_basic_schema :: "'v schema_engine \<Rightarrow> 'v \<Rightarrow> bool" where
  "knows_basic_schema E v =
    (validator_for E basic_object_schema = Ok v \<and>
     is_ok (run_validator E v (JObj [(''name'', JStr ''Alice''), (''age'', int_json 30)])) \<and>
     is_ok (run_validator E v (JObj [(''name'', JStr ''Alice'')])) \<and>
     is_ok (run_validator E v (JObj [(''name'', JStr ''Bob'')])) \<and>
     \<not> is_ok (run_validator E v (JObj [(''name'', JStr ''Alice''), (''age'', JStr ''not a number'')])) \<and>
     \<not> is_ok (run_validator E v (JObj [(''name'', JStr ''Alice''), (''age'', int_json (- 1))])))"

lemma basic_schema_dialect: "check_dialect basic_object_schema = Ok ()"
  by code_simp

lemma schema_tests:
  assumes E: "knows_basic_schema E v" and short: "length (to_text C basic_object_schema) \<le> 1024"
  shows "test_valid_instance C E" "test_type_mismatch C E" "test_minimum_constraint C E"
    "test_schema_caching C E" "test_precompile C E" "test_clear_cache C E"
proof -
  have K: "schema_key C basic_object_schema = Some (fmt [''schema:'', to_text C basic_object_schema])"
    using short by (simp add: schema_key_def Let_def)
  have V: "compile_schema E basic_object_schema = Ok v"
    using E by (simp add: knows_basic_schema_def compile_schema_Ok)
  have W: "is_ok (validate_with E v i) = is_ok (run_validator E v i)" for i
    by (simp add: validate_with_def is_ok_def split: result.splits)
  note R = E [unfolded knows_basic_schema_def, folded W]
  show "test_valid_instance C E" "test_type_mismatch C E" "test_minimum_constraint C E"
    "test_schema_caching C E" "test_precompile C E" "test_clear_cache C E"
    using R
    by (simp_all add: test_valid_instance_def test_type_mismatch_def test_minimum_constraint_def
        test_schema_caching_def test_precompile_def test_clear_cache_def validates_def validate_def
        precompile_def basic_schema_dialect K V cache_size_def clear_cache_def hm_contains_def
        hm_insert_def hm_get_def Let_def)
qed

lemma missing_field_test:
  assumes "knows_basic_schema E v" "length (to_text C basic_object_schema) \<le> 1024"
    and "run_validator E v (JObj [(''age'', int_json 30)]) = Err es"
    and "str_contains (join ''; '' (error_details es)) ''name''"
  shows "test_missing_required_field C E"
proof -
  have "schema_key C basic_object_schema = Some (fmt [''schema:'', to_text C basic_object_schema])"
    using assms(2) by (simp add: schema_key_def Let_def)
  moreover have "compile_schema E basic_object_schema = Ok v"
    using assms(1) by (simp add: knows_basic_schema_def compile_schema_Ok)
  moreover have "str_contains (error_text (InvalidParams (fmt [a, t]))) ''name''"
    if "str_contains t ''name''" for a t
  proof -
    have "str_contains (fmt [a, t]) ''name''"
      by (rule fmt_contains [OF _ that]) simp
    thus ?thesis
      unfolding error_text.simps by (rule fmt_contains [rotated]) simp
  qed
  ultimately show ?thesis
    using assms(3,4)
    by (simp add: test_missing_required_field_def validates_def validate_def basic_schema_dialect
        validate_with_def unwrap_err_and_def)
qed

lemma dialect_tests: "test_unsupported_dialect_warning C E" "test_draft_2020_12_compatible_check"
proof -
  let ?s = "JObj [(''$schema'', JStr ''https://json-schema.org/draft/07/schema''), (''type'', JStr ''string'')]"
  have "\<not> is_ok (check_dialect ?s)"
    "unwrap_err_and (check_dialect ?s) (\<lambda>e. str_contains (error_text e) ''Unsupported JSON Schema dialect'')"
    by code_simp+
  then show "test_unsupported_dialect_warning C E"
    by (cases "check_dialect ?s")
      (simp_all add: test_unsupported_dialect_warning_def validates_def validate_def unwrap_err_and_def
         is_ok_def)
  show test_draft_2020_12_compatible_check
    by code_simp
qed

section \<open>The rate limiter\<close>

definition test_rule ::
  "string \<Rightarrow> string \<Rightarrow> string option \<Rightarrow> u64 \<Rightarrow> 32 word \<Rightarrow> 32 word \<Rightarrow> rate_limit_rule" where
  "test_rule i scope v n w prio =
     \<lparr>rule_id = i, rr_scope = scope, scope_value = v, algorithm = TokenBucketAlgorithm,
      requests_per_window = n, window_seconds = w, burst_allowance = Some n,
      rr_action = RejectAction, priority = prio, rr_enabled = True\<rparr>"

definition default_limiter :: "u64 \<Rightarrow> 32 word \<Rightarrow> limiter" where
  "default_limiter n w = with_default_rule (test_rule ''default'' ''global'' None n w 0)"

text \<open>A check at an instant whose outcome the test unwraps.\<close>

definition checks ::
  "nat \<Rightarrow> rate_limit_key \<Rightarrow> (rate_limit_result \<Rightarrow> bool) \<Rightarrow> (limiter \<Rightarrow> bool) \<Rightarrow> limiter \<Rightarrow> bool" where
  "checks now key p k limiter =
     (case check (now, now, now) key limiter of
        (Ok result, limiter') \<Rightarrow> p result \<and> k limiter'
      | (Err _, _) \<Rightarrow> False)"

fun checks_all ::
  "nat \<Rightarrow> rate_limit_key \<Rightarrow> (rate_limit_result \<Rightarrow> bool) list \<Rightarrow> (limiter \<Rightarrow> bool) \<Rightarrow> limiter \<Rightarrow> bool" where
  "checks_all now key [] k = k"
| "checks_all now key (p # ps) k = checks now key p (checks_all now key ps k)"

definition denied :: "rate_limit_result \<Rightarrow> bool" where
  "denied result = (\<not> allowed result)"

definition test_token_bucket_basic :: bool where
  "test_token_bucket_basic =
    (let key = \<lparr>rk_scope = ''global'', rk_value = ''test''\<rparr> in
     checks_all 0 key
       (map (\<lambda>i result. allowed result \<and> remaining_requests result = 10 - of_nat i) [1..<11])
       (checks 0 key (\<lambda>result. \<not> allowed result \<and> remaining_requests result = 0) (\<lambda>_. True))
       (default_limiter 10 60))"

definition test_token_bucket_refill :: bool where
  "test_token_bucket_refill =
    (let key = \<lparr>rk_scope = ''global'', rk_value = ''refill-test''\<rparr> in
     checks_all 0 key (replicate 5 allowed)
       (checks 0 key denied (checks (1500 * 1000000) key allowed (\<lambda>_. True)))
       (default_limiter 5 1))"

definition test_different_keys_independent :: bool where
  "test_different_keys_independent =
    (let key1 = \<lparr>rk_scope = ''global'', rk_value = ''user1''\<rparr>;
         key2 = \<lparr>rk_scope = ''global'', rk_value = ''user2''\<rparr>
     in checks_all 0 key1 [\<lambda>_. True, \<lambda>_. True, denied]
          (checks_all 0 key2 [allowed, allowed, denied] (\<lambda>_. True))
          (default_limiter 2 60))"

definition test_custom_rules :: bool where
  "test_custom_rules =
    (let bad_user = \<lparr>rk_scope = ''user'', rk_value = ''bad-user''\<rparr>;
         good_user = \<lparr>rk_scope = ''user'', rk_value = ''good-user''\<rparr>
     in then_with (add_rule (test_rule ''strict'' ''user'' (Some ''bad-user'') 1 60 10) limiter_new)
          (\<lambda>limiter. then_with (add_rule (test_rule ''default'' ''global'' None 100 60 0) limiter)
          (checks_all 0 bad_user [allowed, denied]
             (checks_all 0 good_user (replicate 50 allowed) (\<lambda>_. True)))))"

definition test_peek_does_not_consume :: bool where
  "test_peek_does_not_consume =
    (let key = \<lparr>rk_scope = ''global'', rk_value = ''peek-test''\<rparr>;
         peeks = (\<lambda>p k limiter.
           case peek (0, 0, 0) key limiter of
             (Ok result, limiter') \<Rightarrow> p result \<and> k limiter'
           | (Err _, _) \<Rightarrow> False)
     in peeks (\<lambda>result. remaining_requests result = 2 \<and> allowed result)
          (peeks (\<lambda>result. remaining_requests result = 2)
             (checks 0 key (\<lambda>result. allowed result \<and> remaining_requests result = 1) (\<lambda>_. True)))
          (default_limiter 2 60))"

definition test_reset :: bool where
  "test_reset =
    (let key = \<lparr>rk_scope = ''global'', rk_value = ''reset-test''\<rparr> in
     checks_all 0 key [\<lambda>_. True, \<lambda>_. True, denied]
       (\<lambda>limiter. then_with (reset key limiter) (checks 0 key allowed (\<lambda>_. True)))
       (default_limiter 2 60))"

definition test_remove_rule :: bool where
  "test_remove_rule =
    (let key = \<lparr>rk_scope = ''global'', rk_value = ''test''\<rparr> in
     then_with (add_rule (test_rule ''test-rule'' ''global'' None 10 60 0) limiter_new)
       (checks 0 key allowed
          (\<lambda>limiter. then_with (remove_rule ''test-rule'' limiter)
             (\<lambda>limiter. \<not> is_ok (fst (check (0, 0, 0) key limiter))))))"

text \<open>A key whose rule is known and whose bucket holds a whole number of tokens at an instant.\<close>

definition holding :: "nat \<Rightarrow> nat \<Rightarrow> rate_limit_key \<Rightarrow> rate_limit_rule \<Rightarrow> limiter \<Rightarrow> bool" where
  "holding t n key r l =
    (let b = current_bucket (t, t, t) key r l in
     find_matching_rule key l = Some r \<and> counting t n b \<and> capacity b = rule_capacity r \<and>
     refill_rate b = refill_rate (rule_bucket 0 r))"

definition same_but_key :: "rate_limit_key \<Rightarrow> limiter \<Rightarrow> limiter \<Rightarrow> bool" where
  "same_but_key key l l' =
    (rules l' = rules l \<and> default_rule l' = default_rule l \<and>
     (\<forall>key'. as_string key' \<noteq> as_string key \<longrightarrow> bucket_of l' key' = bucket_of l key'))"

lemma remaining_counting:
  assumes "counting t n b"
  shows "remaining t b = (of_nat n, b)"
proof -
  have "tokens b = Fin (of_nat n)" "n \<le> 2 ^ 53"
    using assms unfolding counting_def by blast+
  moreover have "int n \<le> int (2 ^ 53)"
    using calculation(2) by (simp only: of_nat_le_iff)
  ultimately show ?thesis
    by (simp add: remaining_def refill_counting [OF assms])
qed

lemma rule_bucket_fields:
  "capacity (rule_bucket t r) = rule_capacity r" "refill_rate (rule_bucket t r) = refill_rate (rule_bucket 0 r)"
  by (simp_all add: rule_bucket_def bucket_new_def rule_capacity_def)

lemma fresh_key_holding:
  assumes "find_matching_rule key l = Some r" "bucket_of l key = None"
    and "window_seconds r \<noteq> 0" "unat (rule_capacity r) \<le> 2 ^ 53"
  shows "holding t (unat (rule_capacity r)) key r l"
  using assms rule_bucket_counting [of r t] rule_bucket_fields [of t r]
  by (simp add: holding_def current_bucket_def)

lemma same_but_key_holding:
  assumes "same_but_key key l l'" "as_string key' \<noteq> as_string key"
  shows "holding t n key' r l' = holding t n key' r l"
  using assms by (simp add: same_but_key_def holding_def find_matching_rule_def current_bucket_def
      split: list.split)

lemma same_but_key_refl [simp]: "same_but_key key l l"
  by (simp add: same_but_key_def)

lemma same_but_key_trans: "same_but_key key l l' \<Longrightarrow> same_but_key key l' l'' \<Longrightarrow> same_but_key key l l''"
  by (simp add: same_but_key_def)

lemma checks_holding:
  assumes H: "holding t n key r l"
    and p: "\<And>res. allowed res = (0 < n) \<Longrightarrow> remaining_requests res = of_nat (n - 1) \<Longrightarrow> p res"
    and k: "\<And>l'. holding t (n - 1) key r l' \<Longrightarrow> same_but_key key l l' \<Longrightarrow> k l'"
  shows "checks t key p k l"
proof -
  obtain res l' where C: "check (t, t, t) key l = (Ok res, l')"
    and cb: "check_bucket t t r (current_bucket (t, t, t) key r l) = (res, the (bucket_of l' key))"
    and l': "bucket_of l' key \<noteq> None" "find_matching_rule key l' = Some r"
    using check_known [of key l r "(t, t, t)"] H by (auto simp: holding_def Let_def)
  have c: "counting t n (current_bucket (t, t, t) key r l)"
    and i: "capacity (current_bucket (t, t, t) key r l) = rule_capacity r"
      "refill_rate (current_bucket (t, t, t) key r l) = refill_rate (rule_bucket 0 r)"
    using H by (simp_all add: holding_def Let_def)
  have a: "allowed res = (0 < n)" "counting t (n - 1) (the (bucket_of l' key))"
    using check_counting [OF c cb] by auto
  moreover have "remaining_requests res = of_nat (n - 1)"
    using cb counting_consume [OF c] remaining_counting
    by (cases "0 < n") (auto simp: check_bucket_def Let_def)
  moreover have "same_but_key key l l'"
    using ops_keep_rules(1,4) [of "(t, t, t)" key l] keyed.check_frame [of key _ "(t, t, t)" l] C
    by (auto simp: same_but_key_def keys_apart_def)
  moreover have "holding t (n - 1) key r l'"
    using l' a(2) check_bucket_keeps(1,2) [of t t r "current_bucket (t, t, t) key r l", unfolded cb i]
    by (auto simp: holding_def current_bucket_def [of _ _ _ l'])
  ultimately show ?thesis
    using p k by (simp add: checks_def C)
qed

text \<open>A sequence of checks: the one at position \<open>i\<close> finds \<open>n - i\<close> tokens.\<close>

lemma checks_all_holding:
  assumes "holding t n key r l"
    and "\<And>i res. i < length ps \<Longrightarrow> allowed res = (i < n) \<Longrightarrow>
           remaining_requests res = of_nat (n - Suc i) \<Longrightarrow> (ps ! i) res"
    and "\<And>l'. holding t (n - length ps) key r l' \<Longrightarrow> same_but_key key l l' \<Longrightarrow> k l'"
  shows "checks_all t key ps k l"
  using assms
proof (induction ps arbitrary: l n)
  case (Cons p ps)
  show ?case
    unfolding checks_all.simps
  proof (rule checks_holding [OF Cons.prems(1)])
    show "p res" if "allowed res = (0 < n)" "remaining_requests res = of_nat (n - 1)" for res
      using Cons.prems(2) [of 0 res] that by simp
    fix l' assume l': "holding t (n - 1) key r l'" "same_but_key key l l'"
    show "checks_all t key ps k l'"
    proof (rule Cons.IH [OF l'(1)])
      show "(ps ! i) res" if "i < length ps" "allowed res = (i < n - 1)"
        "remaining_requests res = of_nat (n - 1 - Suc i)" for i res
        using Cons.prems(2) [of "Suc i" res] that by (simp add: less_diff_conv)
      show "k l''" if "holding t (n - 1 - length ps) key r l''" "same_but_key key l' l''" for l''
        using Cons.prems(3) [of l''] that same_but_key_trans [OF l'(2)] by simp
    qed
  qed
qed simp

lemma default_limiter_holding:
  assumes "w \<noteq> 0" "unat n \<le> 2 ^ 53"
  shows "holding t (unat n) key (test_rule ''default'' ''global'' None n w 0) (default_limiter n w)"
  using fresh_key_holding [of key "default_limiter n w" "test_rule ''default'' ''global'' None n w 0" t] assms
  by (simp add: default_limiter_def with_default_rule_def find_matching_rule_def bucket_of_def
      test_rule_def rule_capacity_def)

lemma basic_test: "test_token_bucket_basic"
  unfolding test_token_bucket_basic_def Let_def
proof (rule checks_all_holding [OF default_limiter_holding])
  let ?ps = "map (\<lambda>i result. allowed result \<and> remaining_requests result = 10 - of_nat i) [1..<11]"
  show "(?ps ! i) res" if "i < length ?ps" "allowed res = (i < unat (10 :: u64))"
    "remaining_requests res = of_nat (unat (10 :: u64) - Suc i)" for i res
    using that by (simp add: of_nat_diff)
  show "checks 0 \<lparr>rk_scope = ''global'', rk_value = ''test''\<rparr>
      (\<lambda>result. \<not> allowed result \<and> remaining_requests result = 0) (\<lambda>_. True) l'"
    if "holding 0 (unat (10 :: u64) - length ?ps) \<lparr>rk_scope = ''global'', rk_value = ''test''\<rparr>
      (test_rule ''default'' ''global'' None 10 60 0) l'" for l'
    by (rule checks_holding [OF that]) simp_all
qed simp_all

lemma user_quota:
  assumes "holding 0 2 key r l" "\<And>l'. holding 0 0 key r l' \<Longrightarrow> same_but_key key l l' \<Longrightarrow> k l'"
  shows "checks_all 0 key [\<lambda>_. True, \<lambda>_. True, denied] k l" "checks_all 0 key [allowed, allowed, denied] k l"
  by (rule checks_all_holding [OF assms(1)];
      auto simp: denied_def less_Suc_eq numeral_3_eq_3 intro: assms(2))+

lemma independence_test: "test_different_keys_independent"
proof -
  let ?r = "test_rule ''default'' ''global'' None 2 60 0"
  let ?key1 = "\<lparr>rk_scope = ''global'', rk_value = ''user1''\<rparr>"
  let ?key2 = "\<lparr>rk_scope = ''global'', rk_value = ''user2''\<rparr>"
  have H: "holding 0 2 key ?r (default_limiter 2 60)" for key
    using default_limiter_holding [of 60 2 0 key] by simp
  have "as_string ?key2 \<noteq> as_string ?key1"
    by (simp add: as_string_def fmt_def)
  with H have "holding 0 2 ?key2 ?r l" if "same_but_key ?key1 (default_limiter 2 60) l" for l
    using same_but_key_holding [OF that] by blast
  thus ?thesis
    unfolding test_different_keys_independent_def Let_def
    by (intro user_quota(1) [OF H] user_quota(2)) simp_all
qed

lemma reset_test: "test_reset"
  unfolding test_reset_def Let_def
proof (rule user_quota(1))
  let ?key = "\<lparr>rk_scope = ''global'', rk_value = ''reset-test''\<rparr>"
  let ?r = "test_rule ''default'' ''global'' None 2 60 0"
  show "holding 0 2 ?key ?r (default_limiter 2 60)"
    using default_limiter_holding [of 60 2 0 ?key] by simp
  fix l assume l: "holding 0 0 ?key ?r l"
  have "holding 0 (unat (rule_capacity ?r)) ?key ?r (snd (reset ?key l))"
    using l by (intro fresh_key_holding)
      (simp_all add: holding_def Let_def reset_def bucket_of_def find_matching_rule_def test_rule_def rule_capacity_def
        split: list.splits)
  thus "then_with (reset ?key l) (checks 0 ?key allowed (\<lambda>_. True))"
    unfolding then_with_def
    by (intro conjI checks_holding) (auto simp: reset_def is_ok_def rule_capacity_def test_rule_def)
qed

lemma peek_holding:
  assumes "holding t n key r l"
  shows "\<exists>res l'. peek (t, t, t) key l = (Ok res, l') \<and> remaining_requests res = of_nat n \<and>
    allowed res = (0 < (of_nat n :: u64)) \<and> holding t n key r l'"
proof -
  let ?b = "current_bucket (t, t, t) key r l"
  have b: "find_matching_rule key l = Some r" "counting t n ?b" "capacity ?b = rule_capacity r"
      "refill_rate ?b = refill_rate (rule_bucket 0 r)"
    using assms by (simp_all add: holding_def Let_def)
  let ?l' = "l\<lparr>buckets := hm_insert (as_string key) ?b (buckets l)\<rparr>"
  have "\<exists>res. peek (t, t, t) key l = (Ok res, ?l') \<and> remaining_requests res = of_nat n \<and>
    allowed res = (0 < (of_nat n :: u64))"
    using remaining_counting [OF b(2)]
    by (simp add: peek_def b(1) with_bucket_def peek_bucket_def current_bucket_def bucket_of_def Let_def
        case_prod_beta split: option.splits)
  moreover have "holding t n key r ?l'"
    using b by (simp add: holding_def find_matching_rule_def current_bucket_def bucket_of_def split: list.splits)
  ultimately show ?thesis by blast
qed

lemma peek_test: "test_peek_does_not_consume"
proof -
  let ?key = "\<lparr>rk_scope = ''global'', rk_value = ''peek-test''\<rparr>"
  let ?r = "test_rule ''default'' ''global'' None 2 60 0"
  have "holding 0 2 ?key ?r (default_limiter 2 60)"
    using default_limiter_holding [of 60 2 0 ?key] by simp
  from peek_holding [OF this] obtain res l where
    1: "peek (0, 0, 0) ?key (default_limiter 2 60) = (Ok res, l)" "remaining_requests res = 2" "allowed res"
      "holding 0 2 ?key ?r l" by auto
  from peek_holding [OF 1(4)] obtain res' l' where
    2: "peek (0, 0, 0) ?key l = (Ok res', l')" "remaining_requests res' = 2" "holding 0 2 ?key ?r l'" by auto
  have "checks 0 ?key (\<lambda>result. allowed result \<and> remaining_requests result = 1) (\<lambda>_. True) l'"
    by (rule checks_holding [OF 2(3)]) simp_all
  with 1 2 show ?thesis by (simp add: test_peek_does_not_consume_def Let_def)
qed

lemma remove_rule_test: "test_remove_rule"
proof -
  let ?key = "\<lparr>rk_scope = ''global'', rk_value = ''test''\<rparr>"
  let ?r = "test_rule ''test-rule'' ''global'' None 10 60 0"
  let ?l = "limiter_new\<lparr>rules := [?r]\<rparr>"
  have a: "add_rule ?r limiter_new = (Ok (), ?l)"
    by (simp add: add_rule_def limiter_new_def)
  have "holding 0 (unat (rule_capacity ?r)) ?key ?r ?l"
    by (rule fresh_key_holding)
      (simp_all add: find_matching_rule_def rule_matches_def bucket_of_def limiter_new_def test_rule_def
         rule_capacity_def)
  hence "checks 0 ?key allowed
      (\<lambda>l. then_with (remove_rule ''test-rule'' l) (\<lambda>l. \<not> is_ok (fst (check (0, 0, 0) ?key l)))) ?l"
  proof (rule checks_holding)
    fix l assume "same_but_key ?key ?l l"
    hence "rules l = [?r]" "default_rule l = None"
      by (simp_all add: same_but_key_def limiter_new_def)
    thus "then_with (remove_rule ''test-rule'' l) (\<lambda>l. \<not> is_ok (fst (check (0, 0, 0) ?key l)))"
      by (simp add: then_with_def remove_rule_def check_def find_matching_rule_def test_rule_def is_ok_def)
  qed (simp add: rule_capacity_def test_rule_def)
  with a show ?thesis by (simp add: test_remove_rule_def then_with_def is_ok_def Let_def)
qed

lemma custom_rules_test: "test_custom_rules"
proof -
  let ?bad = "\<lparr>rk_scope = ''user'', rk_value = ''bad-user''\<rparr>"
  let ?good = "\<lparr>rk_scope = ''user'', rk_value = ''good-user''\<rparr>"
  let ?s = "test_rule ''strict'' ''user'' (Some ''bad-user'') 1 60 10"
  let ?d = "test_rule ''default'' ''global'' None 100 60 0"
  let ?l = "limiter_new\<lparr>rules := [?s, ?d]\<rparr>"
  have a: "add_rule ?s limiter_new = (Ok (), limiter_new\<lparr>rules := [?s]\<rparr>)"
    "add_rule ?d (limiter_new\<lparr>rules := [?s]\<rparr>) = (Ok (), ?l)"
    by (simp_all add: add_rule_def limiter_new_def sort_value_def test_rule_def)
  have s: "holding 0 (unat (rule_capacity ?s)) ?bad ?s ?l" and d: "holding 0 (unat (rule_capacity ?d)) ?good ?d ?l"
    by (rule fresh_key_holding;
        simp add: find_matching_rule_def rule_matches_def bucket_of_def limiter_new_def test_rule_def
          rule_capacity_def sort_value_def)+
  have n: "unat (rule_capacity ?s) = 1" "unat (rule_capacity ?d) = 100"
    by (simp_all add: rule_capacity_def test_rule_def)
  have apart: "as_string ?good \<noteq> as_string ?bad"
    by (simp add: as_string_def fmt_def)
  have "checks_all 0 ?bad [allowed, denied] (checks_all 0 ?good (replicate 50 allowed) (\<lambda>_. True)) ?l"
  proof (rule checks_all_holding [OF s [unfolded n]])
    show "([allowed, denied] ! i) res" if "i < length [allowed, denied]" "allowed res = (i < 1)" for i res
      using that by (auto simp: denied_def less_Suc_eq)
    fix l assume "same_but_key ?bad ?l l"
    hence "holding 0 100 ?good ?d l"
      using d same_but_key_holding [OF _ apart] n by metis
    thus "checks_all 0 ?good (replicate 50 allowed) (\<lambda>_. True) l"
      by (rule checks_all_holding) simp_all
  qed
  with a show ?thesis by (simp add: test_custom_rules_def then_with_def is_ok_def Let_def)
qed

text \<open>1.5 seconds later a bucket of rate 5 is full again: \<open>0 + 1.5 * 5\<close> is cut at 5.\<close>

lemma small_double: "is_double x \<Longrightarrow> 0 \<le> x \<Longrightarrow> x \<le> 8 \<Longrightarrow> to_f64 x = Fin x"
  using nat_lt_2_1024 [of 8] by (intro to_f64_double) simp_all

lemma f64_nat: "of_nat n = q \<Longrightarrow> n \<le> 2 ^ 53 \<Longrightarrow> f64_of_nat n = Fin q"
  using f64_of_nat_small by blast

lemma five_after_sleep:
  assumes "tokens b = Fin 0" "last_refill b = 0" "capacity b = 5" "refill_rate b = Fin 5"
  shows "fst (try_consume 1500000000 1 b)"
proof -
  have "is_double (1 / 2)" "is_double (3 / 2)" "is_double (15 / 2)"
    by code_simp+
  hence F: "f64_div (Fin 500000000) (Fin 1000000000) = Fin (1 / 2)" "Fin 1 + Fin (1 / 2) = Fin (3 / 2)"
    "Fin (3 / 2) * Fin 5 = Fin (15 / 2)" "Fin 0 + Fin (15 / 2) = Fin (15 / 2)"
    by (simp_all add: plus_f64_def times_f64_def small_double)
  moreover have "1500000000 div 10 ^ 9 = (1 :: nat)" "1500000000 mod 10 ^ 9 = (500000000 :: nat)"
    "(10 :: nat) ^ 9 = 1000000000" by simp_all
  moreover have "f64_of_nat 1 = Fin 1" "f64_of_nat 500000000 = Fin 500000000"
    "f64_of_nat 1000000000 = Fin 1000000000"
    by (rule f64_nat; simp)+
  ultimately have "secs_f64 1500000000 = Fin (3 / 2)"
    unfolding secs_f64_def by (simp only:)
  hence "tokens b + secs_f64 (1500000000 - last_refill b) * refill_rate b = Fin (15 / 2)"
    using F assms by (simp only: diff_zero)
  moreover have "u64_f64 5 = Fin 5"
    using f64_of_nat_small [of 5] by (simp add: u64_f64_def)
  ultimately show ?thesis
    using assms by (simp add: try_consume_def refill_def f64_min_def one_f64_def Let_def)
qed

lemma refill_test: "test_token_bucket_refill"
proof -
  let ?key = "\<lparr>rk_scope = ''global'', rk_value = ''refill-test''\<rparr>"
  let ?r = "test_rule ''default'' ''global'' None 5 1 0"
  have rate: "refill_rate (rule_bucket 0 ?r) = Fin 5"
    using f64_of_nat_small [of 5] f64_nat [of 1 1] nat_is_double [of 5]
    by (simp add: rule_bucket_def bucket_new_def test_rule_def u64_f64_def small_double)
  have "checks 1500000000 ?key allowed (\<lambda>_. True) l" if "holding 0 0 ?key ?r l" for l
  proof -
    let ?c = "(1500000000, 1500000000, 1500000000)"
    have l: "find_matching_rule ?key l = Some ?r" and b: "counting 0 0 (current_bucket (0, 0, 0) ?key ?r l)"
      "capacity (current_bucket (0, 0, 0) ?key ?r l) = 5"
      "refill_rate (current_bucket (0, 0, 0) ?key ?r l) = Fin 5"
      using that rate by (simp_all add: holding_def Let_def) (simp add: rule_capacity_def test_rule_def)
    have k: "bucket_of l ?key \<noteq> None"
      using b(1) f64_nat [of 5 5]
      by (cases "bucket_of l ?key")
        (simp_all add: current_bucket_def counting_def rule_bucket_def bucket_new_def u64_f64_def test_rule_def)
    hence "fst (try_consume 1500000000 1 (current_bucket ?c ?key ?r l))"
      using b by (intro five_after_sleep) (auto simp: current_bucket_def counting_def)
    moreover obtain res l' where "check ?c ?key l = (Ok res, l')"
      "check_bucket 1500000000 1500000000 ?r (current_bucket ?c ?key ?r l) = (res, the (bucket_of l' ?key))"
      using check_known [OF l, of ?c] by auto
    ultimately show ?thesis
      by (auto simp: checks_def check_bucket_def Let_def case_prod_beta)
  qed
  moreover have "holding 0 5 ?key ?r (default_limiter 5 1)"
    using default_limiter_holding [of 1 5 0 ?key] by simp
  ultimately show ?thesis
    unfolding test_token_bucket_refill_def Let_def
    by (intro checks_all_holding [of 0 5 ?key ?r] checks_holding [of 0 0 ?key ?r]) (simp_all add: denied_def)
qed

end
