(* ===== verification/Policy_Tests.thy ===== *)
theory Policy_Tests
  imports State_Tests Jwt
begin

text \<open>
  The unit tests of \<open>policy/cedar.rs\<close> and \<open>auth/jwt.rs\<close> that go through the Cedar engine and the JWT
  library. Both are parameters: a test is shown for every engine that gives the test's policy its
  documented meaning (\<open>knows_policy\<close> spells the entities as they reach the engine), and for every
  library that answers the test's token as documented.
\<close>

section \<open>Cedar\<close>

text \<open>The policy text, one line per string.\<close>

definition TEST_POLICY :: string where
  \<open>TEST_POLICY = concat (map (\<lambda>l. l @ [CHR 0x0A])
    ['''',
     ''permit ('',
     ''    principal == Client::"authenticated",'',
     ''    action == Action::"tools/list",'',
     ''    resource'',
     '');'',
     '''',
     ''permit ('',
     ''    principal == Client::"authenticated",'',
     ''    action == Action::"tools/call",'',
     ''    resource == Tool::"com.echo.echo"'',
     '')'',
     ''when {'',
     ''    principal has scopes && principal.scopes.contains("mcp:tools:call")'',
     ''};'',
     '''',
     ''permit ('',
     ''    principal == Client::"authenticated",'',
     ''    action == Action::"shutdown",'',
     ''    resource'',
     '')'',
     ''when {'',
     ''    principal has scopes && principal.scopes.contains("mcp:admin")'',
     ''};''])\<close>

text \<open>The action, the resource and the set of scopes of a request, and the decision on it.\<close>

definition policy_facts :: "(string \<times> string \<times> string \<times> cedar_decision) list" where
  \<open>policy_facts =
    [(''Action::"tools/list"'', ''Resource::"any"'', ''[]'', CedarAllow),
     (''Action::"tools/call"'', ''Tool::"com.echo.echo"'', ''["mcp:tools:read","mcp:tools:call"]'', CedarAllow),
     (''Action::"tools/call"'', ''Tool::"com.echo.echo"'', ''[]'', CedarDeny),
     (''Action::"shutdown"'', ''Resource::"any"'', ''[]'', CedarDeny),
     (''Action::"shutdown"'', ''Resource::"any"'', ''["mcp:tools:read","mcp:admin"]'', CedarAllow)]\<close>

definition decides_so ::
  "('u, 'x, 'n, 'es, 'q, 'ps) cedar_engine \<Rightarrow> 'ps \<Rightarrow> string \<times> string \<times> string \<times> cedar_decision \<Rightarrow> bool" where
  \<open>decides_so E ps = (\<lambda>(act, res, scopes, d).
     \<exists>p x n a r es q reasons.
       ce_parse_uid E ''Client::"authenticated"'' = Ok p \<and> ce_parse_expr E scopes = Ok x \<and>
       ce_entity E p [(''scopes'', x)] = Ok n \<and> ce_parse_uid E act = Ok a \<and> ce_parse_uid E res = Ok r \<and>
       ce_entities E [n, ce_entity_no_attrs E a, ce_entity_no_attrs E r] = Ok es \<and>
       ce_request E p a r = Ok q \<and> ce_authorize E q ps es = (d, reasons) \<and>
       (d = CedarAllow \<longrightarrow> reasons \<noteq> []))\<close>

definition knows_policy :: "('u, 'x, 'n, 'es, 'q, 'ps) cedar_engine \<Rightarrow> bool" where
  "knows_policy E \<longleftrightarrow>
     (\<exists>ps. ce_parse_policies E TEST_POLICY = Ok ps \<and> list_all (decides_so E ps) policy_facts) \<and>
     is_ok (ce_parse_policies E ''permit(principal, action, resource);'') \<and>
     \<not> is_ok (ce_parse_policies E ''permit(principal, action, resource)'')"

definition test_request :: "string \<Rightarrow> string \<Rightarrow> (string \<times> json) list \<Rightarrow> auth_request" where
  "test_request act res ctx =
     \<lparr>principal = ''authenticated'', action = act, resource = res, context_attrs = ctx\<rparr>"

text \<open>\<open>make_authorizer\<close>, whose error ends the test.\<close>

definition with_authorizer ::
  "('u, 'x, 'n, 'es, 'q, 'ps) cedar_engine \<Rightarrow> ('ps authorizer \<Rightarrow> bool) \<Rightarrow> bool" where
  "with_authorizer E k = unwrap_and (authorizer_new E TEST_POLICY) (\<lambda>a. k (CedarPolicyAuthorizer a))"

definition answered :: "('u, 'x, 'n, 'es, 'q, 'ps) cedar_engine \<Rightarrow> auth_request \<Rightarrow> (auth_response \<Rightarrow> bool) \<Rightarrow> bool" where
  "answered E req k = with_authorizer E (\<lambda>authz. unwrap_and (authorizer_evaluate E authz req) k)"

definition test_permit_tools_list :: "('u, 'x, 'n, 'es, 'q, 'ps) cedar_engine \<Rightarrow> bool" where
  "test_permit_tools_list E =
     answered E (test_request ''tools/list'' ''any'' []) (\<lambda>resp. ar_decision resp = CedarAllow)"

definition test_permit_tools_call_with_scope :: "('u, 'x, 'n, 'es, 'q, 'ps) cedar_engine \<Rightarrow> bool" where
  "test_permit_tools_call_with_scope E =
     answered E (test_request ''tools/call'' ''com.echo.echo''
         [(''scopes'', JArr [JStr ''mcp:tools:read'', JStr ''mcp:tools:call''])])
       (\<lambda>resp. ar_decision resp = CedarAllow \<and> deciding_policies resp \<noteq> [])"

definition test_deny_tools_call_without_scope :: "('u, 'x, 'n, 'es, 'q, 'ps) cedar_engine \<Rightarrow> bool" where
  "test_deny_tools_call_without_scope E =
     answered E (test_request ''tools/call'' ''com.echo.echo'' []) (\<lambda>resp. ar_decision resp = CedarDeny)"

definition test_forbid_shutdown_without_admin :: "('u, 'x, 'n, 'es, 'q, 'ps) cedar_engine \<Rightarrow> bool" where
  "test_forbid_shutdown_without_admin E =
     answered E (test_request ''shutdown'' ''any'' []) (\<lambda>resp. ar_decision resp = CedarDeny)"

definition test_forbid_shutdown_with_admin_is_allowed :: "('u, 'x, 'n, 'es, 'q, 'ps) cedar_engine \<Rightarrow> bool" where
  "test_forbid_shutdown_with_admin_is_allowed E =
     answered E (test_request ''shutdown'' ''any''
         [(''scopes'', JArr [JStr ''mcp:tools:read'', JStr ''mcp:admin''])])
       (\<lambda>resp. ar_decision resp = CedarAllow)"

definition test_validate_good_policy :: "('u, 'x, 'n, 'es, 'q, 'ps) cedar_engine \<Rightarrow> bool" where
  "test_validate_good_policy E =
     with_authorizer E (\<lambda>authz. is_ok (validate_policy E authz ''permit(principal, action, resource);''))"

definition test_validate_bad_policy :: "('u, 'x, 'n, 'es, 'q, 'ps) cedar_engine \<Rightarrow> bool" where
  "test_validate_bad_policy E =
     with_authorizer E (\<lambda>authz. \<not> is_ok (validate_policy E authz ''permit(principal, action, resource)''))"

lemma answered_as_decided:
  assumes "ce_parse_policies E TEST_POLICY = Ok ps"
    and "decides_so E ps (euid_text ''Action'' act, euid_text (if act = ''tools/call'' then ''Tool'' else ''Resource'') res,
           scopes_set_expr (request_scopes (test_request act res ctx)), d)"
    and "\<And>reasons diags. d = CedarAllow \<longrightarrow> reasons \<noteq> [] \<Longrightarrow>
           k \<lparr>ar_decision = d, deciding_policies = reasons, diagnostics = diags\<rparr>"
  shows "answered E (test_request act res ctx) k"
proof -
  have \<open>euid_text ''Client'' ''authenticated'' = ''Client::"authenticated"''\<close>
    by code_simp
  then show ?thesis
    using assms unfolding decides_so_def
    by (auto simp: answered_def with_authorizer_def authorizer_new_def parse_policies_def policy_evaluate_def
        build_principal_entity_def build_action_entity_def build_resource_entity_def parse_euid_def unwrap_and_def
        test_request_def bind_result_def Let_def)
qed

lemma cedar_tests:
  assumes "knows_policy E"
  shows "test_permit_tools_list E" "test_permit_tools_call_with_scope E" "test_deny_tools_call_without_scope E"
    "test_forbid_shutdown_without_admin E" "test_forbid_shutdown_with_admin_is_allowed E"
    "test_validate_good_policy E" "test_validate_bad_policy E"
proof -
  obtain ps where ps: "ce_parse_policies E TEST_POLICY = Ok ps" and F: "list_all (decides_so E ps) policy_facts"
    and V: "is_ok (ce_parse_policies E ''permit(principal, action, resource);'')"
      "\<not> is_ok (ce_parse_policies E ''permit(principal, action, resource)'')"
    using assms by (auto simp: knows_policy_def)
  have D: "decides_so E ps x" if "x \<in> set policy_facts" for x
    using F that by (simp add: list_all_iff)
  show "test_permit_tools_list E" unfolding test_permit_tools_list_def
    by (rule answered_as_decided [OF ps, where d = CedarAllow], rule D, code_simp, simp)
  show "test_permit_tools_call_with_scope E" unfolding test_permit_tools_call_with_scope_def
    by (rule answered_as_decided [OF ps, where d = CedarAllow], rule D, code_simp, simp)
  show "test_deny_tools_call_without_scope E" unfolding test_deny_tools_call_without_scope_def
    by (rule answered_as_decided [OF ps, where d = CedarDeny], rule D, code_simp, simp)
  show "test_forbid_shutdown_without_admin E" unfolding test_forbid_shutdown_without_admin_def
    by (rule answered_as_decided [OF ps, where d = CedarDeny], rule D, code_simp, simp)
  show "test_forbid_shutdown_with_admin_is_allowed E" unfolding test_forbid_shutdown_with_admin_is_allowed_def
    by (rule answered_as_decided [OF ps, where d = CedarAllow], rule D, code_simp, simp)
  show "test_validate_good_policy E" "test_validate_bad_policy E"
    using ps V by (auto simp: test_validate_good_policy_def test_validate_bad_policy_def with_authorizer_def
        authorizer_new_def parse_policies_def unwrap_and_def is_ok_def split: result.splits)
qed

section \<open>Tokens\<close>

text \<open>\<open>create_test_token\<close> is the library's encoder: a function of the secret and the claims. The time of
  the test is an argument.\<close>

type_synonym minter = "string \<Rightarrow> json \<Rightarrow> string"

definition expiring :: "u64 \<Rightarrow> (string \<times> json) list \<Rightarrow> json" where
  "expiring t claims = JObj ((''sub'', JStr ''client-123'') # claims @ [(''exp'', JNum (PosInt t))])"

definition hmac_claims :: "u64 \<Rightarrow> json" where
  "hmac_claims now =
     expiring (now + 3600) [(''iss'', JStr ''mcp-shield''), (''scope'', JStr ''mcp:tools:read mcp:tools:call'')]"

definition scope_claims :: "u64 \<Rightarrow> json" where
  "scope_claims now =
     expiring (now + 3600) [(''scope'', JStr ''mcp:tools:read mcp:tools:call mcp:resources:read'')]"

definition test_validate_hmac_token :: "'k jwt_lib \<Rightarrow> minter \<Rightarrow> u64 \<Rightarrow> bool" where
  "test_validate_hmac_token L create_test_token now =
    (let validator = with_hmac_secret ''test-secret-key-12345'' (Some ''mcp-shield'');
         token = create_test_token ''test-secret-key-12345'' (hmac_claims now)
     in unwrap_and (validate_token L validator token) (\<lambda>claims.
          sub claims = Some ''client-123'' \<and> iss claims = Some ''mcp-shield'' \<and>
          some_and (claim_scope claims) (\<lambda>scopes. ''mcp:tools:read'' \<in> set scopes)))"

definition test_reject_wrong_secret :: "'k jwt_lib \<Rightarrow> minter \<Rightarrow> u64 \<Rightarrow> bool" where
  "test_reject_wrong_secret L create_test_token now =
    (let validator = with_hmac_secret ''correct-secret'' (Some ''mcp-shield'');
         token = create_test_token ''wrong-secret'' (expiring (now + 3600) [])
     in \<not> is_ok (validate_token L validator token))"

definition test_reject_expired_token :: "'k jwt_lib \<Rightarrow> minter \<Rightarrow> u64 \<Rightarrow> bool" where
  "test_reject_expired_token L create_test_token now =
    (let validator = with_hmac_secret ''test-secret'' (Some ''mcp-shield'');
         token = create_test_token ''test-secret'' (expiring (now - 3600) [])
     in \<not> is_ok (validate_token L validator token))"

definition test_scope_parsing :: "'k jwt_lib \<Rightarrow> minter \<Rightarrow> u64 \<Rightarrow> bool" where
  "test_scope_parsing L create_test_token now =
    (let validator = with_hmac_secret ''test-secret'' None;
         token = create_test_token ''test-secret'' (scope_claims now)
     in unwrap_and (validate_token L validator token) (\<lambda>claims.
          some_and (claim_scope claims) (\<lambda>scopes. length scopes = 3 \<and> ''mcp:tools:call'' \<in> set scopes)))"

text \<open>What the library answers for a token, with the settings the validator hands to it.\<close>

definition decoded_with ::
  "'k jwt_lib \<Rightarrow> string \<Rightarrow> string \<Rightarrow> string option \<Rightarrow> (json, string) result" where
  "decoded_with L token secret issuer =
     decode_token L token (SecretKey secret)
       \<lparr>v_algorithm = HS256, v_issuers = map_option (\<lambda>i. [i]) issuer, v_audiences = None, v_exp = True,
        v_leeway = 30, v_required = []\<rparr>"

lemma validated_hmac:
  "decode_header L token = Ok HS256 \<Longrightarrow> validate_token L (with_hmac_secret secret issuer) token =
     (case decoded_with L token secret issuer of
        Err e \<Rightarrow> Err (JwtError (fmt [''JWT validation failed: '', e]))
      | Ok claims \<Rightarrow> Ok (extract_claims claims))"
  by (simp add: validate_token_def get_decoding_key_def with_hmac_secret_def validator_new_def jwt_config_default_def
      build_validation_def decoded_with_def)

lemma split_test_scopes:
  "split_whitespace ''mcp:tools:read mcp:tools:call'' = [''mcp:tools:read'', ''mcp:tools:call'']"
  "split_whitespace ''mcp:tools:read mcp:tools:call mcp:resources:read'' =
     [''mcp:tools:read'', ''mcp:tools:call'', ''mcp:resources:read'']"
  by code_simp+

lemma token_tests:
  assumes "\<And>secret claims. decode_header L (mint secret claims) = Ok HS256"
    and "decoded_with L (mint ''test-secret-key-12345'' (hmac_claims now)) ''test-secret-key-12345'' (Some ''mcp-shield'') =
           Ok (hmac_claims now)"
    and "decoded_with L (mint ''wrong-secret'' (expiring (now + 3600) [])) ''correct-secret'' (Some ''mcp-shield'') = Err e1"
    and "decoded_with L (mint ''test-secret'' (expiring (now - 3600) [])) ''test-secret'' (Some ''mcp-shield'') = Err e2"
    and "decoded_with L (mint ''test-secret'' (scope_claims now)) ''test-secret'' None = Ok (scope_claims now)"
  shows "test_validate_hmac_token L mint now" "test_reject_wrong_secret L mint now"
    "test_reject_expired_token L mint now" "test_scope_parsing L mint now"
  using assms(2-5)
  by (simp_all add: test_validate_hmac_token_def test_reject_wrong_secret_def test_reject_expired_token_def
      test_scope_parsing_def validated_hmac [OF assms(1)] unwrap_and_def some_and_def is_ok_def extract_claims_def
      claim_str_def hmac_claims_def scope_claims_def expiring_def split_test_scopes Let_def)

end
