(* ===== verification/Spec2Isabelle.thy ===== *)
theory Spec2Isabelle
  imports Interleaving Rate_Bound Oauth Pg_Database Guardrail_Tests Policy_Tests
begin

text \<open>
  MCP-Shield is a security gateway between clients of the Model Context Protocol and upstream
  servers. A message enters through a transport, is parsed as JSON-RPC, authorized by scope, checked
  against the tool registry, the tool's JSON schema, the argument guardrail (ePCA), the session lock
  and a Cedar policy, forwarded to the upstream that registered the tool, and its answer is inspected,
  counted and audited. This development models the Rust program under \<open>src/src\<close>; paths below are
  relative to that directory.

  \<^bold>\<open>Foundations.\<close> \<open>Prelude\<close> holds Rust's \<open>Result\<close>, \<open>HashMap\<close> as an association list behind the
  locale \<open>keyed_store\<close>, and the locales \<open>guarded_machine\<close> and \<open>machine\<close>, which turn an invariant kept
  by every operation into one kept by every run. \<open>Rust_Str\<close> writes out the methods of \<open>str\<close> the program
  calls, \<open>Float64\<close> the arithmetic of \<open>f64\<close>, \<open>Socket_Addr\<close> the reader and printer of \<open>SocketAddr\<close>,
  \<open>Json\<close> the values of \<open>serde_json\<close> and what derived deserialisation does with them. \<open>Regex_Api\<close> is the
  interface of the crate \<open>regex\<close>; \<open>Sample_Codec\<close> a concrete codec for the witnesses.

  \<^bold>\<open>Components.\<close> One theory per file of the program (its structs are records, its enums datatypes, its
  methods functions from the state to the answer and the new state):
  \<^item> \<open>Errors\<close>, \<open>error.rs\<close>: the error type, its codes, statuses, texts and JSON-RPC responses.
  \<^item> \<open>Jsonrpc\<close>, \<open>protocol/jsonrpc.rs\<close>: \<open>parse\<close> and \<open>to_value\<close>; the lemmas characterise the messages that
    parsing produces and give the round trip.
  \<^item> \<open>Message\<close> and \<open>Payloads\<close>, \<open>protocol/message.rs\<close>: method names, parameter, result and content structs
    with the serde instances derived for them; the locale \<open>serde_codec\<close> is what a struct that
    survives serialisation promises.
  \<^item> \<open>Schema\<close>, \<open>protocol/schema.rs\<close>: the validator cache; a simulation of the cache by validating afresh.
  \<^item> \<open>Scope\<close>, \<open>Jwt\<close>, \<open>Oauth\<close>, \<open>auth/*.rs\<close>: the enforcer, tokens and the discovery documents.
  \<^item> \<open>Registry\<close>, \<open>gateway/registry.rs\<close>: the tool table and its index by server, with their invariant.
  \<^item> \<open>Session\<close>, \<open>session/state.rs\<close>: the locale \<open>session_manager\<close> and its in-memory interpretation.
  \<^item> \<open>Ecpa\<close>, \<open>Egress\<close>, \<open>guardrail/*.rs\<close>: argument constraints and response inspection; a locale per trait.
  \<^item> \<open>Cedar\<close>, \<open>policy/cedar.rs\<close>: entities, requests and policy sets handed to the Cedar engine.
  \<^item> \<open>Metrics\<close>, \<open>Producer\<close>, \<open>Rate_Limiter\<close>, \<open>telemetry/*.rs\<close>: the log of metric updates, the audit sinks,
    token buckets.
  \<^item> \<open>Proxy\<close>, \<open>gateway/proxy.rs\<close>, and \<open>Echo_Server\<close>, \<open>test_server/echo.rs\<close>: forwarding and the two built-in
    servers.
  \<^item> \<open>Router\<close>, \<open>gateway/router.rs\<close>: every stage and handler of the request pipeline as a step on the
    router's state, with rules for reasoning about such steps; \<open>Pipeline\<close> holds what the stages
    guarantee together.
  \<^item> \<open>Transports\<close>, \<open>transport/stdio.rs\<close> and \<open>transport/streamable_http.rs\<close>: the loop over standard input
    and the HTTP handlers with their session table.
  \<^item> \<open>Sse\<close>, \<open>transport/sse.rs\<close>: event streams. The channels belong to tokio: what is sent on them is put on
    record, and the outcome of a send is an argument. The relation \<open>sse_run\<close> has the runs of interleaved
    handlers with their history, from which the functions \<open>channel_of\<close>, \<open>owed\<close> and \<open>router_after\<close> read off what
    must have been sent and routed.
  \<^item> \<open>Control_Plane\<close>, \<open>control_plane/*\<close>: tenants, policies, upstreams and rate limit rules in memory or in
    a database behind a cache; its specification is the history of writes. The operations on the database
    are threads, with an access for each statement and each write to the cache. \<open>Pg_Database\<close> gives the SQL
    statements a meaning over tables and shows what the cache is worth, and how an overlapping refresh
    undoes a write.
  \<^item> \<open>Config\<close>, \<open>config.rs\<close>, and \<open>Startup\<close>, \<open>main.rs\<close>: decoding, environment overrides and validation of the
    configuration, and the assembly of all the components from it.
  \<^item> \<open>Server\<close>, \<open>run_http_server\<close> of \<open>main.rs\<close>: both HTTP transports on one router, as the relation \<open>serve\<close>,
    in which handlers interleave between reading a table, routing and answering. What holds of every
    reachable server follows from what one message keeps (\<open>serves_invariant\<close>).
  \<^item> \<open>Tasks\<close>, \<open>gateway/router.rs\<close> again: a message as a task with one atomic access for each lock it takes
    and a permit of the proxy's semaphore while it forwards; alone, a task is \<open>handle_message\<close>
    (\<open>message_task_runs\<close>). \<open>Threads\<close> has such tasks in general, with the locales \<open>ledger\<close>, of tasks that keep books
    of what they owe, and \<open>lawful_jobs\<close>, of tasks whose calls must be justified by the states they have passed.
    \<open>Interleaving\<close> interprets both for the messages of a gateway, in any number and any order.
  \<^item> \<open>Rate_Bound\<close>: the guarantee of the rate limiter over time, by a potential that the tokens of a
    bucket and the rounding of every operation pay into.
  \<^item> \<open>Unit_Tests\<close>, \<open>State_Tests\<close>, \<open>Guardrail_Tests\<close>, \<open>Policy_Tests\<close>: the program's unit tests, evaluated on
    the model.

  \<^bold>\<open>How they interact.\<close> \<open>Startup.assemble\<close> builds a router from a configuration; a transport parses a
  message (\<open>Jsonrpc.from_str\<close>) and calls \<open>Router.handle_message\<close>, which threads sessions, schema cache,
  proxy, metrics and audit producer through the stages. Statements on one component are in its theory;
  those on the pipeline are in \<open>Pipeline\<close>, those on the started gateway in \<open>Startup\<close>, those on every run
  of its server in \<open>Server\<close>, those on all interleavings of its messages in \<open>Interleaving\<close>.

  \<^bold>\<open>What is shown.\<close> That a tool call reaches an upstream only past every guard, at most once, and that a
  refusal has no effect upstream; that however the messages of a gateway interleave, each upstream
  call is the call of one request that has arrived and is entitled to it, the books agree once no message is under way, and no message
  is left waiting; that every message is answered, counted and audited once; the
  invariants of registry, sessions, cache, limiter and control plane over all runs of their
  operations; round trips of messages, addresses and structs; the behaviour of each operation on its
  error branches; and where the program falls short of what its comments promise.

  \<^bold>\<open>Conventions.\<close> A result \<open>None\<close> of a function that answers means that the code gives no answer: a panic
  (a slice inside a character, an \<open>unwrap\<close> on an error) or a wait for ever (a semaphore with no slots).
  Machine integers are words where they can wrap (priorities, identifiers, numbers in JSON); counters
  that the code only compares are natural numbers. A double is the rational it stands for and every
  operation is rounded, ties to even; signed zeros are not told apart. Locks make each operation
  atomic, so interleaved callers are a list of operations; where an operation holds no lock from one
  access to the next, it is a thread (\<open>Tasks\<close>, the database of \<open>Control_Plane\<close>). In \<open>Transports\<close> a handler is one
  step, from its request to its answer; \<open>Sse\<close> and \<open>Server\<close> split it at its locks
  into three steps that others may interleave with, the middle one being \<open>Router.handle_message\<close>
  (\<open>post_in_parts\<close>, \<open>sse_post_in_parts\<close>); \<open>Tasks\<close> splits that one at the locks of the router, and
  \<open>Interleaving\<close> relates the two (\<open>server_runs_are_pool_runs\<close>). A blocked access is one that gives \<open>None\<close>. An access
  under a lock and the counter that is incremented with it are one; so is the publication of an event. There is no fuel: every loop of the modelled
  code is structural, so the functions are total.

  \<^bold>\<open>Parameters.\<close> Code that is not in the repository is an argument: the text codec of JSON (its hypothesis
  \<open>codec_ok\<close> is that a value without floats survives printing), the texts of serde's messages, the regular
  expression, Cedar, JSON schema, JWT, TOML and HTTP libraries, the database, tokio's channels and
  standard output (what a send or a write gives), the legality of header values, and the orders in which hash tables are listed (\<open>hash_order_ok\<close>: a permutation). Times, new
  identifiers and the bytes of a read are arguments too. Every hypothesis on them is named in the
  property that uses it and met by a concrete instance in its witness.

  \<^bold>\<open>Bounds.\<close> The recovery of a rate limit bucket is bounded by two windows of its rule. Instants
  are natural numbers without a bound, so an elapsed time may round to an infinity; the lemmas on
  buckets allow for it; the bound on admissions asks for less than \<open>2^64\<close> seconds since the first
  instant. Schema keys are cut at 1024 bytes, as in the code.

  \<^bold>\<open>Not modelled.\<close> Log lines of \<open>tracing\<close>, sockets and the shutdown signal, which are input and output
  without a decision of the program; the Prometheus exporter and the HTTP client's time limit, which
  belong to their crates; what a reader of an event stream gets of the messages that were sent on it, and the
  end of a stream when its last sender is dropped, which are tokio's; \<open>ProgressParams\<close> and \<open>PingResult\<close>, which no code reads; the
  \<open>Display\<close> of a message, which only log lines use; module declarations. Three panics are left out: of a semaphore with more than
  \<open>2^61 - 1\<close> permits, of a CORS list with a star among its origins, and of the key lock of the token
  validator when it is read from inside the asynchronous runtime.

  \<^bold>\<open>Plan.\<close> Nothing that decides an answer is left; what could follow is the two structs above, and the
  sinks of a fan-out as accesses of their own.
\<close>

end
